(* ===== verification/Prelude.thy ===== *)
theory Prelude
  imports Main "HOL-Library.Sublist"
begin

text \<open>
  Shared vocabulary of the development: byte strings and the operations of Go's
  \<open>strings\<close>, \<open>bytes\<close>, \<open>unicode/utf8\<close> and \<open>strconv\<close> packages that the program
  uses, with the generic lemmas every component rests on.  A Go string or byte slice is
  a \<open>char list\<close>: a HOL \<open>char\<close> is exactly one byte, so \<open>length\<close> counts what
  Go's \<open>len\<close> counts.  A fallible operation returns \<open>'e + 'a\<close>, \<open>Inl\<close> the error.
\<close>

named_theorems gostr \<open>simplification rules for the byte-string operations\<close>
named_theorems frame \<open>state components an operation leaves alone\<close>

type_synonym bytes = "char list"
type_synonym ('e, 'a) result = "'e + 'a"

abbreviation LF :: char where "LF \<equiv> CHR 0x0A"
abbreviation CR :: char where "CR \<equiv> CHR 0x0D"
abbreviation NUL :: char where "NUL \<equiv> CHR 0x00"
abbreviation DQ :: char where "DQ \<equiv> CHR 0x22"
abbreviation BSL :: char where "BSL \<equiv> CHR 0x5C"

abbreviation byte :: "char \<Rightarrow> nat" where "byte c \<equiv> of_char c"

section \<open>Prefixes, suffixes, cuts\<close>

text \<open>\<open>strings.HasPrefix\<close>, \<open>HasSuffix\<close> and \<open>Contains\<close> are \<open>prefix\<close>, \<open>suffix\<close>
  and \<open>sublist\<close> of the library (with the pattern first).\<close>

definition trim_suffix :: "'a list \<Rightarrow> 'a list \<Rightarrow> 'a list" where
  "trim_suffix s p = (if suffix p s then take (length s - length p) s else s)"

definition trim_prefix :: "'a list \<Rightarrow> 'a list \<Rightarrow> 'a list" where
  "trim_prefix s p = (if prefix p s then drop (length p) s else s)"

text \<open>\<open>strings.Cut\<close> (and \<open>IndexByte\<close> followed by slicing) at the first occurrence of a
  one-byte separator; \<open>None\<close> when the separator does not occur.\<close>

definition cut_at :: "'a \<Rightarrow> 'a list \<Rightarrow> ('a list \<times> 'a list) option" where
  "cut_at c s = (if c \<in> set s
     then Some (takeWhile (\<lambda>x. x \<noteq> c) s, drop 1 (dropWhile (\<lambda>x. x \<noteq> c) s)) else None)"

lemma trim_suffix_append [gostr, simp]: "trim_suffix (s @ p) p = s"
  by (simp add: trim_suffix_def suffix_def)

lemma trim_suffix_id [gostr]: "\<not> suffix p s \<Longrightarrow> trim_suffix s p = s"
  by (simp add: trim_suffix_def)

lemma trim_suffix_prefix: "prefix (trim_suffix s p) s"
  by (simp add: trim_suffix_def take_is_prefix)

lemma length_trim_suffix: "length (trim_suffix s p) \<le> length s"
  by (simp add: trim_suffix_def)

lemma set_trim_suffix: "set (trim_suffix s p) \<subseteq> set s"
  by (auto simp: trim_suffix_def dest: in_set_takeD)

lemma suffix_singleton_iff: "suffix [c] s \<longleftrightarrow> s \<noteq> [] \<and> last s = c"
  by (cases s rule: rev_cases) (auto simp: suffix_def)

lemma trim_suffix_one:
  "trim_suffix s [c] = (if s \<noteq> [] \<and> last s = c then butlast s else s)"
  by (cases s rule: rev_cases) (auto simp: trim_suffix_def)

lemma trim_prefix_append [gostr, simp]: "trim_prefix (p @ s) p = s"
  by (simp add: trim_prefix_def)

lemma trim_prefix_id [gostr]: "\<not> prefix p s \<Longrightarrow> trim_prefix s p = s"
  by (simp add: trim_prefix_def)

lemma cut_at_None [gostr]: "cut_at c s = None \<longleftrightarrow> c \<notin> set s"
  by (simp add: cut_at_def)

lemma cut_at_append [gostr]: "c \<notin> set a \<Longrightarrow> cut_at c (a @ c # b) = Some (a, b)"
  by (induction a) (auto simp: cut_at_def)

lemma cut_at_Some:
  assumes "cut_at c s = Some (a, b)"
  shows "s = a @ c # b \<and> c \<notin> set a"
proof -
  have "c \<in> set s" using assms by (auto simp: cut_at_def split: if_splits)
  then obtain a' b' where s: "s = a' @ c # b'" and "c \<notin> set a'"
    by (meson split_list_first)
  then show ?thesis using assms by (simp add: cut_at_append)
qed

lemma takeWhile_stop [gostr]: "\<not> P c \<Longrightarrow> takeWhile P (a @ c # b) = takeWhile P a"
  by (induction a) auto

lemma dropWhile_stop [gostr]: "\<not> P c \<Longrightarrow> dropWhile P (a @ c # b) = dropWhile P a @ c # b"
  by (induction a) auto

section \<open>Splitting and joining\<close>

text \<open>\<open>strings.SplitAfter\<close> with a one-byte separator: every piece keeps its separator,
  the last piece has none (and is empty when the input ends in one).\<close>

fun split_after :: "'a \<Rightarrow> 'a list \<Rightarrow> 'a list list" where
  "split_after c [] = [[]]"
| "split_after c (x # xs) =
     (if x = c then [x] # split_after c xs
      else case split_after c xs of [] \<Rightarrow> [[x]] | p # ps \<Rightarrow> (x # p) # ps)"

text \<open>\<open>strings.Split\<close> with a one-byte separator.\<close>

fun split_on :: "'a \<Rightarrow> 'a list \<Rightarrow> 'a list list" where
  "split_on c [] = [[]]"
| "split_on c (x # xs) =
     (if x = c then [] # split_on c xs
      else case split_on c xs of [] \<Rightarrow> [[x]] | p # ps \<Rightarrow> (x # p) # ps)"

fun join :: "'a list \<Rightarrow> 'a list list \<Rightarrow> 'a list" where
  "join sep [] = []"
| "join sep [x] = x"
| "join sep (x # y # ys) = x @ sep @ join sep (y # ys)"

lemma split_after_nonempty [simp]: "split_after c s \<noteq> []"
  by (cases s) (auto split: list.splits)

lemma split_on_nonempty [simp]: "split_on c s \<noteq> []"
  by (cases s) (auto split: list.splits)

lemma concat_split_after [gostr, simp]: "concat (split_after c s) = s"
  by (induction s) (auto split: list.splits)

lemma split_after_line [gostr]:
  "c \<notin> set l \<Longrightarrow> split_after c (l @ c # s) = (l @ [c]) # split_after c s"
  by (induction l) auto

lemma split_after_rest [gostr]: "c \<notin> set l \<Longrightarrow> split_after c l = [l]"
  by (induction l) auto

lemma join_split_on [gostr]: "join [c] (split_on c s) = s"
proof (induction s)
  case (Cons x xs)
  obtain p ps where "split_on c xs = p # ps"
    by (metis split_on_nonempty list.exhaust)
  with Cons show ?case by (cases ps) auto
qed simp

text \<open>The pieces: every one but the last ends in its separator.\<close>

lemma split_after_lines:
  "\<exists>body l. split_after c s = map (\<lambda>x. x @ [c]) body @ [l] \<and> c \<notin> set l \<and> (\<forall>x \<in> set body. c \<notin> set x)"
proof (induction s)
  case Nil
  show ?case by (intro exI [of _ "[]"] exI [of _ "[]"]) simp
next
  case (Cons x s)
  then obtain body l where IH: "split_after c s = map (\<lambda>x. x @ [c]) body @ [l]" "c \<notin> set l"
      "\<forall>x \<in> set body. c \<notin> set x" by blast
  show ?case
  proof (cases "x = c")
    case True
    with IH show ?thesis by (intro exI [of _ "[] # body"] exI [of _ l]) simp
  next
    case False
    show ?thesis
    proof (cases body)
      case Nil
      with IH False show ?thesis by (intro exI [of _ "[]"] exI [of _ "x # l"]) simp
    next
      case (Cons y ys)
      with IH False show ?thesis by (intro exI [of _ "(x # y) # ys"] exI [of _ l]) simp
    qed
  qed
qed

section \<open>White space\<close>

text \<open>The white space of \<open>unicode.IsSpace\<close>, each code point by its UTF-8 bytes.  No
  sequence starts with a byte that can occur inside another rune, so matching byte
  sequences from either end is what Go's rune-wise trimming does, on invalid UTF-8 too.\<close>

definition space_seqs :: "bytes list" where
  "space_seqs = [[CHR 0x20], [CHR 0x0A], [CHR 0x0D], [CHR 0x09], [CHR 0x0B], [CHR 0x0C],
     [CHR 0xC2, CHR 0x85], [CHR 0xC2, CHR 0xA0], [CHR 0xE1, CHR 0x9A, CHR 0x80],
     [CHR 0xE2, CHR 0x80, CHR 0x80], [CHR 0xE2, CHR 0x80, CHR 0x81],
     [CHR 0xE2, CHR 0x80, CHR 0x82], [CHR 0xE2, CHR 0x80, CHR 0x83],
     [CHR 0xE2, CHR 0x80, CHR 0x84], [CHR 0xE2, CHR 0x80, CHR 0x85],
     [CHR 0xE2, CHR 0x80, CHR 0x86], [CHR 0xE2, CHR 0x80, CHR 0x87],
     [CHR 0xE2, CHR 0x80, CHR 0x88], [CHR 0xE2, CHR 0x80, CHR 0x89],
     [CHR 0xE2, CHR 0x80, CHR 0x8A], [CHR 0xE2, CHR 0x80, CHR 0xA8],
     [CHR 0xE2, CHR 0x80, CHR 0xA9], [CHR 0xE2, CHR 0x80, CHR 0xAF],
     [CHR 0xE2, CHR 0x81, CHR 0x9F], [CHR 0xE3, CHR 0x80, CHR 0x80]]"

text \<open>The number of bytes of the white-space rune at the front; 0 when there is none.\<close>

definition space_len :: "bytes list \<Rightarrow> bytes \<Rightarrow> nat" where
  "space_len seqs s = (case List.find (\<lambda>p. prefix p s) seqs of None \<Rightarrow> 0 | Some p \<Rightarrow> length p)"

lemma find_prefix_le:
  "List.find (\<lambda>p. prefix p s) seqs = Some p \<Longrightarrow> prefix p s \<and> p \<in> set seqs"
  by (auto simp: find_Some_iff)

lemma space_len_le: "space_len seqs s \<le> length s"
  by (auto simp: space_len_def split: option.splits dest!: find_prefix_le prefix_length_le)

function trim_left :: "bytes list \<Rightarrow> bytes \<Rightarrow> bytes" where
  "trim_left seqs s = (if space_len seqs s = 0 then s
     else trim_left seqs (drop (space_len seqs s) s))"
  by pat_completeness auto
termination
proof (relation "measure (\<lambda>(_, s). length s)", goal_cases)
  case (2 seqs s)
  then show ?case using space_len_le [of seqs s] by auto
qed simp

declare trim_left.simps [simp del]

text \<open>\<open>strings.TrimSpace\<close> and \<open>bytes.TrimSpace\<close>: from the right by matching the
  reversed sequences on the reversed string.\<close>

definition trim_space :: "bytes \<Rightarrow> bytes" where
  "trim_space s = rev (trim_left (map rev space_seqs) (rev (trim_left space_seqs s)))"

lemma trim_left_suffix: "suffix (trim_left seqs s) s"
proof (induction seqs s rule: trim_left.induct)
  case (1 seqs s)
  show ?case
  proof (cases "space_len seqs s = 0")
    case True
    then show ?thesis by (subst trim_left.simps) simp
  next
    case False
    with 1 have "suffix (trim_left seqs (drop (space_len seqs s) s)) (drop (space_len seqs s) s)"
      by blast
    then have "suffix (trim_left seqs (drop (space_len seqs s) s)) s"
      using suffix_drop suffix_order.trans by blast
    with False show ?thesis by (subst trim_left.simps) simp
  qed
qed

lemma space_len_trim_left: "space_len seqs (trim_left seqs s) = 0"
proof (induction seqs s rule: trim_left.induct)
  case (1 seqs s)
  then show ?case by (cases "space_len seqs s = 0") (simp_all add: trim_left.simps [of seqs s])
qed

lemma trim_left_id: "space_len seqs s = 0 \<Longrightarrow> trim_left seqs s = s"
  by (simp add: trim_left.simps)

lemma trim_left_Nil [gostr, simp]: "trim_left space_seqs [] = []"
  by (subst trim_left.simps) (simp add: space_len_def space_seqs_def)

lemma trim_space_sublist: "sublist (trim_space s) s"
proof -
  let ?t = "trim_left space_seqs s"
  have "suffix (trim_left (map rev space_seqs) (rev ?t)) (rev ?t)" by (rule trim_left_suffix)
  then have "prefix (trim_space s) ?t"
    by (metis rev_rev_ident suffix_to_prefix trim_space_def)
  moreover have "suffix ?t s" by (rule trim_left_suffix)
  ultimately show ?thesis
    using prefix_imp_sublist suffix_imp_sublist sublist_order.order_trans by blast
qed

lemma set_trim_space: "set (trim_space s) \<subseteq> set s"
  using trim_space_sublist set_mono_sublist by blast

text \<open>\<open>strings.Fields\<close>: the maximal runs without white space.\<close>

function fields_from :: "bytes \<Rightarrow> bytes \<Rightarrow> bytes list" where
  "fields_from acc s =
     (if s = [] then (if acc = [] then [] else [rev acc])
      else if space_len space_seqs s > 0
        then (if acc = [] then [] else [rev acc])
             @ fields_from [] (drop (space_len space_seqs s) s)
      else fields_from (hd s # acc) (tl s))"
  by pat_completeness auto
termination by (relation "measure (\<lambda>(_, s). length s)") auto

declare fields_from.simps [simp del]

lemma fields_from_Nil [simp]: "fields_from acc [] = (if acc = [] then [] else [rev acc])"
  by (simp add: fields_from.simps)

definition string_fields :: "bytes \<Rightarrow> bytes list" where
  "string_fields s = fields_from [] s"

section \<open>Bytes, runes, case\<close>

text \<open>\<open>utf8.DecodeRune\<close>: the width of the well-formed rune at the front, 0 when the front
  byte starts none (Go's \<open>RuneError\<close> of width 1).\<close>

definition cont_byte :: "char \<Rightarrow> bool" where
  "cont_byte c \<longleftrightarrow> 0x80 \<le> byte c \<and> byte c \<le> (0xBF :: nat)"

fun second_ok :: "nat \<Rightarrow> nat \<Rightarrow> bool" where
  "second_ok b0 b1 =
     (if b0 = 0xE0 then 0xA0 \<le> b1 \<and> b1 \<le> 0xBF
      else if b0 = 0xED then 0x80 \<le> b1 \<and> b1 \<le> 0x9F
      else if b0 = 0xF0 then 0x90 \<le> b1 \<and> b1 \<le> 0xBF
      else if b0 = 0xF4 then 0x80 \<le> b1 \<and> b1 \<le> 0x8F
      else 0x80 \<le> b1 \<and> b1 \<le> 0xBF)"

fun rune_width :: "bytes \<Rightarrow> nat" where
  "rune_width [] = 0"
| "rune_width (c # cs) = (let b = byte c in
     if b < 0x80 then 1
     else if 0xC2 \<le> b \<and> b \<le> 0xDF then
       (case cs of c1 # _ \<Rightarrow> if second_ok b (byte c1) then 2 else 0 | _ \<Rightarrow> 0)
     else if 0xE0 \<le> b \<and> b \<le> 0xEF then
       (case cs of c1 # c2 # _ \<Rightarrow> if second_ok b (byte c1) \<and> cont_byte c2 then 3 else 0 | _ \<Rightarrow> 0)
     else if 0xF0 \<le> b \<and> b \<le> 0xF4 then
       (case cs of c1 # c2 # c3 # _ \<Rightarrow>
          if second_ok b (byte c1) \<and> cont_byte c2 \<and> cont_byte c3 then 4 else 0 | _ \<Rightarrow> 0)
     else 0)"

lemma rune_width_le: "rune_width s \<le> length s"
  by (cases s) (auto simp: Let_def split: list.splits)

text \<open>Replace every byte that starts no rune: by \<open>repl\<close> each
  (\<open>range\<close> over a string writes U+FFFD for each; \<open>strings.ToValidUTF8(s, "")\<close> drops them).\<close>

function subst_invalid :: "bytes \<Rightarrow> bytes \<Rightarrow> bytes" where
  "subst_invalid repl s =
     (if s = [] then []
      else if rune_width s = 0 then repl @ subst_invalid repl (tl s)
      else take (rune_width s) s @ subst_invalid repl (drop (rune_width s) s))"
  by pat_completeness auto
termination by (relation "measure (\<lambda>(_, s). length s)") auto

declare subst_invalid.simps [simp del]

lemma subst_invalid_Nil [simp]: "subst_invalid repl [] = []"
  by (simp add: subst_invalid.simps)

lemma subst_invalid_junk: "rune_width (c # s) = 0 \<Longrightarrow> subst_invalid repl (c # s) = repl @ subst_invalid repl s"
  by (subst subst_invalid.simps) simp

lemma subst_invalid_rune:
  "rune_width s \<noteq> 0 \<Longrightarrow> subst_invalid repl s = take (rune_width s) s @ subst_invalid repl (drop (rune_width s) s)"
  by (cases s) (subst subst_invalid.simps, simp del: rune_width.simps)+

definition rune_error :: bytes where
  "rune_error = [CHR 0xEF, CHR 0xBF, CHR 0xBD]"

definition to_valid_utf8 :: "bytes \<Rightarrow> bytes" where
  "to_valid_utf8 s = subst_invalid [] s"

definition is_ascii :: "bytes \<Rightarrow> bool" where
  "is_ascii s \<longleftrightarrow> (\<forall>c \<in> set s. byte c < (0x80 :: nat))"

lemma subst_invalid_ascii: "is_ascii s \<Longrightarrow> subst_invalid repl s = s"
proof (induction s)
  case Nil
  then show ?case by (simp add: subst_invalid.simps)
next
  case (Cons c s)
  then have "rune_width (c # s) = 1" by (simp add: is_ascii_def Let_def)
  with Cons show ?case
    by (subst subst_invalid.simps) (simp add: is_ascii_def)
qed

text \<open>\<open>strings.ToLower\<close>: ASCII letters, and the two non-ASCII letters whose lower case is
  ASCII (U+0130 to \<open>i\<close>, U+212A to \<open>k\<close>).  Other non-ASCII letters are left alone: their
  lower case is non-ASCII too, so every comparison with ASCII text, which is all the
  program makes of a lowered string, comes out as in Go.\<close>

definition lower_char :: "char \<Rightarrow> char" where
  "lower_char c = (if 0x41 \<le> byte c \<and> byte c \<le> (0x5A :: nat) then char_of (byte c + 32 :: nat) else c)"

fun to_lower :: "bytes \<Rightarrow> bytes" where
  "to_lower [] = []"
| "to_lower (c # cs) =
     (if prefix [CHR 0xC4, CHR 0xB0] (c # cs) then CHR ''i'' # to_lower (drop 1 cs)
      else if prefix [CHR 0xE2, CHR 0x84, CHR 0xAA] (c # cs) then CHR ''k'' # to_lower (drop 2 cs)
      else lower_char c # to_lower cs)"

section \<open>Decimal rendering\<close>

text \<open>The \<open>%d\<close> verb.\<close>

fun dec_nat :: "nat \<Rightarrow> string" where
  "dec_nat n = (if n < 10 then [char_of (48 + n)] else dec_nat (n div 10) @ [char_of (48 + n mod 10)])"

declare dec_nat.simps [simp del]

definition dec_int :: "int \<Rightarrow> string" where
  "dec_int i = (if i < 0 then CHR ''-'' # dec_nat (nat (- i)) else dec_nat (nat i))"

definition is_digit :: "char \<Rightarrow> bool" where
  "is_digit c \<longleftrightarrow> 48 \<le> byte c \<and> byte c \<le> (57 :: nat)"

lemma dec_nat_digits: "\<forall>c \<in> set (dec_nat n). is_digit c"
proof (induction n rule: dec_nat.induct)
  case (1 n)
  show ?case
  proof (cases "n < 10")
    case True
    then show ?thesis by (subst dec_nat.simps) (simp add: is_digit_def)
  next
    case False
    have "is_digit (char_of (48 + n mod 10))"
      by (simp add: is_digit_def)
    with False 1 show ?thesis by (subst dec_nat.simps) auto
  qed
qed

end
