(* ===== verification/Errors.thy ===== *)
theory Errors
  imports Prelude
begin

text \<open>
  Go error values: sentinels (package variables compared by identity, written with their
  text), plain messages, \<open>fmt.Errorf\<close> wrappers with the text around \<open>%w\<close>, the two error
  structs of \<open>pkg/mcp\<close>, and \<open>errors.Is\<close> / \<open>errors.As\<close> over the wrapping tree.
\<close>

datatype gerr =
    Sentinel string                      \<comment> \<open>a package-level \<open>errors.New\<close> variable\<close>
  | Message string                       \<comment> \<open>\<open>errors.New\<close> or \<open>Errorf\<close> without \<open>%w\<close>\<close>
  | Wrap string gerr string              \<comment> \<open>\<open>Errorf("pre%wpost")\<close>\<close>
  | Wrap2 gerr gerr                      \<comment> \<open>\<open>Errorf("%w (%w)")\<close>\<close>
  | Joined gerr gerr                     \<comment> \<open>\<open>errors.Join\<close> of two errors\<close>
  | HTTPError nat bytes bytes            \<comment> \<open>status, content type, captured body\<close>
  | AuthError gerr

abbreviation io_EOF :: gerr where "io_EOF \<equiv> Sentinel ''EOF''"
abbreviation ctx_canceled :: gerr where "ctx_canceled \<equiv> Sentinel ''context canceled''"

definition ErrNoStream :: gerr where
  "ErrNoStream = Sentinel ''server does not offer a listening stream''"

definition ErrSessionExpired :: gerr where
  "ErrSessionExpired = Sentinel ''session expired (HTTP 404)''"

text \<open>\<open>errors.Is\<close> with a sentinel target.\<close>

fun err_is :: "gerr \<Rightarrow> gerr \<Rightarrow> bool" where
  "err_is (Sentinel s) t \<longleftrightarrow> Sentinel s = t"
| "err_is (Message s) t \<longleftrightarrow> False"
| "err_is (Wrap p e q) t \<longleftrightarrow> err_is e t"
| "err_is (Wrap2 a b) t \<longleftrightarrow> err_is a t \<or> err_is b t"
| "err_is (Joined a b) t \<longleftrightarrow> err_is a t \<or> err_is b t"
| "err_is (HTTPError st ct b) t \<longleftrightarrow> False"
| "err_is (AuthError e) t \<longleftrightarrow> err_is e t"

text \<open>\<open>errors.As\<close> for \<open>*HTTPError\<close> and \<open>*AuthError\<close>: the first match in pre-order.\<close>

fun as_http :: "gerr \<Rightarrow> (nat \<times> bytes \<times> bytes) option" where
  "as_http (Sentinel s) = None"
| "as_http (Message s) = None"
| "as_http (Wrap p e q) = as_http e"
| "as_http (Wrap2 a b) = (case as_http a of Some h \<Rightarrow> Some h | None \<Rightarrow> as_http b)"
| "as_http (Joined a b) = (case as_http a of Some h \<Rightarrow> Some h | None \<Rightarrow> as_http b)"
| "as_http (HTTPError st ct b) = Some (st, ct, b)"
| "as_http (AuthError e) = as_http e"

fun as_auth :: "gerr \<Rightarrow> bool" where
  "as_auth (Sentinel s) = False"
| "as_auth (Message s) = False"
| "as_auth (Wrap p e q) = as_auth e"
| "as_auth (Wrap2 a b) = (as_auth a \<or> as_auth b)"
| "as_auth (Joined a b) = (as_auth a \<or> as_auth b)"
| "as_auth (HTTPError st ct b) = False"
| "as_auth (AuthError e) = True"

text \<open>\<open>errors.Join\<close> of two results: nothing when both are nil.\<close>

fun join_errors :: "gerr option \<Rightarrow> gerr option \<Rightarrow> gerr option" where
  "join_errors (Some a) (Some b) = Some (Joined a b)"
| "join_errors (Some a) None = Some a"
| "join_errors None b = b"

end
