(* ===== verification/Json.thy ===== *)
theory Json
  imports Prelude
begin

text \<open>
  The scanner of Go's \<open>encoding/json\<close> and the two operations the transport uses on raw
  payloads, \<open>Valid\<close> and \<open>Compact\<close>: the byte-driven state machine with its stack of
  open composites and its nesting limit, one constructor per state function.  The lemmas
  show what the stdio channel needs: a compacted payload has no line feed, is valid again
  and is compact already.
\<close>

section \<open>The scanner\<close>

datatype scan_code =
    ScanContinue | ScanBeginLiteral | ScanBeginObject | ScanObjectKey | ScanObjectValue
  | ScanEndObject | ScanBeginArray | ScanArrayValue | ScanEndArray | ScanSkipSpace
  | ScanEnd | ScanError

datatype parse_state = ParseObjectKey | ParseObjectValue | ParseArrayValue

datatype scan_step =
    BeginValue | BeginValueOrEmpty | BeginString | BeginStringOrEmpty | EndValue | EndTop
  | InString | InStringEsc | InStringEscU | InStringEscU1 | InStringEscU12 | InStringEscU123
  | Neg | Num0 | Num1 | Dot | Dot0 | Exp | ExpSign | Exp0
  | LitT | LitTr | LitTru | LitF | LitFa | LitFal | LitFals | LitN | LitNu | LitNul
  | StepError

record scanner =
  sc_step :: scan_step
  parseState :: "parse_state list"    \<comment> \<open>innermost first\<close>
  endTop :: bool
  sc_err :: bool

definition max_nesting_depth :: nat where "max_nesting_depth = 10000"

definition scan_reset :: scanner where
  "scan_reset = \<lparr>sc_step = BeginValue, parseState = [], endTop = False, sc_err = False\<rparr>"

definition scan_error :: "scanner \<Rightarrow> scan_code \<times> scanner" where
  "scan_error s = (ScanError, s\<lparr>sc_step := StepError, sc_err := True\<rparr>)"

definition push_state :: "parse_state \<Rightarrow> scan_code \<Rightarrow> scanner \<Rightarrow> scan_code \<times> scanner" where
  "push_state p ok s =
     (let s' = s\<lparr>parseState := p # parseState s\<rparr>
      in if length (parseState s') \<le> max_nesting_depth then (ok, s') else scan_error s')"

definition pop_state :: "scanner \<Rightarrow> scanner" where
  "pop_state s =
     (let ps = tl (parseState s)
      in if ps = [] then s\<lparr>parseState := ps, sc_step := EndTop, endTop := True\<rparr>
         else s\<lparr>parseState := ps, sc_step := EndValue\<rparr>)"

definition json_space :: "char \<Rightarrow> bool" where
  "json_space c \<longleftrightarrow> c = CHR '' '' \<or> c = CHR 0x09 \<or> c = CR \<or> c = LF"

definition hex_digit :: "char \<Rightarrow> bool" where
  "hex_digit c \<longleftrightarrow> is_digit c \<or> (0x41 \<le> byte c \<and> byte c \<le> (0x46 :: nat)) \<or>
     (0x61 \<le> byte c \<and> byte c \<le> (0x66 :: nat))"

text \<open>\<open>stateEndTop\<close> reports trailing junk only through the error flag: its own code is
  \<open>scanEnd\<close> either way.\<close>

definition end_top :: "scanner \<Rightarrow> char \<Rightarrow> scan_code \<times> scanner" where
  "end_top s c = (ScanEnd, if json_space c then s else snd (scan_error s))"

definition end_value :: "scanner \<Rightarrow> char \<Rightarrow> scan_code \<times> scanner" where
  "end_value s c =
     (case parseState s of
        [] \<Rightarrow> end_top (s\<lparr>sc_step := EndTop, endTop := True\<rparr>) c
      | p # ps \<Rightarrow>
          if json_space c then (ScanSkipSpace, s\<lparr>sc_step := EndValue\<rparr>)
          else case p of
            ParseObjectKey \<Rightarrow>
              if c = CHR '':'' then
                (ScanObjectKey, s\<lparr>parseState := ParseObjectValue # ps, sc_step := BeginValue\<rparr>)
              else scan_error s
          | ParseObjectValue \<Rightarrow>
              if c = CHR '','' then
                (ScanObjectValue, s\<lparr>parseState := ParseObjectKey # ps, sc_step := BeginString\<rparr>)
              else if c = CHR ''}'' then (ScanEndObject, pop_state s)
              else scan_error s
          | ParseArrayValue \<Rightarrow>
              if c = CHR '','' then (ScanArrayValue, s\<lparr>sc_step := BeginValue\<rparr>)
              else if c = CHR '']'' then (ScanEndArray, pop_state s)
              else scan_error s)"

definition begin_value :: "scanner \<Rightarrow> char \<Rightarrow> scan_code \<times> scanner" where
  "begin_value s c =
     (if json_space c then (ScanSkipSpace, s)
      else if c = CHR ''{'' then
        push_state ParseObjectKey ScanBeginObject (s\<lparr>sc_step := BeginStringOrEmpty\<rparr>)
      else if c = CHR ''['' then
        push_state ParseArrayValue ScanBeginArray (s\<lparr>sc_step := BeginValueOrEmpty\<rparr>)
      else if c = DQ then (ScanBeginLiteral, s\<lparr>sc_step := InString\<rparr>)
      else if c = CHR ''-'' then (ScanBeginLiteral, s\<lparr>sc_step := Neg\<rparr>)
      else if c = CHR ''0'' then (ScanBeginLiteral, s\<lparr>sc_step := Num0\<rparr>)
      else if c = CHR ''t'' then (ScanBeginLiteral, s\<lparr>sc_step := LitT\<rparr>)
      else if c = CHR ''f'' then (ScanBeginLiteral, s\<lparr>sc_step := LitF\<rparr>)
      else if c = CHR ''n'' then (ScanBeginLiteral, s\<lparr>sc_step := LitN\<rparr>)
      else if is_digit c then (ScanBeginLiteral, s\<lparr>sc_step := Num1\<rparr>)
      else scan_error s)"

definition begin_string :: "scanner \<Rightarrow> char \<Rightarrow> scan_code \<times> scanner" where
  "begin_string s c =
     (if json_space c then (ScanSkipSpace, s)
      else if c = DQ then (ScanBeginLiteral, s\<lparr>sc_step := InString\<rparr>)
      else scan_error s)"

definition num0 :: "scanner \<Rightarrow> char \<Rightarrow> scan_code \<times> scanner" where
  "num0 s c =
     (if c = CHR ''.'' then (ScanContinue, s\<lparr>sc_step := Dot\<rparr>)
      else if c = CHR ''e'' \<or> c = CHR ''E'' then (ScanContinue, s\<lparr>sc_step := Exp\<rparr>)
      else end_value s c)"

definition expect :: "bool \<Rightarrow> scan_step \<Rightarrow> scanner \<Rightarrow> scan_code \<times> scanner" where
  "expect ok next s = (if ok then (ScanContinue, s\<lparr>sc_step := next\<rparr>) else scan_error s)"

definition exp_sign :: "scanner \<Rightarrow> char \<Rightarrow> scan_code \<times> scanner" where
  "exp_sign s c = (if is_digit c then (ScanContinue, s\<lparr>sc_step := Exp0\<rparr>) else scan_error s)"

definition scan :: "scanner \<Rightarrow> char \<Rightarrow> scan_code \<times> scanner" where
  "scan s c =
     (case sc_step s of
        BeginValue \<Rightarrow> begin_value s c
      | BeginValueOrEmpty \<Rightarrow>
          if json_space c then (ScanSkipSpace, s)
          else if c = CHR '']'' then end_value s c else begin_value s c
      | BeginString \<Rightarrow> begin_string s c
      | BeginStringOrEmpty \<Rightarrow>
          if json_space c then (ScanSkipSpace, s)
          else if c = CHR ''}'' then
            end_value (s\<lparr>parseState := ParseObjectValue # tl (parseState s)\<rparr>) c
          else begin_string s c
      | EndValue \<Rightarrow> end_value s c
      | EndTop \<Rightarrow> end_top s c
      | InString \<Rightarrow>
          if c = DQ then (ScanContinue, s\<lparr>sc_step := EndValue\<rparr>)
          else if c = BSL then (ScanContinue, s\<lparr>sc_step := InStringEsc\<rparr>)
          else if byte c < (0x20 :: nat) then scan_error s
          else (ScanContinue, s)
      | InStringEsc \<Rightarrow>
          if c \<in> set [CHR ''b'', CHR ''f'', CHR ''n'', CHR ''r'', CHR ''t'', BSL, CHR ''/'', DQ]
          then (ScanContinue, s\<lparr>sc_step := InString\<rparr>)
          else if c = CHR ''u'' then (ScanContinue, s\<lparr>sc_step := InStringEscU\<rparr>)
          else scan_error s
      | InStringEscU \<Rightarrow> expect (hex_digit c) InStringEscU1 s
      | InStringEscU1 \<Rightarrow> expect (hex_digit c) InStringEscU12 s
      | InStringEscU12 \<Rightarrow> expect (hex_digit c) InStringEscU123 s
      | InStringEscU123 \<Rightarrow> expect (hex_digit c) InString s
      | Neg \<Rightarrow>
          if c = CHR ''0'' then (ScanContinue, s\<lparr>sc_step := Num0\<rparr>)
          else if is_digit c then (ScanContinue, s\<lparr>sc_step := Num1\<rparr>)
          else scan_error s
      | Num1 \<Rightarrow> if is_digit c then (ScanContinue, s) else num0 s c
      | Num0 \<Rightarrow> num0 s c
      | Dot \<Rightarrow> if is_digit c then (ScanContinue, s\<lparr>sc_step := Dot0\<rparr>) else scan_error s
      | Dot0 \<Rightarrow>
          if is_digit c then (ScanContinue, s)
          else if c = CHR ''e'' \<or> c = CHR ''E'' then (ScanContinue, s\<lparr>sc_step := Exp\<rparr>)
          else end_value s c
      | Exp \<Rightarrow>
          if c = CHR ''+'' \<or> c = CHR ''-'' then (ScanContinue, s\<lparr>sc_step := ExpSign\<rparr>)
          else exp_sign s c
      | ExpSign \<Rightarrow> exp_sign s c
      | Exp0 \<Rightarrow> if is_digit c then (ScanContinue, s) else end_value s c
      | LitT \<Rightarrow> expect (c = CHR ''r'') LitTr s
      | LitTr \<Rightarrow> expect (c = CHR ''u'') LitTru s
      | LitTru \<Rightarrow> expect (c = CHR ''e'') EndValue s
      | LitF \<Rightarrow> expect (c = CHR ''a'') LitFa s
      | LitFa \<Rightarrow> expect (c = CHR ''l'') LitFal s
      | LitFal \<Rightarrow> expect (c = CHR ''s'') LitFals s
      | LitFals \<Rightarrow> expect (c = CHR ''e'') EndValue s
      | LitN \<Rightarrow> expect (c = CHR ''u'') LitNu s
      | LitNu \<Rightarrow> expect (c = CHR ''l'') LitNul s
      | LitNul \<Rightarrow> expect (c = CHR ''l'') EndValue s
      | StepError \<Rightarrow> (ScanError, s))"

text \<open>\<open>eof\<close>: \<open>True\<close> when the input may end here.\<close>

definition scan_eof :: "scanner \<Rightarrow> bool" where
  "scan_eof s \<longleftrightarrow> \<not> sc_err s \<and> (endTop s \<or> endTop (snd (scan s (CHR '' ''))))"

fun check_valid :: "scanner \<Rightarrow> bytes \<Rightarrow> bool" where
  "check_valid s [] = scan_eof s"
| "check_valid s (c # cs) =
     (case scan s c of (code, s') \<Rightarrow> code \<noteq> ScanError \<and> check_valid s' cs)"

definition json_valid :: "bytes \<Rightarrow> bool" where
  "json_valid data = check_valid scan_reset data"

text \<open>\<open>Compact\<close>: every byte whose code is below \<open>scanSkipSpace\<close> is copied.\<close>

fun compact_loop :: "scanner \<Rightarrow> bytes \<Rightarrow> bytes option" where
  "compact_loop s [] = (if scan_eof s then Some [] else None)"
| "compact_loop s (c # cs) =
     (case scan s c of (code, s') \<Rightarrow>
        if code = ScanError then None
        else if code = ScanSkipSpace \<or> code = ScanEnd then compact_loop s' cs
        else map_option (\<lambda>out. c # out) (compact_loop s' cs))"

definition json_compact :: "bytes \<Rightarrow> bytes option" where
  "json_compact data = compact_loop scan_reset data"

section \<open>Compaction removes line feeds\<close>

lemmas scan_defs = scan_def begin_value_def begin_string_def end_value_def end_top_def
  num0_def exp_sign_def expect_def push_state_def scan_error_def

text \<open>White space never has a copied code: outside strings it is skipped, inside strings a
  control character is an error.\<close>

lemma scan_LF: "fst (scan s LF) \<in> {ScanSkipSpace, ScanEnd, ScanError}"
  by (cases "sc_step s") (auto simp: scan_defs json_space_def is_digit_def hex_digit_def
      Let_def split: list.splits if_splits parse_state.splits)

lemma compact_loop_no_LF: "compact_loop s data = Some out \<Longrightarrow> LF \<notin> set out"
proof (induction data arbitrary: s out)
  case Nil
  then show ?case by (simp split: if_splits)
next
  case (Cons c cs)
  obtain code s' where sc: "scan s c = (code, s')" by fastforce
  show ?case
  proof (cases "code = ScanSkipSpace \<or> code = ScanEnd \<or> code = ScanError")
    case True
    with Cons sc show ?thesis by (auto split: if_splits)
  next
    case False
    then have "c \<noteq> LF" using scan_LF [of s] sc by auto
    with False Cons sc show ?thesis by auto
  qed
qed

lemma json_compact_no_LF: "json_compact data = Some out \<Longrightarrow> LF \<notin> set out"
  by (simp add: json_compact_def compact_loop_no_LF)

text \<open>\<open>Compact\<close> succeeds exactly on what \<open>Valid\<close> accepts.\<close>

lemma compact_loop_valid: "(\<exists>out. compact_loop s data = Some out) = check_valid s data"
  by (induction data arbitrary: s) (auto split: prod.splits)

lemma json_compact_valid: "json_compact data \<noteq> None \<longleftrightarrow> json_valid data"
  using compact_loop_valid [of scan_reset data] by (auto simp: json_compact_def json_valid_def)

section \<open>A compacted payload is valid and compact\<close>

text \<open>Dropping white space leaves the scanner of the compacted text behind in one respect only:
  after a number or a top-level literal it has not seen the space that ended the value.\<close>

definition number_step :: "scan_step \<Rightarrow> bool" where
  "number_step st \<longleftrightarrow> st \<in> {Num0, Num1, Dot0, Exp0, EndValue}"

definition scan_sim :: "scanner \<Rightarrow> scanner \<Rightarrow> bool" where
  "scan_sim s t \<longleftrightarrow> s = t \<or>
     number_step (sc_step t) \<and> sc_err s = sc_err t \<and> parseState s = parseState t \<and>
     (if parseState t = [] then sc_step s = EndTop \<and> endTop s
      else sc_step s = EndValue \<and> endTop s = endTop t)"

definition clean_end :: "scanner \<Rightarrow> scan_code \<times> scanner \<Rightarrow> bool" where
  "clean_end s r \<longleftrightarrow>
     (fst r = ScanEnd \<longrightarrow> sc_err (snd r) \<longrightarrow> sc_err s \<or> sc_step (snd r) = StepError)"

lemma clean_end_parts:
  "code \<noteq> ScanEnd \<Longrightarrow> clean_end s (code, t)" "clean_end s (scan_error t)"
  "clean_end s (expect ok n t)" "clean_end s (exp_sign t c)" "clean_end s (begin_string t c)"
  "code \<noteq> ScanEnd \<Longrightarrow> clean_end s (push_state p code t)"
  "sc_err t = sc_err s \<Longrightarrow> clean_end s (end_top t c)"
  by (simp_all add: clean_end_def scan_error_def expect_def exp_sign_def begin_string_def
      push_state_def end_top_def Let_def)

lemma clean_end_begin_value: "clean_end s (begin_value t c)"
  by (simp add: begin_value_def clean_end_parts)

lemma clean_end_end_value: "sc_err t = sc_err s \<Longrightarrow> clean_end s (end_value t c)"
  by (simp add: end_value_def clean_end_parts split: list.split parse_state.split)

lemma clean_end_num0: "sc_err t = sc_err s \<Longrightarrow> clean_end s (num0 t c)"
  by (simp add: num0_def clean_end_parts clean_end_end_value)

lemma scan_end_err: "scan s c = (ScanEnd, s') \<Longrightarrow> sc_err s' \<Longrightarrow> sc_err s \<or> sc_step s' = StepError"
proof -
  have "clean_end s (scan s c)"
    by (cases "sc_step s") (simp_all add: scan_def clean_end_parts clean_end_begin_value
        clean_end_end_value clean_end_num0)
  then show "scan s c = (ScanEnd, s') \<Longrightarrow> sc_err s' \<Longrightarrow> ?thesis" by (simp add: clean_end_def)
qed

lemma scan_skip:
  assumes "scan s c = (ScanSkipSpace, s')"
  shows "s' = s \<or> number_step (sc_step s) \<and> parseState s \<noteq> [] \<and> s' = s\<lparr>sc_step := EndValue\<rparr>"
  using assms by (cases "sc_step s") (auto simp: scan_defs number_step_def Let_def
      split: list.splits if_splits parse_state.splits)

lemma scan_end:
  assumes "scan s c = (ScanEnd, s')" and "\<not> sc_err s'"
  shows "s' = s \<and> sc_step s = EndTop \<or>
    number_step (sc_step s) \<and> parseState s = [] \<and> s' = s\<lparr>sc_step := EndTop, endTop := True\<rparr>"
  using assms by (cases "sc_step s") (auto simp: scan_defs number_step_def Let_def json_space_def
      split: list.splits if_splits parse_state.splits)

lemma scan_sim_drop:
  assumes sim: "scan_sim s t" and sc: "scan s c = (code, s')" "code = ScanSkipSpace \<or> code = ScanEnd"
    and ok: "\<not> sc_err s'"
  shows "scan_sim s' t"
proof (cases "code = ScanSkipSpace")
  case True
  with sc scan_skip [of s c s'] sim show ?thesis by (auto simp: scan_sim_def)
next
  case False
  with sc have "scan s c = (ScanEnd, s')" by simp
  from scan_end [OF this ok] show ?thesis
  proof
    assume "s' = s \<and> sc_step s = EndTop"
    with sim show ?thesis by simp
  next
    assume e: "number_step (sc_step s) \<and> parseState s = [] \<and> s' = s\<lparr>sc_step := EndTop, endTop := True\<rparr>"
    then have "sc_step s \<noteq> EndTop" by (auto simp: number_step_def)
    with e sim show ?thesis by (auto simp: scan_sim_def split: if_splits)
  qed
qed

lemma end_value_step [simp]: "end_value (t\<lparr>sc_step := x\<rparr>) c = end_value t c"
  by (auto simp: end_value_def end_top_def pop_state_def scan_error_def Let_def
      split: list.splits parse_state.splits)

definition value_delim :: "char \<Rightarrow> bool" where
  "value_delim c \<longleftrightarrow> c = CHR '','' \<or> c = CHR '':'' \<or> c = CHR ''}'' \<or> c = CHR '']''"

lemma value_delim_num:
  "value_delim c \<Longrightarrow> \<not> is_digit c \<and> c \<noteq> CHR ''.'' \<and> c \<noteq> CHR ''e'' \<and> c \<noteq> CHR ''E''"
  unfolding value_delim_def by (elim disjE) (simp_all add: is_digit_def)

lemma end_value_other:
  "\<not> value_delim c \<Longrightarrow>
   fst (end_value s c) \<in> {ScanSkipSpace, ScanEnd, ScanError}"
  by (simp add: value_delim_def end_value_def end_top_def scan_error_def split: list.split parse_state.split)

lemma end_value_code:
  assumes "end_value s c = (code, s')" "code \<noteq> ScanSkipSpace" "code \<noteq> ScanEnd" "code \<noteq> ScanError"
  shows "value_delim c"
proof (rule ccontr)
  assume "\<not> value_delim c"
  from end_value_other [OF this, of s] assms show False by (simp only: fst_conv) blast
qed

lemma number_step_end:
  "number_step (sc_step t) \<Longrightarrow> value_delim c \<Longrightarrow> scan t c = end_value t c"
  by (drule value_delim_num, cases "sc_step t") (simp_all add: number_step_def scan_def num0_def)

lemma scan_sim_keep:
  assumes sim: "scan_sim s t" and sc: "scan s c = (code, s')"
    and code: "code \<noteq> ScanSkipSpace" "code \<noteq> ScanEnd" "code \<noteq> ScanError"
  shows "scan t c = (code, s')"
proof (cases "s = t")
  case False
  show ?thesis
  proof (cases "parseState t = []")
    case True
    with False sim have "sc_step s = EndTop" by (simp add: scan_sim_def)
    with sc code show ?thesis by (simp add: scan_def end_top_def)
  next
    case st: False
    with False sim have s: "sc_step s = EndValue" "s = t\<lparr>sc_step := EndValue\<rparr>"
        "number_step (sc_step t)" by (auto simp: scan_sim_def)
    from s(1) sc have ev: "end_value s c = (code, s')" by (simp add: scan_def)
    from number_step_end [OF s(3) end_value_code [OF ev code]] ev s(2) show ?thesis by simp
  qed
qed (use sc in simp)

lemma scan_sim_eof: "scan_sim s t \<Longrightarrow> scan_eof s \<Longrightarrow> scan_eof t"
  by (auto simp: scan_sim_def scan_eof_def scan_def number_step_def num0_def end_value_def end_top_def
      json_space_def is_digit_def split: if_splits list.splits)

lemma compact_loop_error: "sc_err s \<Longrightarrow> sc_step s = StepError \<Longrightarrow> compact_loop s data = None"
  by (cases data) (simp_all add: scan_eof_def scan_def)

lemma compact_loop_clean: "\<not> sc_err s \<Longrightarrow> scan s c = (code, s') \<Longrightarrow>
    compact_loop s' cs = Some out \<Longrightarrow> code = ScanSkipSpace \<or> code = ScanEnd \<Longrightarrow> \<not> sc_err s'"
  using scan_end_err [of s c s'] scan_skip [of s c s'] compact_loop_error [of s' cs] by auto

lemma scan_keep_clean: "\<not> sc_err s \<Longrightarrow> scan s c = (code, s') \<Longrightarrow> code \<noteq> ScanError \<Longrightarrow>
    code \<noteq> ScanEnd \<Longrightarrow> \<not> sc_err s'"
  by (cases "sc_step s") (auto simp: scan_defs pop_state_def Let_def
      split: list.splits if_splits parse_state.splits)

lemma compact_loop_idem:
  assumes "compact_loop s data = Some out" and "scan_sim s t" and "\<not> sc_err s"
  shows "compact_loop t out = Some out"
  using assms
proof (induction data arbitrary: s t out)
  case Nil
  then show ?case by (auto simp: scan_sim_eof split: if_splits)
next
  case (Cons c cs)
  obtain code s' where sc: "scan s c = (code, s')" by fastforce
  show ?case
  proof (cases "code = ScanSkipSpace \<or> code = ScanEnd")
    case True
    with Cons.prems(1) sc have out: "compact_loop s' cs = Some out" by auto
    have "\<not> sc_err s'" using compact_loop_clean [OF Cons.prems(3) sc out True] .
    with scan_sim_drop [OF Cons.prems(2) sc True] show ?thesis using Cons.IH [OF out] by blast
  next
    case False
    with Cons.prems(1) sc obtain out' where out: "out = c # out'" "compact_loop s' cs = Some out'"
      and ok: "code \<noteq> ScanError" by (auto split: if_splits)
    have "\<not> sc_err s'" using scan_keep_clean [OF Cons.prems(3) sc ok] False by simp
    moreover have "scan_sim s' s'" by (simp add: scan_sim_def)
    ultimately have "compact_loop s' out' = Some out'" using Cons.IH [OF out(2)] by blast
    with scan_sim_keep [OF Cons.prems(2) sc] False ok out show ?thesis by simp
  qed
qed

lemma json_compact_idem: "json_compact data = Some out \<Longrightarrow> json_compact out = Some out"
  unfolding json_compact_def
  by (rule compact_loop_idem [of scan_reset data]) (simp_all add: scan_sim_def scan_reset_def)

lemma json_compact_out_valid: "json_compact data = Some out \<Longrightarrow> json_valid out"
  using json_compact_idem json_compact_valid by blast

end
