(* ===== verification/JsonValue.thy ===== *)
theory JsonValue
  imports Json "HOL-Library.Monad_Syntax"
begin

text \<open>
  Decoding and encoding with \<open>encoding/json\<close>, as far as the program uses it: values parsed
  from text the scanner accepts, \<open>Unmarshal\<close> into a struct (field matching, type errors that
  do not stop the decoding, raw messages), and the string encoding of \<open>Marshal\<close>.
  An object keeps its members in order, duplicates included, each with its raw text.
\<close>

datatype json =
    JNull
  | JBool bool
  | JNum bytes                                  \<comment> \<open>the literal\<close>
  | JStr bytes                                  \<comment> \<open>decoded\<close>
  | JArr "json list"
  | JObj "(bytes \<times> bytes \<times> json) list"  \<comment> \<open>key, raw text of the value, value\<close>

section \<open>Strings\<close>

text \<open>The quoted text up to the closing quote, and what follows it.\<close>

fun string_body :: "bytes \<Rightarrow> (bytes \<times> bytes) option" where
  "string_body [] = None"
| "string_body (c # cs) =
     (if c = DQ then Some ([], cs)
      else if c = BSL then
        (case cs of [] \<Rightarrow> None
         | d # ds \<Rightarrow> map_option (\<lambda>(a, r). (c # d # a, r)) (string_body ds))
      else map_option (\<lambda>(a, r). (c # a, r)) (string_body cs))"

definition hex_val :: "char \<Rightarrow> nat" where
  "hex_val c = (if is_digit c then byte c - 48
     else if 0x41 \<le> byte c \<and> byte c \<le> (0x46 :: nat) then byte c - 55 else byte c - 87)"

text \<open>\<open>getu4\<close>: the code unit of \<open>\uXXXX\<close> at the front, if there is one.\<close>

fun getu4 :: "bytes \<Rightarrow> nat option" where
  "getu4 (b # u # x1 # x2 # x3 # x4 # _) =
     (if b = BSL \<and> u = CHR ''u'' \<and> list_all hex_digit [x1, x2, x3, x4]
      then Some (((hex_val x1 * 16 + hex_val x2) * 16 + hex_val x3) * 16 + hex_val x4) else None)"
| "getu4 _ = None"

text \<open>\<open>utf8.AppendRune\<close> (surrogates and values out of range become U+FFFD).\<close>

definition encode_rune :: "nat \<Rightarrow> bytes" where
  "encode_rune r =
     (if r < 0x80 then [char_of r]
      else if r < 0x800 then [char_of (0xC0 + r div 64), char_of (0x80 + r mod 64)]
      else if 0xD800 \<le> r \<and> r < 0xE000 \<or> r > 0x10FFFF then rune_error
      else if r < 0x10000 then
        [char_of (0xE0 + r div 4096), char_of (0x80 + (r div 64) mod 64), char_of (0x80 + r mod 64)]
      else [char_of (0xF0 + r div 262144), char_of (0x80 + (r div 4096) mod 64),
            char_of (0x80 + (r div 64) mod 64), char_of (0x80 + r mod 64)])"

definition simple_escape :: "char \<Rightarrow> char" where
  "simple_escape c =
     (if c = CHR ''b'' then CHR 0x08 else if c = CHR ''f'' then CHR 0x0C
      else if c = CHR ''n'' then LF else if c = CHR ''r'' then CR
      else if c = CHR ''t'' then CHR 0x09 else c)"

definition escape_char :: "char \<Rightarrow> bool" where
  "escape_char c \<longleftrightarrow> c \<in> set [CHR ''b'', CHR ''f'', CHR ''n'', CHR ''r'', CHR ''t'', BSL, CHR ''/'', DQ]"

text \<open>\<open>unquote\<close> on the text between the quotes (it stops at an escape the scanner does not let
  through): escapes, surrogate pairs, and U+FFFD for
  every byte that starts no rune.\<close>

function unquote :: "bytes \<Rightarrow> bytes" where
  "unquote s =
     (case s of
        [] \<Rightarrow> []
      | c # cs \<Rightarrow>
          if c = BSL then
            (case getu4 s of
               Some u \<Rightarrow>
                 (case getu4 (drop 6 s) of
                    Some v \<Rightarrow>
                      if 0xD800 \<le> u \<and> u < 0xDC00 \<and> 0xDC00 \<le> v \<and> v < 0xE000
                      then encode_rune ((u - 0xD800) * 1024 + (v - 0xDC00) + 0x10000) @ unquote (drop 12 s)
                      else encode_rune u @ unquote (drop 6 s)
                  | None \<Rightarrow> encode_rune u @ unquote (drop 6 s))
             | None \<Rightarrow>
                 (case cs of [] \<Rightarrow> []
                  | d # ds \<Rightarrow> if escape_char d then simple_escape d # unquote ds else []))
          else if rune_width s = 0 then rune_error @ unquote cs
          else take (rune_width s) s @ unquote (drop (rune_width s) s))"
  by pat_completeness auto
termination by (relation "measure length") auto

declare unquote.simps [simp del]

section \<open>Values\<close>

abbreviation skip_space :: "bytes \<Rightarrow> bytes" where "skip_space \<equiv> dropWhile json_space"

definition literal_char :: "char \<Rightarrow> bool" where
  "literal_char c \<longleftrightarrow> \<not> json_space c \<and> c \<notin> set '',]}''"

definition literal_value :: "bytes \<Rightarrow> json" where
  "literal_value w = (if w = ''null'' then JNull else if w = ''true'' then JBool True
     else if w = ''false'' then JBool False else JNum w)"

definition next_char :: "bytes \<Rightarrow> (char \<times> bytes) option" where
  "next_char s = (case skip_space s of [] \<Rightarrow> None | c # cs \<Rightarrow> Some (c, cs))"

text \<open>A value, the members of an object, the elements of an array: the fuel bounds the
  depth of the calls; twice the length of the input is enough (\<open>parse_fuel_enough\<close>).\<close>

fun parse_value :: "nat \<Rightarrow> bytes \<Rightarrow> (json \<times> bytes) option"
  and parse_members :: "nat \<Rightarrow> bytes \<Rightarrow> ((bytes \<times> bytes \<times> json) list \<times> bytes) option"
  and parse_elems :: "nat \<Rightarrow> bytes \<Rightarrow> (json list \<times> bytes) option" where
  "parse_value 0 s = None"
| "parse_value (Suc n) s = do {
     (c, cs) \<leftarrow> next_char s;
     if c = DQ then do {
       (b, r) \<leftarrow> string_body cs;
       Some (JStr (unquote b), r)
     } else if c = CHR ''{'' then do {
       (d, ds) \<leftarrow> next_char cs;
       if d = CHR ''}'' then Some (JObj [], ds)
       else do { (ms, r) \<leftarrow> parse_members n (d # ds); Some (JObj ms, r) }
     } else if c = CHR ''['' then do {
       (d, ds) \<leftarrow> next_char cs;
       if d = CHR '']'' then Some (JArr [], ds)
       else do { (vs, r) \<leftarrow> parse_elems n (d # ds); Some (JArr vs, r) }
     } else if literal_char c then
       Some (literal_value (takeWhile literal_char (c # cs)), dropWhile literal_char cs)
     else None }"
| "parse_members 0 s = None"
| "parse_members (Suc n) s = do {
     (c, cs) \<leftarrow> next_char s;
     if c \<noteq> DQ then None
     else do {
       (k, r) \<leftarrow> string_body cs;
       (d, ds) \<leftarrow> next_char r;
       if d \<noteq> CHR '':'' then None
       else do {
         (v, r2) \<leftarrow> parse_value n (skip_space ds);
         let m = (unquote k, take (length (skip_space ds) - length r2) (skip_space ds), v);
         (e, es) \<leftarrow> next_char r2;
         if e = CHR ''}'' then Some ([m], es)
         else if e = CHR '','' then do { (ms, r3) \<leftarrow> parse_members n es; Some (m # ms, r3) }
         else None }}}"
| "parse_elems 0 s = None"
| "parse_elems (Suc n) s = do {
     (v, r) \<leftarrow> parse_value n s;
     (e, es) \<leftarrow> next_char r;
     if e = CHR '']'' then Some ([v], es)
     else if e = CHR '','' then do { (vs, r2) \<leftarrow> parse_elems n es; Some (v # vs, r2) }
     else None }"

lemma string_body_shorter: "string_body s = Some (b, r) \<Longrightarrow> length r < length s"
proof (induction s arbitrary: b r rule: string_body.induct)
  case (2 c cs)
  show ?case
  proof (cases "c = BSL \<and> c \<noteq> DQ")
    case True
    with 2 show ?thesis by (force split: list.splits)
  next
    case False
    with 2 show ?thesis by (force split: if_splits)
  qed
qed simp

lemma next_char_shorter: "next_char s = Some (c, cs) \<Longrightarrow> length cs < length s"
  using length_dropWhile_le [of json_space s] by (auto simp: next_char_def split: list.splits)

lemma dropWhile_shorter: "length t < length (dropWhile P s) \<Longrightarrow> length t < length s"
  using length_dropWhile_le [of P s] by linarith

lemma dropWhile_literal: "length (dropWhile literal_char cs) < Suc (length cs)"
  using length_dropWhile_le [of literal_char cs] by linarith

lemma parse_shorter:
  "(parse_value n s = Some (v, r) \<longrightarrow> length r < length s) \<and>
   (parse_members n s = Some (ms, r) \<longrightarrow> length r < length s) \<and>
   (parse_elems n s = Some (vs, r) \<longrightarrow> length r < length s)"
proof (induction n arbitrary: s v ms vs r)
  case 0
  show ?case by simp
next
  case (Suc n)
  have IH: "parse_value n s = Some (v, r) \<Longrightarrow> length r < length s"
    "parse_members n s = Some (ms, r) \<Longrightarrow> length r < length s"
    "parse_elems n s = Some (vs, r) \<Longrightarrow> length r < length s" for s v ms vs r
    using Suc by blast+
  note dests = IH next_char_shorter string_body_shorter dropWhile_shorter
  have "length r < length s" if pv: "parse_value (Suc n) s = Some (v, r)"
  proof -
    from pv obtain c cs where c: "next_char s = Some (c, cs)"
      by (auto simp: Option.bind_eq_Some_conv)
    note len = next_char_shorter [OF c]
    consider "c = DQ" | "c = CHR ''{''" | "c = CHR ''[''"
      | "c \<noteq> DQ" "c \<noteq> CHR ''{''" "c \<noteq> CHR ''[''" "literal_char c"
      using pv c by (auto split: if_splits)
    then show ?thesis
    proof cases
      case 1
      with pv c len show ?thesis by (auto simp: Option.bind_eq_Some_conv dest!: string_body_shorter)
    next
      case 2
      with pv c len show ?thesis
        by (auto simp: Option.bind_eq_Some_conv split: if_splits dest!: IH(2) next_char_shorter)
    next
      case 3
      with pv c len show ?thesis
        by (auto simp: Option.bind_eq_Some_conv split: if_splits dest!: IH(3) next_char_shorter)
    next
      case 4
      with pv c len dropWhile_literal [of cs] show ?thesis by simp
    qed
  qed
  moreover have "length r < length s" if "parse_members (Suc n) s = Some (ms, r)"
    using that by (auto simp: Option.bind_eq_Some_conv Let_def split: if_splits dest!: dests)
  moreover have "length r < length s" if "parse_elems (Suc n) s = Some (vs, r)"
    using that by (auto simp: Option.bind_eq_Some_conv split: if_splits dest!: dests)
  ultimately show ?case by blast
qed

lemma parse_value_shorter: "parse_value n s = Some (v, r) \<Longrightarrow> length r < length s"
  using parse_shorter by blast

text \<open>One more unit of fuel does not matter above twice the length of the input.\<close>

definition enough :: "nat \<Rightarrow> bool" where
  "enough n \<longleftrightarrow> (\<forall>s. (2 * length s + 2 \<le> n \<longrightarrow> parse_value (Suc n) s = parse_value n s) \<and>
     (2 * length s + 2 \<le> n \<longrightarrow> parse_members (Suc n) s = parse_members n s) \<and>
     (2 * length s + 3 \<le> n \<longrightarrow> parse_elems (Suc n) s = parse_elems n s))"

lemma enough_D:
  assumes "enough n"
  shows "2 * length s + 2 \<le> n \<Longrightarrow> parse_value (Suc n) s = parse_value n s"
    "2 * length s + 2 \<le> n \<Longrightarrow> parse_members (Suc n) s = parse_members n s"
    "2 * length s + 3 \<le> n \<Longrightarrow> parse_elems (Suc n) s = parse_elems n s"
  using assms unfolding enough_def by blast+

lemma value_fuel_step:
  assumes "enough n" and n: "2 * length s + 2 \<le> Suc n"
  shows "parse_value (Suc (Suc n)) s = parse_value (Suc n) s"
proof -
  have sub: "parse_members (Suc n) (d # ds) = parse_members n (d # ds)"
    "parse_elems (Suc n) (d # ds) = parse_elems n (d # ds)"
    if "next_char s = Some (c, cs)" "next_char cs = Some (d, ds)" for c cs d ds
    using that [THEN next_char_shorter] n
    by (auto intro!: enough_D [OF assms(1)] simp del: parse_members.simps parse_elems.simps)
  show ?thesis
    unfolding parse_value.simps
    by (intro Option.bind_cong) (auto intro!: Option.bind_cong if_cong intro: sub
        simp del: parse_members.simps parse_elems.simps)
qed

lemma members_fuel_step:
  assumes "enough n" and n: "2 * length s + 2 \<le> Suc n"
  shows "parse_members (Suc (Suc n)) s = parse_members (Suc n) s"
proof -
  have sub1: "parse_value (Suc n) (skip_space ds) = parse_value n (skip_space ds)"
    if "next_char s = Some (c, cs)" "string_body cs = Some (k, r)" "next_char r = Some (d, ds)" for c cs k r d ds
    using next_char_shorter [OF that(1)] string_body_shorter [OF that(2)] next_char_shorter [OF that(3)] n
      length_dropWhile_le [of json_space ds] by (intro enough_D [OF assms(1)]) linarith
  have sub2: "parse_members (Suc n) es = parse_members n es"
    if "next_char s = Some (c, cs)" "string_body cs = Some (k, r)" "next_char r = Some (d, ds)"
      "parse_value n (skip_space ds) = Some (v, r2)" "next_char r2 = Some (e, es)" for c cs k r d ds v r2 e es
    using next_char_shorter [OF that(1)] string_body_shorter [OF that(2)] next_char_shorter [OF that(3)] n
      length_dropWhile_le [of json_space ds] parse_value_shorter [OF that(4)]
      next_char_shorter [OF that(5)] by (intro enough_D [OF assms(1)]) linarith
  show ?thesis
    unfolding parse_members.simps(2) [of "Suc n" s] parse_members.simps(2) [of n s] Let_def
    by (intro Option.bind_cong) (auto intro!: Option.bind_cong if_cong intro: sub1 sub2
        simp del: parse_value.simps parse_members.simps)
qed

lemma elems_fuel_step:
  assumes "enough n" and n: "2 * length s + 3 \<le> Suc n"
  shows "parse_elems (Suc (Suc n)) s = parse_elems (Suc n) s"
proof -
  have sub1: "parse_value (Suc n) s = parse_value n s" using n by (intro enough_D [OF assms(1)]) linarith
  have sub2: "parse_elems (Suc n) es = parse_elems n es"
    if "parse_value n s = Some (v, r)" "next_char r = Some (e, es)" for v r e es
    using parse_value_shorter [OF that(1)] next_char_shorter [OF that(2)] n
    by (intro enough_D [OF assms(1)]) linarith
  show ?thesis
    unfolding parse_elems.simps(2) [of "Suc n" s] parse_elems.simps(2) [of n s]
    by (intro Option.bind_cong) (auto intro!: Option.bind_cong if_cong intro: sub1 sub2
        simp del: parse_value.simps parse_elems.simps)
qed

lemma parse_fuel_step: "enough n"
proof (induction n)
  case (Suc n)
  then show ?case
    using value_fuel_step members_fuel_step elems_fuel_step unfolding enough_def [of "Suc n"] by blast
qed (simp add: enough_def)

lemma parse_fuel_enough:
  "parse_value (2 * length s + 2 + k) s = parse_value (2 * length s + 2) s"
proof (induction k)
  case (Suc k)
  then show ?case using enough_D(1) [OF parse_fuel_step, of s "2 * length s + 2 + k"] by simp
qed simp

definition json_parse :: "bytes \<Rightarrow> json option" where
  "json_parse data =
     (if json_valid data then map_option fst (parse_value (2 * length data + 2) data) else None)"

section \<open>Unmarshal into a struct\<close>

text \<open>A field of a struct: its JSON name, and how a member (raw text and value) is stored.  The
  flag is \<open>False\<close> for a type error, which Go records and goes on.\<close>

type_synonym 'a setter = "bytes \<Rightarrow> json \<Rightarrow> 'a \<Rightarrow> 'a \<times> bool"

text \<open>\<open>foldName\<close>: ASCII letters upper-cased, and the two non-ASCII letters that fold to ASCII
  (U+017F to \<open>S\<close>, U+212A to \<open>K\<close>).\<close>

fun fold_name :: "bytes \<Rightarrow> bytes" where
  "fold_name [] = []"
| "fold_name (c # cs) =
     (if prefix [CHR 0xC5, CHR 0xBF] (c # cs) then CHR ''S'' # fold_name (drop 1 cs)
      else if prefix [CHR 0xE2, CHR 0x84, CHR 0xAA] (c # cs) then CHR ''K'' # fold_name (drop 2 cs)
      else (if 0x61 \<le> byte c \<and> byte c \<le> (0x7A :: nat) then char_of (byte c - 32 :: nat) else c)
           # fold_name cs)"

definition find_field :: "(bytes \<times> 'a setter) list \<Rightarrow> bytes \<Rightarrow> 'a setter option" where
  "find_field fs key =
     (case map_of fs key of
        Some f \<Rightarrow> Some f
      | None \<Rightarrow> map_option snd (List.find (\<lambda>(k, _). fold_name k = fold_name key) fs))"

fun decode_members :: "(bytes \<times> 'a setter) list \<Rightarrow> (bytes \<times> bytes \<times> json) list \<Rightarrow> 'a \<Rightarrow> 'a \<times> bool" where
  "decode_members fs [] a = (a, True)"
| "decode_members fs ((key, raw, v) # ms) a =
     (let (a1, ok1) = (case find_field fs key of Some f \<Rightarrow> f raw v a | None \<Rightarrow> (a, True));
          (a2, ok2) = decode_members fs ms a1
      in (a2, ok1 \<and> ok2))"

definition decode_struct :: "(bytes \<times> 'a setter) list \<Rightarrow> json \<Rightarrow> 'a \<Rightarrow> 'a \<times> bool" where
  "decode_struct fs v a =
     (case v of JObj ms \<Rightarrow> decode_members fs ms a | JNull \<Rightarrow> (a, True) | _ \<Rightarrow> (a, False))"

text \<open>\<open>json.Unmarshal\<close>: the struct as far as it was filled, and whether the error is nil.\<close>

definition unmarshal :: "(bytes \<times> 'a setter) list \<Rightarrow> bytes \<Rightarrow> 'a \<Rightarrow> 'a \<times> bool" where
  "unmarshal fs data a =
     (case json_parse data of None \<Rightarrow> (a, False) | Some v \<Rightarrow> decode_struct fs v a)"

definition string_field :: "(bytes \<Rightarrow> 'a \<Rightarrow> 'a) \<Rightarrow> 'a setter" where
  "string_field upd raw v a =
     (case v of JStr s \<Rightarrow> (upd s a, True) | JNull \<Rightarrow> (a, True) | _ \<Rightarrow> (a, False))"

definition raw_field :: "(bytes \<Rightarrow> 'a \<Rightarrow> 'a) \<Rightarrow> 'a setter" where
  "raw_field upd raw v a = (upd raw a, True)"

definition struct_field :: "(bytes \<times> 'a setter) list \<Rightarrow> 'a setter" where
  "struct_field fs raw v a = decode_struct fs v a"

text \<open>\<open>strconv.ParseInt(_, 10, 64)\<close> on a number literal.\<close>

fun dec_val :: "nat \<Rightarrow> bytes \<Rightarrow> nat option" where
  "dec_val n [] = Some n"
| "dec_val n (c # cs) = (if is_digit c then dec_val (10 * n + (byte c - 48)) cs else None)"

definition parse_int64 :: "bytes \<Rightarrow> int option" where
  "parse_int64 w =
     (let (neg, ds) = (if prefix ''-'' w then (True, tl w) else (False, w)) in
      if ds = [] then None
      else case dec_val 0 ds of
             None \<Rightarrow> None
           | Some n \<Rightarrow>
               if neg then (if n \<le> 2 ^ 63 then Some (- int n) else None)
               else if n < 2 ^ 63 then Some (int n) else None)"

definition int64_field :: "(int \<Rightarrow> 'a \<Rightarrow> 'a) \<Rightarrow> 'a setter" where
  "int64_field upd raw v a =
     (case v of
        JNum w \<Rightarrow> (case parse_int64 w of Some i \<Rightarrow> (upd i a, True) | None \<Rightarrow> (a, False))
      | JNull \<Rightarrow> (a, True)
      | _ \<Rightarrow> (a, False))"

text \<open>A \<open>[]string\<close> field: elements of another type are type errors and stay \<open>""\<close>; \<open>null\<close>
  gives the nil slice.\<close>

definition string_elem :: "json \<Rightarrow> bytes" where
  "string_elem v = (case v of JStr s \<Rightarrow> s | _ \<Rightarrow> [])"

definition strings_field :: "(bytes list \<Rightarrow> 'a \<Rightarrow> 'a) \<Rightarrow> 'a setter" where
  "strings_field upd raw v a =
     (case v of
        JArr vs \<Rightarrow> (upd (map string_elem vs) a,
                     list_all (\<lambda>w. case w of JStr _ \<Rightarrow> True | JNull \<Rightarrow> True | _ \<Rightarrow> False) vs)
      | JNull \<Rightarrow> (upd [] a, True)
      | _ \<Rightarrow> (a, False))"

section \<open>Marshal\<close>

definition hex_char :: "nat \<Rightarrow> char" where
  "hex_char n = (if n < 10 then char_of (48 + n) else char_of (87 + n))"

definition u_escape :: "nat \<Rightarrow> bytes" where
  "u_escape b = [BSL, CHR ''u'', CHR ''0'', CHR ''0'', hex_char (b div 16), hex_char (b mod 16)]"

definition html_char :: "char \<Rightarrow> bool" where
  "html_char c \<longleftrightarrow> c = CHR ''<'' \<or> c = CHR ''>'' \<or> c = CHR ''&''"

definition line_sep :: "bytes \<Rightarrow> bool" where
  "line_sep s \<longleftrightarrow> prefix [CHR 0xE2, CHR 0x80, CHR 0xA8] s \<or> prefix [CHR 0xE2, CHR 0x80, CHR 0xA9] s"

text \<open>\<open>appendString\<close> with HTML escaping, without the surrounding quotes.\<close>

definition quote_ascii :: "char \<Rightarrow> bytes" where
  "quote_ascii c =
     (if c = BSL \<or> c = DQ then [BSL, c]
      else if c = CHR 0x08 then [BSL, CHR ''b''] else if c = CHR 0x0C then [BSL, CHR ''f'']
      else if c = LF then [BSL, CHR ''n''] else if c = CR then [BSL, CHR ''r'']
      else if c = CHR 0x09 then [BSL, CHR ''t'']
      else if byte c < (0x20 :: nat) \<or> html_char c then u_escape (byte c)
      else [c])"

function quote_body :: "bytes \<Rightarrow> bytes" where
  "quote_body s =
     (if s = [] then []
      else if byte (hd s) < (0x80 :: nat) then quote_ascii (hd s) @ quote_body (tl s)
      else if rune_width s = 0 then [BSL] @ ''ufffd'' @ quote_body (tl s)
      else if line_sep s then
        [BSL] @ ''u202'' @ [hex_char (byte (s ! 2) mod 16)] @ quote_body (drop 3 s)
      else take (rune_width s) s @ quote_body (drop (rune_width s) s))"
  by pat_completeness auto
termination by (relation "measure length") auto

declare quote_body.simps [simp del]

definition json_string :: "bytes \<Rightarrow> bytes" where
  "json_string s = [DQ] @ quote_body s @ [DQ]"

text \<open>A \<open>RawMessage\<close> inside \<open>Marshal\<close>: compacted, with the same HTML escapes.\<close>

fun escape_html :: "bytes \<Rightarrow> bytes" where
  "escape_html [] = []"
| "escape_html (c # cs) =
     (if html_char c then u_escape (byte c) @ escape_html cs
      else if line_sep (c # cs) then
        [BSL] @ ''u202'' @ [hex_char (byte (cs ! 1) mod 16)] @ escape_html (drop 2 cs)
      else c # escape_html cs)"

definition marshal_raw :: "bytes \<Rightarrow> bytes option" where
  "marshal_raw raw = map_option escape_html (json_compact raw)"

end
