(* ===== verification/Url.thy ===== *)
theory Url
  imports Errors JsonValue
begin

text \<open>
  URLs as the program handles them: \<open>net/url\<close> (parsing, escaping, rendering) and the loopback
  test of \<open>net.ParseIP\<close>, and over them \<open>Canonicalize\<close>, \<open>IsLoopbackHost\<close>, \<open>requireHTTPS\<close> and
  \<open>wellKnown\<close> of \<open>pkg/oauth/discovery.go\<close>.
\<close>

section \<open>Character classes and percent-encoding\<close>

definition is_letter :: "char \<Rightarrow> bool" where
  "is_letter c \<longleftrightarrow> (0x41 \<le> byte c \<and> byte c \<le> (0x5A :: nat)) \<or> (0x61 \<le> byte c \<and> byte c \<le> (0x7A :: nat))"

datatype enc_mode = EncodePath | EncodeHost | EncodeZone | EncodeUser | EncodeFragment

definition host_mode :: "enc_mode \<Rightarrow> bool" where
  "host_mode m \<longleftrightarrow> m = EncodeHost \<or> m = EncodeZone"

definition host_punct :: bytes where "host_punct = ''!$&()*+,;=:[]<>'' @ [CHR 0x27, DQ]"
definition path_punct :: bytes where "path_punct = ''$&+,/:;=?@''"

definition should_escape :: "enc_mode \<Rightarrow> char \<Rightarrow> bool" where
  "should_escape m c =
     (if is_letter c \<or> is_digit c then False
      else if host_mode m \<and> List.member host_punct c then False
      else if List.member ''-_.~'' c then False
      else if List.member path_punct c then
        (case m of
           EncodePath \<Rightarrow> c = CHR ''?''
         | EncodeUser \<Rightarrow> c = CHR ''@'' \<or> c = CHR ''/'' \<or> c = CHR ''?'' \<or> c = CHR '':''
         | EncodeFragment \<Rightarrow> False
         | _ \<Rightarrow> True)
      else if m = EncodeFragment \<and> List.member ''!()*'' c then False
      else True)"

definition upper_hex :: "nat \<Rightarrow> char" where
  "upper_hex n = (if n < 10 then char_of (48 + n) else char_of (55 + n))"

definition escape :: "enc_mode \<Rightarrow> bytes \<Rightarrow> bytes" where
  "escape m s = concat (map (\<lambda>c. if should_escape m c
     then [CHR ''%'', upper_hex (byte c div 16), upper_hex (byte c mod 16)] else [c]) s)"

text \<open>One escaped byte at the front, checked as \<open>unescape\<close> does for the mode.\<close>

definition escape_ok :: "enc_mode \<Rightarrow> char \<Rightarrow> char \<Rightarrow> bool" where
  "escape_ok m x y \<longleftrightarrow> hex_digit x \<and> hex_digit y \<and>
     (m = EncodeHost \<longrightarrow> 8 \<le> hex_val x \<or> [x, y] = ''25'') \<and>
     (m = EncodeZone \<longrightarrow> [x, y] = ''25'' \<or> hex_val x * 16 + hex_val y = 32 \<or>
        \<not> should_escape EncodeHost (char_of (hex_val x * 16 + hex_val y)))"

fun unescape :: "enc_mode \<Rightarrow> bytes \<Rightarrow> bytes option" where
  "unescape m [] = Some []"
| "unescape m (c # cs) =
     (if c = CHR ''%'' then
        (case cs of
           x # y # rest \<Rightarrow>
             if escape_ok m x y
             then map_option (\<lambda>r. char_of (hex_val x * 16 + hex_val y) # r) (unescape m rest)
             else None
         | _ \<Rightarrow> None)
      else if host_mode m \<and> byte c < (0x80 :: nat) \<and> should_escape m c then None
      else map_option (\<lambda>r. c # r) (unescape m cs))"

text \<open>\<open>url.QueryEscape\<close> and \<open>Values.Encode\<close> of values that are already in key order.\<close>

definition query_escape :: "bytes \<Rightarrow> bytes" where
  "query_escape s = concat (map (\<lambda>c.
     if c = CHR '' '' then ''+''
     else if is_letter c \<or> is_digit c \<or> List.member ''-_.~'' c then [c]
     else [CHR ''%'', upper_hex (byte c div 16), upper_hex (byte c mod 16)]) s)"

definition form_encode :: "(bytes \<times> bytes) list \<Rightarrow> bytes" where
  "form_encode kvs = join ''&'' (map (\<lambda>(k, v). query_escape k @ ''='' @ query_escape v) kvs)"

section \<open>IP addresses\<close>

definition octet :: "bytes \<Rightarrow> nat option" where
  "octet s =
     (if s = [] \<or> \<not> list_all is_digit s \<or> (length s > 1 \<and> hd s = CHR ''0'') then None
      else case dec_val 0 s of Some n \<Rightarrow> if n \<le> 255 then Some n else None | None \<Rightarrow> None)"

definition parse_ipv4 :: "bytes \<Rightarrow> nat list option" where
  "parse_ipv4 s = (case map octet (split_on (CHR ''.'') s) of
     [Some a, Some b, Some c, Some d] \<Rightarrow> Some [a, b, c, d] | _ \<Rightarrow> None)"

fun hex_number :: "nat \<Rightarrow> bytes \<Rightarrow> nat" where
  "hex_number n [] = n"
| "hex_number n (c # cs) = hex_number (16 * n + hex_val c) cs"

text \<open>The fields of \<open>parseIPv6\<close> after a possible leading \<open>::\<close>: the bytes read and the number of
  them before the ellipsis.  The fuel is the number of 16-bit fields that still fit.\<close>

fun ipv6_fields :: "nat \<Rightarrow> bytes \<Rightarrow> nat list \<Rightarrow> nat option \<Rightarrow> (nat list \<times> nat option) option" where
  "ipv6_fields 0 s ip ell = None"
| "ipv6_fields (Suc n) s ip ell =
     (let w = takeWhile hex_digit s; r = dropWhile hex_digit s in
      if w = [] \<or> length w > 4 then None
      else if r \<noteq> [] \<and> hd r = CHR ''.'' then
        (if (ell = None \<and> length ip \<noteq> 12) \<or> length ip + 4 > 16 then None
         else map_option (\<lambda>v4. (ip @ v4, ell)) (parse_ipv4 s))
      else
        let v = hex_number 0 w; ip' = ip @ [v div 256, v mod 256] in
        if r = [] then Some (ip', ell)
        else if hd r \<noteq> CHR '':'' \<or> tl r = [] then None
        else if hd (tl r) = CHR '':'' then
          (if ell \<noteq> None then None
           else if tl (tl r) = [] then Some (ip', Some (length ip'))
           else ipv6_fields n (tl (tl r)) ip' (Some (length ip')))
        else ipv6_fields n (tl r) ip' ell)"

definition expand_ellipsis :: "nat list \<times> nat option \<Rightarrow> nat list option" where
  "expand_ellipsis p = (case p of (ip, ell) \<Rightarrow>
     if length ip < 16 then
       (case ell of None \<Rightarrow> None
        | Some k \<Rightarrow> Some (take k ip @ replicate (16 - length ip) 0 @ drop k ip))
     else if ell \<noteq> None then None else Some ip)"

definition parse_ipv6 :: "bytes \<Rightarrow> nat list option" where
  "parse_ipv6 s =
     (if prefix ''::'' s then
        (if drop 2 s = [] then Some (replicate 16 0)
         else Option.bind (ipv6_fields 8 (drop 2 s) [] (Some 0)) expand_ellipsis)
      else Option.bind (ipv6_fields 8 s [] None) expand_ellipsis)"

text \<open>\<open>netip.ParseAddr\<close>: the bytes of the address and its zone; which of the characters \<open>.\<close>,
  \<open>:\<close>, \<open>%\<close> comes first decides the format.\<close>

definition parse_addr :: "bytes \<Rightarrow> (nat list \<times> bytes) option" where
  "parse_addr s =
     (case dropWhile (\<lambda>c. \<not> List.member ''.:%'' c) s of
        [] \<Rightarrow> None
      | c # _ \<Rightarrow>
          if c = CHR ''.'' then map_option (\<lambda>ip. (ip, [])) (parse_ipv4 s)
          else if c = CHR '':'' then
            (case cut_at (CHR ''%'') s of
               None \<Rightarrow> map_option (\<lambda>ip. (ip, [])) (parse_ipv6 s)
             | Some (a, zone) \<Rightarrow>
                 if zone = [] then None else map_option (\<lambda>ip. (ip, zone)) (parse_ipv6 a))
          else None)"

definition is_loopback_ip :: "nat list \<Rightarrow> bool" where
  "is_loopback_ip ip \<longleftrightarrow>
     (length ip = 4 \<and> hd ip = 127) \<or>
     (length ip = 16 \<and> take 12 ip = replicate 10 0 @ [255, 255] \<and> ip ! 12 = 127) \<or>
     ip = replicate 15 0 @ [1]"

definition IsLoopbackHost :: "bytes \<Rightarrow> bool" where
  "IsLoopbackHost host =
     (if host = ''localhost'' then True
      else case parse_addr host of
             Some (ip, zone) \<Rightarrow> zone = [] \<and> is_loopback_ip ip
           | None \<Rightarrow> False)"

section \<open>URLs\<close>

record url =
  Scheme :: bytes
  Opaque :: bytes
  User :: "(bytes \<times> bytes option) option"
  Host :: bytes
  Path :: bytes
  RawPath :: bytes
  OmitHost :: bool
  ForceQuery :: bool
  RawQuery :: bytes
  Fragment :: bytes
  RawFragment :: bytes

definition empty_url :: url where
  "empty_url = \<lparr>Scheme = [], Opaque = [], User = None, Host = [], Path = [], RawPath = [],
     OmitHost = False, ForceQuery = False, RawQuery = [], Fragment = [], RawFragment = []\<rparr>"

text \<open>\<open>getScheme\<close>: \<open>None\<close> for a missing scheme before \<open>:\<close>.\<close>

fun scheme_loop :: "bytes \<Rightarrow> bytes \<Rightarrow> bytes \<Rightarrow> (bytes \<times> bytes) option" where
  "scheme_loop whole acc [] = Some ([], whole)"
| "scheme_loop whole acc (c # cs) =
     (if is_letter c then scheme_loop whole (acc @ [c]) cs
      else if is_digit c \<or> List.member ''+-.'' c then
        (if acc = [] then Some ([], whole) else scheme_loop whole (acc @ [c]) cs)
      else if c = CHR '':'' then (if acc = [] then None else Some (acc, cs))
      else Some ([], whole))"

definition valid_optional_port :: "bytes \<Rightarrow> bool" where
  "valid_optional_port s \<longleftrightarrow> s = [] \<or> (hd s = CHR '':'' \<and> list_all is_digit (tl s))"

text \<open>The text before the last occurrence of a character, and after it.\<close>

definition cut_last :: "char \<Rightarrow> bytes \<Rightarrow> (bytes \<times> bytes) option" where
  "cut_last c s = map_option (\<lambda>(a, b). (rev b, rev a)) (cut_at c (rev s))"

fun cut_zone :: "bytes \<Rightarrow> (bytes \<times> bytes) option" where
  "cut_zone [] = None"
| "cut_zone (c # cs) = (if prefix ''%25'' (c # cs) then Some ([], c # cs)
     else map_option (\<lambda>(a, b). (c # a, b)) (cut_zone cs))"

definition unescape_hostname :: "bytes \<Rightarrow> bytes option" where
  "unescape_hostname h =
     (case cut_zone h of
        None \<Rightarrow> unescape EncodeHost h
      | Some (a, z) \<Rightarrow>
          Option.bind (unescape EncodeHost a) (\<lambda>a'. map_option (\<lambda>z'. a' @ z') (unescape EncodeZone z)))"

definition parse_host :: "bytes \<Rightarrow> bytes option" where
  "parse_host host =
     (case cut_last (CHR ''['') host of
        Some (_, after_open) \<Rightarrow>
          (case cut_last (CHR '']'') host of
             None \<Rightarrow> None
           | Some (before_close, port) \<Rightarrow>
               if \<not> valid_optional_port port then None
               else case cut_last (CHR '']'') after_open of
                      None \<Rightarrow> None
                    | Some (inner, _) \<Rightarrow>
                        Option.bind (unescape_hostname inner) (\<lambda>name.
                          (case parse_addr name of
                            Some (ip, _) \<Rightarrow> if length ip = 4 then None else Some (''['' @ name @ '']'' @ port)
                          | None \<Rightarrow> None)))
      | None \<Rightarrow>
          (case cut_at (CHR '':'') host of
             Some (_, port) \<Rightarrow> if list_all is_digit port then unescape EncodeHost host else None
           | None \<Rightarrow> unescape EncodeHost host))"

definition valid_userinfo :: "bytes \<Rightarrow> bool" where
  "valid_userinfo s = list_all (\<lambda>c. is_letter c \<or> is_digit c \<or> List.member (''-._:~!$&()*+,;=%@'' @ [CHR 0x27]) c) s"

definition parse_userinfo :: "bytes \<Rightarrow> (bytes \<times> bytes option) option" where
  "parse_userinfo s =
     (if \<not> valid_userinfo s then None
      else case cut_at (CHR '':'') s of
        None \<Rightarrow> map_option (\<lambda>u. (u, None)) (unescape EncodeUser s)
      | Some (u, p) \<Rightarrow> Option.bind (unescape EncodeUser u) (\<lambda>u'.
            map_option (\<lambda>p'. (u', Some p')) (unescape EncodeUser p)))"

definition parse_authority :: "bytes \<Rightarrow> ((bytes \<times> bytes option) option \<times> bytes) option" where
  "parse_authority a =
     (case cut_last (CHR ''@'') a of
        None \<Rightarrow> map_option (\<lambda>h. (None, h)) (parse_host a)
      | Some (ui, h) \<Rightarrow> Option.bind (parse_host h) (\<lambda>h'.
            map_option (\<lambda>u. (Some u, h')) (parse_userinfo ui)))"

definition set_path :: "bytes \<Rightarrow> url \<Rightarrow> url option" where
  "set_path p u = map_option (\<lambda>path.
     u\<lparr>Path := path, RawPath := (if p = escape EncodePath path then [] else p)\<rparr>) (unescape EncodePath p)"

definition set_fragment :: "bytes \<Rightarrow> url \<Rightarrow> url option" where
  "set_fragment f u = map_option (\<lambda>frag.
     u\<lparr>Fragment := frag, RawFragment := (if f = escape EncodeFragment frag then [] else f)\<rparr>)
     (unescape EncodeFragment f)"

definition ctl_byte :: "char \<Rightarrow> bool" where
  "ctl_byte c \<longleftrightarrow> byte c < (0x20 :: nat) \<or> byte c = (0x7F :: nat)"

definition parse_rest :: "url \<Rightarrow> bytes \<Rightarrow> url option" where
  "parse_rest u rest =
     (if \<not> prefix ''/'' rest \<and> Scheme u \<noteq> [] then Some (u\<lparr>Opaque := rest\<rparr>)
      else if \<not> prefix ''/'' rest \<and> List.member (takeWhile (\<lambda>c. c \<noteq> CHR ''/'') rest) (CHR '':'') then None
      else if (Scheme u \<noteq> [] \<or> \<not> prefix ''///'' rest) \<and> prefix ''//'' rest then
        (let a = drop 2 rest;
             authority = takeWhile (\<lambda>c. c \<noteq> CHR ''/'') a;
             path = dropWhile (\<lambda>c. c \<noteq> CHR ''/'') a
         in Option.bind (parse_authority authority) (\<lambda>(user, host).
              set_path path (u\<lparr>User := user, Host := host\<rparr>)))
      else set_path rest (u\<lparr>OmitHost := Scheme u \<noteq> [] \<and> prefix ''/'' rest\<rparr>))"

definition parse_no_fragment :: "bytes \<Rightarrow> url option" where
  "parse_no_fragment s =
     (if list_ex ctl_byte s then None
      else if s = ''*'' then Some (empty_url\<lparr>Path := ''*''\<rparr>)
      else case scheme_loop s [] s of
        None \<Rightarrow> None
      | Some (scheme, rest) \<Rightarrow>
          let u = empty_url\<lparr>Scheme := to_lower scheme\<rparr> in
          (case cut_at (CHR ''?'') rest of
             None \<Rightarrow> parse_rest u rest
           | Some (r, q) \<Rightarrow>
               if q = [] then parse_rest (u\<lparr>ForceQuery := True\<rparr>) r
               else parse_rest (u\<lparr>RawQuery := q\<rparr>) r))"

definition url_parse :: "bytes \<Rightarrow> url option" where
  "url_parse s =
     (case cut_at (CHR ''#'') s of
        None \<Rightarrow> parse_no_fragment s
      | Some (a, frag) \<Rightarrow>
          Option.bind (parse_no_fragment a) (\<lambda>u. if frag = [] then Some u else set_fragment frag u))"

definition valid_encoded :: "enc_mode \<Rightarrow> bytes \<Rightarrow> bool" where
  "valid_encoded m s = list_all (\<lambda>c. List.member (''!$&()*+,;=:@[]%'' @ [CHR 0x27]) c \<or> \<not> should_escape m c) s"

definition escaped :: "enc_mode \<Rightarrow> bytes \<Rightarrow> bytes \<Rightarrow> bytes" where
  "escaped m raw s =
     (if raw \<noteq> [] \<and> valid_encoded m raw \<and> unescape m raw = Some s then raw else escape m s)"

definition EscapedPath :: "url \<Rightarrow> bytes" where
  "EscapedPath u =
     (if RawPath u \<noteq> [] \<and> valid_encoded EncodePath (RawPath u) \<and> unescape EncodePath (RawPath u) = Some (Path u)
      then RawPath u else if Path u = ''*'' then ''*'' else escape EncodePath (Path u))"

definition userinfo_string :: "bytes \<times> bytes option \<Rightarrow> bytes" where
  "userinfo_string ui = escape EncodeUser (fst ui) @
     (case snd ui of None \<Rightarrow> [] | Some p \<Rightarrow> '':'' @ escape EncodeUser p)"

definition authority_string :: "url \<Rightarrow> bytes" where
  "authority_string u =
     (if (Scheme u = [] \<and> Host u = [] \<and> User u = None) \<or> (OmitHost u \<and> Host u = [] \<and> User u = None) then []
      else (if Host u \<noteq> [] \<or> Path u \<noteq> [] \<or> User u \<noteq> None then ''//'' else []) @
        (case User u of Some ui \<Rightarrow> userinfo_string ui @ ''@'' | None \<Rightarrow> []) @
        escape EncodeHost (Host u))"

definition url_string :: "url \<Rightarrow> bytes" where
  "url_string u =
     (let scheme = (if Scheme u \<noteq> [] then Scheme u @ '':'' else []);
          front =
            (if Opaque u \<noteq> [] then scheme @ Opaque u
             else
               let auth = scheme @ authority_string u;
                   path = EscapedPath u;
                   auth' = (if path \<noteq> [] \<and> hd path \<noteq> CHR ''/'' \<and> Host u \<noteq> [] then auth @ ''/'' else auth);
                   dot = (if auth' = [] \<and> List.member (takeWhile (\<lambda>c. c \<noteq> CHR ''/'') path) (CHR '':'')
                          then ''./'' else [])
               in auth' @ dot @ path)
      in front @ (if ForceQuery u \<or> RawQuery u \<noteq> [] then ''?'' @ RawQuery u else []) @
         (if Fragment u \<noteq> [] then ''#'' @ escaped EncodeFragment (RawFragment u) (Fragment u) else []))"

text \<open>\<open>URL.Hostname\<close>: without the port and without brackets.\<close>

definition Hostname :: "url \<Rightarrow> bytes" where
  "Hostname u =
     (let host = (case cut_last (CHR '':'') (Host u) of
                    Some (h, p) \<Rightarrow> if list_all is_digit p then h else Host u | None \<Rightarrow> Host u)
      in if prefix ''['' host \<and> suffix '']'' host then butlast (tl host) else host)"

section \<open>The URLs of the program\<close>

text \<open>\<open>strconv.Quote\<close>; every well-formed non-ASCII rune is taken as printable.\<close>

definition quote_rune :: "char \<Rightarrow> bytes" where
  "quote_rune c =
     (if c = DQ \<or> c = BSL then [BSL, c]
      else if c = CHR 0x07 then [BSL, CHR ''a''] else if c = CHR 0x08 then [BSL, CHR ''b'']
      else if c = CHR 0x0C then [BSL, CHR ''f''] else if c = LF then [BSL, CHR ''n'']
      else if c = CR then [BSL, CHR ''r''] else if c = CHR 0x09 then [BSL, CHR ''t'']
      else if c = CHR 0x0B then [BSL, CHR ''v'']
      else if ctl_byte c \<or> byte c \<ge> (0x80 :: nat) then [BSL, CHR ''x'', hex_char (byte c div 16), hex_char (byte c mod 16)]
      else [c])"

function quote_loop :: "bytes \<Rightarrow> bytes" where
  "quote_loop s =
     (if s = [] then []
      else if rune_width s \<le> 1 then quote_rune (hd s) @ quote_loop (tl s)
      else take (rune_width s) s @ quote_loop (drop (rune_width s) s))"
  by pat_completeness auto
termination by (relation "measure length") auto

declare quote_loop.simps [simp del]

definition go_quote :: "bytes \<Rightarrow> bytes" where
  "go_quote s = [DQ] @ quote_loop s @ [DQ]"

definition url_error :: "bytes \<Rightarrow> gerr" where
  "url_error s = Message (''parse '' @ go_quote s)"

definition absolute_http :: "url \<Rightarrow> bool" where
  "absolute_http u \<longleftrightarrow> (Scheme u = ''http'' \<or> Scheme u = ''https'') \<and> Host u \<noteq> []"

definition Canonicalize :: "bytes \<Rightarrow> gerr + bytes" where
  "Canonicalize raw =
     (case url_parse raw of
        None \<Rightarrow> Inl (Wrap (''bad endpoint URL '' @ go_quote raw @ '': '') (url_error raw) [])
      | Some u \<Rightarrow>
          if \<not> absolute_http u
          then Inl (Message (''endpoint must be an absolute http(s) URL, got '' @ go_quote raw))
          else Inr (url_string (u\<lparr>Scheme := to_lower (Scheme u), Host := to_lower (Host u), Fragment := [],
                 Path := trim_suffix (Path u) ''/''\<rparr>)))"

definition requireHTTPS :: "bytes \<Rightarrow> gerr option" where
  "requireHTTPS raw =
     (case url_parse raw of
        None \<Rightarrow> Some (url_error raw)
      | Some u \<Rightarrow>
          if Scheme u = ''https'' \<or> IsLoopbackHost (Hostname u) then None
          else Some (Message (''discovered URL '' @ go_quote raw @ '' is not https'')))"

definition wellKnown :: "url \<Rightarrow> bytes \<Rightarrow> bytes \<Rightarrow> bytes" where
  "wellKnown origin sfx path =
     url_string (origin\<lparr>Path := ''/.well-known/'' @ sfx @ path, RawQuery := [], Fragment := []\<rparr>)"

section \<open>The canonical form\<close>

text \<open>the canonical form of an endpoint depends on a trailing slash in more than the slash.  An
  escaped slash in the path survives without a trailing slash, but with one the escaping is
  lost and the resource names another path; and of two trailing slashes one is left, so the
  canonical form is not stable.\<close>

theorem canonical_form_unstable:
  "Canonicalize ''https://h/a%2Fb'' = Inr ''https://h/a%2Fb'' \<and>
   Canonicalize ''https://h/a%2Fb/'' = Inr ''https://h/a/b'' \<and>
   Canonicalize ''https://h/a//'' = Inr ''https://h/a/'' \<and>
   Canonicalize ''https://h/a/'' = Inr ''https://h/a''"
  by (intro conjI) code_simp+

end
