(* ===== verification/Redact.thy ===== *)
theory Redact
  imports Prelude
begin

text \<open>
  Redaction of server-supplied text (\<open>pkg/redact/redact.go\<close>): the regular expression
  \<open>eyJ[\w-]{8,}(?:\.[\w-]+)+\<close> as a deterministic matcher (no class overlaps with what
  follows it, so greedy matching never backtracks) and the replacement of every leftmost
  match.  The lemmas show that no match is left in the result.
\<close>

definition word_char :: "char \<Rightarrow> bool" where
  "word_char c \<longleftrightarrow> is_digit c \<or> (0x41 \<le> byte c \<and> byte c \<le> (0x5A :: nat)) \<or>
     (0x61 \<le> byte c \<and> byte c \<le> (0x7A :: nat)) \<or> c = CHR ''_'' \<or> c = CHR ''-''"

text \<open>The length of the longest match of \<open>(?:\.[\w-]+)*\<close> at the front.\<close>

function groups_len :: "bytes \<Rightarrow> nat" where
  "groups_len s =
     (case s of
        [] \<Rightarrow> 0
      | c # cs \<Rightarrow>
          let w = takeWhile word_char cs in
          if c = CHR ''.'' \<and> w \<noteq> [] then Suc (length w) + groups_len (dropWhile word_char cs)
          else 0)"
  by pat_completeness auto
termination
  by (relation "measure length") (auto simp: le_imp_less_Suc length_dropWhile_le)

declare groups_len.simps [simp del]

text \<open>The length of the match of \<open>jwtRe\<close> at the front, if there is one.\<close>

definition jwt_match :: "bytes \<Rightarrow> nat option" where
  "jwt_match s =
     (if prefix ''eyJ'' s then
        let w = takeWhile word_char (drop 3 s); g = groups_len (dropWhile word_char (drop 3 s)) in
        if 8 \<le> length w \<and> g > 0 then Some (3 + length w + g) else None
      else None)"

definition marker :: bytes where
  "marker = ''[redacted JWT]''"

lemma jwt_match_pos: "jwt_match s = Some n \<Longrightarrow> 0 < n"
  by (auto simp: jwt_match_def Let_def split: if_splits)

lemma jwt_match_nonempty: "jwt_match s = Some n \<Longrightarrow> s \<noteq> []"
  by (auto simp: jwt_match_def split: if_splits)

lemma jwt_match_shorter: "jwt_match s = Some n \<Longrightarrow> length s - n < length s"
  using jwt_match_pos jwt_match_nonempty by (simp add: diff_less)

function replace_all :: "bytes \<Rightarrow> bytes" where
  "replace_all s =
     (case jwt_match s of
        Some n \<Rightarrow> marker @ replace_all (drop n s)
      | None \<Rightarrow> (case s of [] \<Rightarrow> [] | c # cs \<Rightarrow> c # replace_all cs))"
  by pat_completeness auto
termination
  by (relation "measure length") (auto dest: jwt_match_shorter)

declare replace_all.simps [simp del]

lemma replace_all_Nil [simp]: "replace_all [] = []"
  by (simp add: replace_all.simps jwt_match_def)

definition redact_tokens :: "bytes \<Rightarrow> bytes" where
  "redact_tokens s = (if \<not> sublist ''eyJ'' s then s else replace_all s)"

section \<open>Nothing JWT-shaped is left\<close>

definition jwt_free :: "bytes \<Rightarrow> bool" where
  "jwt_free s \<longleftrightarrow> (\<forall>i. jwt_match (drop i s) = None)"

lemma jwt_free_Nil [simp]: "jwt_free []"
  by (simp add: jwt_free_def jwt_match_def)

lemma jwt_free_Cons: "jwt_free (c # s) \<longleftrightarrow> jwt_match (c # s) = None \<and> jwt_free s"
  unfolding jwt_free_def
  by (metis drop0 drop_Suc_Cons not0_implies_Suc)

text \<open>What can follow inside a match: a byte that neither class accepts stops it.\<close>

definition stop_char :: "char \<Rightarrow> bool" where
  "stop_char c \<longleftrightarrow> \<not> word_char c \<and> c \<noteq> CHR ''.''"

lemma word_char_eyJ: "word_char (CHR ''e'')" "word_char (CHR ''y'')" "word_char (CHR ''J'')"
  by (simp_all add: word_char_def is_digit_def)

lemma groups_len_stop: "stop_char c \<Longrightarrow> groups_len (a @ c # b) = groups_len a"
proof (induction a rule: groups_len.induct)
  case (1 a)
  show ?case
  proof (cases a)
    case Nil
    with 1 show ?thesis by (simp add: groups_len.simps [of "[]"] groups_len.simps [of "c # b"] stop_char_def)
  next
    case (Cons x xs)
    note w = takeWhile_stop [of word_char c xs b] and d = dropWhile_stop [of word_char c xs b]
    show ?thesis
      using 1 Cons w d
      by (simp add: groups_len.simps [of "x # xs"] groups_len.simps [of "x # xs @ c # b"] stop_char_def Let_def)
  qed
qed

lemma jwt_match_stop:
  assumes "stop_char c"
  shows "jwt_match (a @ c # b) = jwt_match a"
proof (cases "prefix ''eyJ'' a")
  case True
  then obtain a' where a: "a = ''eyJ'' @ a'" by (auto simp: prefix_def)
  note w = takeWhile_stop [of word_char c a' b] and d = dropWhile_stop [of word_char c a' b]
  show ?thesis
    using assms w d by (simp add: jwt_match_def a groups_len_stop stop_char_def Let_def)
next
  case False
  moreover have "\<not> prefix ''eyJ'' (a @ c # b)"
  proof
    assume p: "prefix ''eyJ'' (a @ c # b)"
    with False obtain us where us: "''eyJ'' = a @ us" "prefix us (c # b)" unfolding prefix_append by blast
    with False have "us \<noteq> []" by auto
    with us(2) have "c \<in> set us" by (cases us) auto
    then have "c \<in> set ''eyJ''" unfolding us(1) by simp
    then have "word_char c" by (auto simp: word_char_eyJ)
    with assms show False by (simp add: stop_char_def)
  qed
  ultimately show ?thesis by (simp add: jwt_match_def)
qed

lemma groups_len_append: "0 < groups_len a \<Longrightarrow> 0 < groups_len (a @ b)"
proof (cases a)
  case (Cons x xs)
  assume "0 < groups_len a"
  then have "x = CHR ''.''" "takeWhile word_char xs \<noteq> []"
    by (auto simp: Cons groups_len.simps [of "x # xs"] Let_def split: if_splits)
  then have "takeWhile word_char (xs @ b) \<noteq> []" by (cases xs) (auto split: if_splits)
  then show ?thesis using \<open>x = CHR ''.''\<close>
    unfolding Cons append_Cons by (subst groups_len.simps) (simp add: Let_def)
qed (simp add: groups_len.simps)

lemma jwt_match_append: "jwt_match a \<noteq> None \<Longrightarrow> jwt_match (a @ b) \<noteq> None"
proof -
  assume m: "jwt_match a \<noteq> None"
  then obtain a' where a: "a = ''eyJ'' @ a'" by (auto simp: jwt_match_def prefix_def split: if_splits)
  from m have w: "8 \<le> length (takeWhile word_char a')" "0 < groups_len (dropWhile word_char a')"
    by (auto simp: a jwt_match_def Let_def split: if_splits)
  then obtain x xs where d: "dropWhile word_char a' = x # xs"
    by (cases "dropWhile word_char a'") (auto simp: groups_len.simps)
  then have x: "\<not> word_char x" using hd_dropWhile [of word_char a'] by simp
  have "a' = takeWhile word_char a' @ x # xs" using d by (metis takeWhile_dropWhile_id)
  then have "takeWhile word_char (a' @ b) = takeWhile word_char a'"
    "dropWhile word_char (a' @ b) = (x # xs) @ b"
    using x takeWhile_stop [of word_char x "takeWhile word_char a'" "xs @ b"]
      dropWhile_stop [of word_char x "takeWhile word_char a'" "xs @ b"]
    by (metis append.assoc append_Cons takeWhile_idem, metis append.assoc append_Cons append_Nil
        dropWhile_eq_Nil_conv set_takeWhileD)
  then show "jwt_match (a @ b) \<noteq> None"
    using w d groups_len_append [of "x # xs" b] by (simp add: a jwt_match_def Let_def)
qed

lemma replace_all_shape: "replace_all s = s \<or> (\<exists>k rest. replace_all s = take k s @ marker @ rest)"
proof (induction s rule: replace_all.induct)
  case (1 s)
  show ?case
  proof (cases "jwt_match s")
    case (Some n)
    then have "replace_all s = take 0 s @ marker @ replace_all (drop n s)"
      by (simp add: replace_all.simps [of s])
    then show ?thesis by blast
  next
    case None
    show ?thesis
    proof (cases s)
      case Nil
      with None show ?thesis by (simp add: replace_all.simps [of s])
    next
      case (Cons c cs)
      with None have r: "replace_all s = c # replace_all cs" by (simp add: replace_all.simps [of "c # cs"])
      from 1(1) [OF None Cons] show ?thesis
      proof
        assume "\<exists>k rest. replace_all cs = take k cs @ marker @ rest"
        then obtain k rest where "replace_all cs = take k cs @ marker @ rest" by blast
        then have "replace_all s = take (Suc k) s @ marker @ rest" using r by (simp add: Cons)
        then show ?thesis by blast
      qed (use r in \<open>simp add: Cons\<close>)
    qed
  qed
qed

lemma stop_bracket: "stop_char (CHR ''['')"
  by (simp add: stop_char_def word_char_def is_digit_def)

lemma jwt_free_marker: "jwt_free s \<Longrightarrow> jwt_free (marker @ s)"
  by (simp add: marker_def jwt_free_Cons jwt_match_def)

lemma replace_all_free: "jwt_free (replace_all s)"
proof (induction s rule: replace_all.induct)
  case (1 s)
  show ?case
  proof (cases "jwt_match s")
    case (Some n)
    then have "replace_all s = marker @ replace_all (drop n s)" by (simp add: replace_all.simps [of s])
    with 1 Some show ?thesis by (simp add: jwt_free_marker)
  next
    case None
    show ?thesis
    proof (cases s)
      case Nil
      with None show ?thesis by (simp add: replace_all.simps [of s])
    next
      case (Cons c cs)
      have "jwt_match (c # replace_all cs) = None"
        using replace_all_shape [of cs]
      proof
        assume "\<exists>k rest. replace_all cs = take k cs @ marker @ rest"
        then obtain k t where "replace_all cs = take k cs @ CHR ''['' # t"
          by (auto simp: marker_def)
        then have "jwt_match (c # replace_all cs) = jwt_match (c # take k cs)"
          using jwt_match_stop [OF stop_bracket, of "c # take k cs" t] by simp
        moreover have "jwt_match (c # take k cs) = None"
          using jwt_match_append [of "c # take k cs" "drop k cs"] None unfolding Cons by fastforce
        ultimately show ?thesis by simp
      qed (use None Cons in simp)
      with None Cons 1 show ?thesis by (simp add: replace_all.simps [of "c # cs"] jwt_free_Cons)
    qed
  qed
qed

lemma jwt_free_iff: "jwt_free s \<longleftrightarrow> replace_all s = s"
proof
  show "jwt_free s \<Longrightarrow> replace_all s = s"
  proof (induction s)
    case Nil
    then show ?case by (simp add: replace_all.simps jwt_match_def)
  next
    case (Cons c s)
    then show ?case by (simp add: jwt_free_Cons replace_all.simps [of "c # s"])
  qed
  show "replace_all s = s \<Longrightarrow> jwt_free s" using replace_all_free [of s] by simp
qed

lemma no_eyJ_free: "\<not> sublist ''eyJ'' s \<Longrightarrow> jwt_free s"
proof -
  assume h: "\<not> sublist ''eyJ'' s"
  have "\<not> prefix ''eyJ'' (drop i s)" for i
    using h by (meson prefix_imp_sublist sublist_drop sublist_order.order_trans)
  then show "jwt_free s" by (simp add: jwt_free_def jwt_match_def)
qed

lemma redact_tokens_free: "jwt_free (redact_tokens s)"
  by (simp add: redact_tokens_def replace_all_free no_eyJ_free)

text \<open>C38: redaction is complete and idempotent: at no position of the result does the
  pattern of a JWT match, and redacting again changes nothing.  The early return for text
  without \<open>eyJ\<close> changes no result.\<close>

theorem redaction_complete:
  "(\<nexists>i. jwt_match (drop i (redact_tokens s)) \<noteq> None) \<and>
   redact_tokens (redact_tokens s) = redact_tokens s \<and> redact_tokens s = replace_all s"
proof -
  have "jwt_free (redact_tokens s)" by (rule redact_tokens_free)
  moreover have "redact_tokens s = replace_all s"
    using no_eyJ_free [of s] by (auto simp: redact_tokens_def jwt_free_iff)
  ultimately show ?thesis
    by (metis jwt_free_def jwt_free_iff redact_tokens_def)
qed

end
