(* ===== verification/Render.thy ===== *)
theory Render
  imports Errors Redact
begin

text \<open>
  What the text of an upstream failure becomes before it reaches a log line or a JSON-RPC
  error (\<open>bodySummary\<close>, \<open>textualType\<close> and the \<open>Error\<close> methods of \<open>pkg/mcp/client.go\<close>):
  white space collapsed, tokens redacted, length bounded, invalid UTF-8 dropped.
\<close>

section \<open>Rendering failed responses\<close>

definition maxErrorBody :: nat where "maxErrorBody = 4096"
definition bodyLineLimit :: nat where "bodyLineLimit = 512"

definition textual_type :: "bytes \<Rightarrow> bool" where
  "textual_type ct =
     (let mt = to_lower (trim_space ct);
          mt' = (case cut_at (CHR '';'') mt of None \<Rightarrow> mt | Some (a, _) \<Rightarrow> trim_space a)
      in prefix ''text/'' mt' \<or> mt' = ''application/json'' \<or> suffix ''+json'' mt')"

definition ellipsis :: bytes where "ellipsis = [CHR 0xE2, CHR 0x80, CHR 0xA6]"

text \<open>\<open>sniff\<close> is \<open>http.DetectContentType\<close>, consulted only for an empty content type.\<close>

definition body_summary :: "(bytes \<Rightarrow> bytes) \<Rightarrow> bytes \<Rightarrow> bytes \<Rightarrow> bytes" where
  "body_summary sniff ctype body =
     (if body = [] then []
      else let ct = (if ctype = [] then sniff body else ctype) in
        if \<not> textual_type ct then ''<'' @ dec_nat (length body) @ '' bytes of '' @ ct @ ''>''
        else let s = redact_tokens (join '' '' (string_fields body));
                 s' = (if length s > bodyLineLimit then take bodyLineLimit s @ ellipsis else s)
             in to_valid_utf8 s')"

text \<open>\<open>Error()\<close> of every error value.\<close>

fun err_text :: "(bytes \<Rightarrow> bytes) \<Rightarrow> gerr \<Rightarrow> bytes" where
  "err_text sniff (Sentinel s) = s"
| "err_text sniff (Message s) = s"
| "err_text sniff (Wrap p e q) = p @ err_text sniff e @ q"
| "err_text sniff (Wrap2 a b) = err_text sniff a @ '' ('' @ err_text sniff b @ '')''"
| "err_text sniff (Joined a b) = err_text sniff a @ [LF] @ err_text sniff b"
| "err_text sniff (HTTPError st ct b) =
     ''upstream HTTP '' @ dec_nat st @
     (let s = body_summary sniff ct b in if s \<noteq> [] then '': '' @ s else [])"
| "err_text sniff (AuthError e) = ''auth: '' @ err_text sniff e"

section \<open>One bounded line\<close>

definition newline_char :: "char \<Rightarrow> bool" where
  "newline_char c \<longleftrightarrow> c = LF \<or> c = CR"

lemma space_len_newline: "newline_char c \<Longrightarrow> space_len space_seqs (c # s) > 0"
  by (auto simp: newline_char_def space_len_def space_seqs_def)

lemma fields_from_one_line:
  "list_all (\<lambda>c. \<not> newline_char c) acc \<Longrightarrow> f \<in> set (fields_from acc s) \<Longrightarrow> list_all (\<lambda>c. \<not> newline_char c) f"
proof (induction acc s arbitrary: f rule: fields_from.induct)
  case (1 acc s)
  show ?case
  proof (cases "s = []")
    case True
    with 1 show ?thesis by (simp add: list_all_iff split: if_splits)
  next
    case nonempty: False
    show ?thesis
    proof (cases "space_len space_seqs s > 0")
      case True
      with nonempty 1 show ?thesis
        by (auto simp: fields_from.simps [of acc s] list_all_iff split: if_splits)
    next
      case False
      then have "\<not> newline_char (hd s)"
        using nonempty space_len_newline [of "hd s" "tl s"] by auto
      with False nonempty 1 show ?thesis
        by (simp add: fields_from.simps [of acc s])
    qed
  qed
qed

lemma set_join: "set (join sep xs) \<subseteq> set sep \<union> \<Union> (set ` set xs)"
  by (induction sep xs rule: join.induct) auto

lemma set_replace_all: "set (replace_all s) \<subseteq> set s \<union> set marker"
proof (induction s rule: replace_all.induct)
  case (1 s)
  show ?case
  proof (cases "jwt_match s")
    case (Some n)
    then show ?thesis using 1(2) [OF Some] set_drop_subset [of n s]
      by (simp add: replace_all.simps [of s]) blast
  next
    case None
    then show ?thesis using 1(1) [OF None]
      by (cases s) (auto simp: replace_all.simps [of "_ # _"])
  qed
qed

lemma set_redact: "set (redact_tokens s) \<subseteq> set s \<union> set marker"
  using set_replace_all [of s] by (auto simp: redact_tokens_def)

lemma set_length_subst_invalid:
  "set (subst_invalid [] s) \<subseteq> set s \<and> length (subst_invalid [] s) \<le> length s"
proof (induction "[] :: bytes" s rule: subst_invalid.induct)
  case (1 s)
  show ?case
  proof (cases s)
    case s: (Cons c cs)
    show ?thesis
    proof (cases "rune_width s = 0")
      case True
      with 1 s show ?thesis by (auto simp: subst_invalid_junk simp del: rune_width.simps)
    next
      case False
      define n where "n = rune_width s"
      have "n \<le> length s" by (simp add: n_def rune_width_le)
      moreover have "subst_invalid [] s = take n s @ subst_invalid [] (drop n s)"
        using False by (simp add: n_def subst_invalid_rune)
      moreover have "set (subst_invalid [] (drop n s)) \<subseteq> set s"
          "length (subst_invalid [] (drop n s)) \<le> length s - n"
        using 1(2) False s set_drop_subset [of n s] by (auto simp: n_def simp del: rune_width.simps)
      ultimately show ?thesis using set_take_subset [of n s] by auto
    qed
  qed simp
qed

lemmas set_subst_invalid = set_length_subst_invalid [THEN conjunct1]
lemmas length_subst_invalid = set_length_subst_invalid [THEN conjunct2]

text \<open>The rendered text of a body, before invalid bytes are dropped.\<close>

definition collapsed :: "bytes \<Rightarrow> bytes" where
  "collapsed body = redact_tokens (join '' '' (string_fields body))"

definition cut_line :: "bytes \<Rightarrow> bytes" where
  "cut_line s = (if length s > bodyLineLimit then take bodyLineLimit s @ ellipsis else s)"

definition effective_type :: "(bytes \<Rightarrow> bytes) \<Rightarrow> bytes \<Rightarrow> bytes \<Rightarrow> bytes" where
  "effective_type sniff ctype body = (if ctype = [] then sniff body else ctype)"

lemma body_summary_textual:
  "textual_type (effective_type sniff ctype body) \<Longrightarrow>
     body_summary sniff ctype body = (if body = [] then [] else to_valid_utf8 (cut_line (collapsed body)))"
  by (simp add: body_summary_def effective_type_def collapsed_def cut_line_def Let_def)

lemma collapsed_one_line: "list_all (\<lambda>c. \<not> newline_char c) (collapsed body)"
proof -
  have f: "list_all (\<lambda>c. \<not> newline_char c) f" if "f \<in> set (string_fields body)" for f
    using fields_from_one_line [of "[]" f body] that by (simp add: string_fields_def)
  have m: "list_all (\<lambda>c. \<not> newline_char c) (marker @ '' '')"
    by (simp add: marker_def newline_char_def)
  show ?thesis
    unfolding list_all_iff
  proof
    fix c assume "c \<in> set (collapsed body)"
    then have "c \<in> set (join '' '' (string_fields body)) \<or> c \<in> set marker"
      using set_redact by (auto simp: collapsed_def)
    then have "c \<in> set (marker @ '' '') \<or> (\<exists>f \<in> set (string_fields body). c \<in> set f)"
      using set_join [of "'' ''" "string_fields body"] by auto
    with f m show "\<not> newline_char c" by (auto simp only: list_all_iff)
  qed
qed

lemma cut_line_one_line:
  assumes "list_all (\<lambda>c. \<not> newline_char c) s"
  shows "list_all (\<lambda>c. \<not> newline_char c) (cut_line s)"
proof -
  have "list_all (\<lambda>c. \<not> newline_char c) (take bodyLineLimit s @ drop bodyLineLimit s)" using assms by simp
  then have "list_all (\<lambda>c. \<not> newline_char c) (take bodyLineLimit s)" unfolding list_all_append ..
  moreover have "list_all (\<lambda>c. \<not> newline_char c) ellipsis" by (simp add: ellipsis_def newline_char_def)
  ultimately show ?thesis using assms by (simp add: cut_line_def)
qed

lemma length_cut_line: "length (cut_line s) \<le> bodyLineLimit + 3"
  by (simp add: cut_line_def ellipsis_def)

text \<open>what a textual upstream body contributes to a log record or to an error is one line
  (no line feed and no carriage return) of at most \<open>bodyLineLimit\<close> bytes and the three-byte
  ellipsis, whatever the body holds.\<close>

theorem body_summary_one_line:
  assumes "textual_type (effective_type sniff ctype body)"
  shows "length (body_summary sniff ctype body) \<le> bodyLineLimit + 3 \<and>
    (\<forall>c \<in> set (body_summary sniff ctype body). c \<noteq> LF \<and> c \<noteq> CR)"
proof -
  let ?t = "cut_line (collapsed body)"
  have "length (to_valid_utf8 ?t) \<le> bodyLineLimit + 3"
    using length_subst_invalid [of ?t] length_cut_line [of "collapsed body"] by (simp add: to_valid_utf8_def)
  moreover have "\<not> newline_char c" if "c \<in> set (to_valid_utf8 ?t)" for c
    using that set_subst_invalid [of ?t] cut_line_one_line [OF collapsed_one_line [of body]]
    by (auto simp: to_valid_utf8_def list_all_iff)
  ultimately show ?thesis
    by (simp add: body_summary_textual [OF assms] newline_char_def)
qed

theorem body_summary_one_line_witness:
  "length (body_summary (\<lambda>_. []) ''text/plain; charset=utf-8'' (''no'' @ [LF, CR] @ ''such tool'')) \<le> 515"
proof -
  have "textual_type ''text/plain; charset=utf-8''" by code_simp
  then show ?thesis
    using body_summary_one_line [of "\<lambda>_. []" "''text/plain; charset=utf-8''" "''no'' @ [LF, CR] @ ''such tool''"]
    by (simp add: bodyLineLimit_def effective_type_def)
qed

section \<open>What redaction guarantees after the cut\<close>

lemma jwt_free_prefix: "jwt_free (a @ b) \<Longrightarrow> jwt_free a"
  unfolding jwt_free_def
proof
  fix i assume h: "\<forall>i. jwt_match (drop i (a @ b)) = None"
  show "jwt_match (drop i a) = None"
  proof (cases "i \<le> length a")
    case True
    then show ?thesis using h [rule_format, of i] jwt_match_append [of "drop i a" b] by fastforce
  qed (simp add: jwt_match_def)
qed

lemma jwt_free_stop: "stop_char c \<Longrightarrow> jwt_free a \<Longrightarrow> jwt_free b \<Longrightarrow> jwt_free (a @ c # b)"
proof (induction a)
  case Nil
  have "jwt_match (c # b) = None" using jwt_match_stop [of c "[]" b] Nil(1) by (simp add: jwt_match_def)
  with Nil show ?case by (simp add: jwt_free_Cons)
next
  case (Cons x a)
  then have "jwt_match ((x # a) @ c # b) = None" using jwt_match_stop [of c "x # a" b]
    by (simp add: jwt_free_Cons)
  with Cons show ?case by (simp add: jwt_free_Cons)
qed

lemma jwt_free_cut_line: "jwt_free s \<Longrightarrow> jwt_free (cut_line s)"
proof -
  assume f: "jwt_free s"
  have "jwt_free (take bodyLineLimit s)" using f jwt_free_prefix [of "take bodyLineLimit s" "drop bodyLineLimit s"] by simp
  moreover have "jwt_free [CHR 0x80, CHR 0xA6]" by (simp add: jwt_free_Cons jwt_match_def)
  moreover have "stop_char (CHR 0xE2)" by (simp add: stop_char_def word_char_def is_digit_def)
  ultimately have "jwt_free (take bodyLineLimit s @ ellipsis)" unfolding ellipsis_def by (intro jwt_free_stop)
  with f show ?thesis by (simp add: cut_line_def)
qed

lemma subst_invalid_ascii_append:
  "is_ascii s \<Longrightarrow> subst_invalid repl (s @ t) = s @ subst_invalid repl t"
proof (induction s)
  case (Cons c s)
  then have "rune_width (c # s @ t) = 1" by (simp add: is_ascii_def Let_def)
  with Cons show ?case
    by (subst subst_invalid.simps) (simp add: is_ascii_def)
qed simp

lemma to_valid_ellipsis: "to_valid_utf8 ellipsis = ellipsis"
  by code_simp

lemma cut_line_valid: "is_ascii s \<Longrightarrow> to_valid_utf8 (cut_line s) = cut_line s"
proof -
  assume a: "is_ascii s"
  then have "is_ascii (take bodyLineLimit s)" by (auto simp: is_ascii_def dest: in_set_takeD)
  with a show ?thesis
    using to_valid_ellipsis
    by (simp add: cut_line_def to_valid_utf8_def subst_invalid_ascii subst_invalid_ascii_append)
qed

lemma fields_from_sub: "f \<in> set (fields_from acc s) \<Longrightarrow> set f \<subseteq> set acc \<union> set s"
proof (induction acc s arbitrary: f rule: fields_from.induct)
  case (1 acc s)
  show ?case
  proof (cases "s = []")
    case True
    with 1 show ?thesis by (simp split: if_splits)
  next
    case nonempty: False
    show ?thesis
    proof (cases "space_len space_seqs s > 0")
      case True
      with nonempty 1 show ?thesis using set_drop_subset [of "space_len space_seqs s" s]
        by (auto simp: fields_from.simps [of acc s] split: if_splits)
    next
      case False
      then have "set f \<subseteq> set (hd s # acc) \<union> set (tl s)"
        using 1 nonempty by (simp add: fields_from.simps [of acc s])
      then show ?thesis using nonempty by (cases s) auto
    qed
  qed
qed

lemma collapsed_ascii: "is_ascii body \<Longrightarrow> is_ascii (collapsed body)"
proof -
  assume a: "is_ascii body"
  have m: "is_ascii (marker @ '' '')" by (simp add: is_ascii_def marker_def)
  have "set (collapsed body) \<subseteq> set (marker @ '' '') \<union> set body"
    using set_redact [of "join '' '' (string_fields body)"] set_join [of "'' ''" "string_fields body"]
      fields_from_sub [of _ "[]" body]
    by (fastforce simp: collapsed_def string_fields_def)
  with a m show ?thesis by (auto simp only: is_ascii_def)
qed

text \<open>C37: an ASCII body of a textual type is rendered without anything JWT-shaped in it: the
  pattern of \<open>redact.Tokens\<close> matches at no position of the summary, cut or not.\<close>

theorem body_summary_redacted:
  assumes "textual_type (effective_type sniff ctype body)" and "is_ascii body"
  shows "\<nexists>i. jwt_match (drop i (body_summary sniff ctype body)) \<noteq> None"
proof -
  have "jwt_free (cut_line (collapsed body))"
    by (intro jwt_free_cut_line) (simp add: collapsed_def redact_tokens_free)
  then have "jwt_free (body_summary sniff ctype body)"
    using assms(2) by (simp add: body_summary_textual [OF assms(1)] cut_line_valid collapsed_ascii)
  then show ?thesis by (simp add: jwt_free_def)
qed

definition jwt_sample :: bytes where
  "jwt_sample = ''token eyJhbGciOiJIUzI1NiJ9.eyJzdWIiOiIxIn0 rejected''"

theorem body_summary_redacted_witness:
  "(\<nexists>i. jwt_match (drop i (body_summary (\<lambda>_. []) ''application/json'' jwt_sample)) \<noteq> None) \<and>
   body_summary (\<lambda>_. []) ''application/json'' jwt_sample = ''token [redacted JWT] rejected''"
proof -
  have "textual_type ''application/json''" "is_ascii jwt_sample" by code_simp+
  moreover have "body_summary (\<lambda>_. []) ''application/json'' jwt_sample = ''token [redacted JWT] rejected''"
    by code_simp
  ultimately show ?thesis
    using body_summary_redacted [of "\<lambda>_. []" "''application/json''" jwt_sample] by (simp add: effective_type_def)
qed

text \<open>a body that is not valid UTF-8 can still put a token on the line: redaction runs
  before the invalid bytes are dropped, so a byte that splits the token hides it from the
  pattern and its removal joins the token again.\<close>

theorem body_summary_rejoins_token:
  "body_summary (\<lambda>_. []) ''text/plain'' (''eyJhbGciOiJI'' @ [CHR 0xFF] @ ''.eyJzdWIiOiIx'') =
     ''eyJhbGciOiJI.eyJzdWIiOiIx'' \<and>
   jwt_match ''eyJhbGciOiJI.eyJzdWIiOiIx'' \<noteq> None"
proof
  show "body_summary (\<lambda>_. []) ''text/plain'' (''eyJhbGciOiJI'' @ [CHR 0xFF] @ ''.eyJzdWIiOiIx'') =
     ''eyJhbGciOiJI.eyJzdWIiOiIx''"
    by code_simp
  show "jwt_match ''eyJhbGciOiJI.eyJzdWIiOiIx'' \<noteq> None" by code_simp
qed

end
