(* ===== verification/Sse.thy ===== *)
theory Sse
  imports Errors
begin

text \<open>
  The server-sent-events reader (\<open>pkg/mcp/sse.go\<close>).  The buffered reader is the bytes still
  to come and the error the transport ends with (\<open>None\<close> for a clean end of file); how the
  bytes were cut into reads is invisible behind \<open>ReadBytes\<close>.  The lemmas relate the
  reading loop to a plain recursion over lines, and give the round trip with an encoder.
\<close>

section \<open>The reader\<close>

record event =
  ev_ID :: bytes
  ev_Data :: bytes

record sse_reader =
  rest :: bytes
  fail :: "gerr option"
  lastID :: bytes

definition new_sse_reader :: "bytes \<Rightarrow> gerr option \<Rightarrow> sse_reader" where
  "new_sse_reader b f = \<lparr>rest = b, fail = f, lastID = []\<rparr>"

definition end_error :: "sse_reader \<Rightarrow> gerr" where
  "end_error r = (case fail r of None \<Rightarrow> io_EOF | Some e \<Rightarrow> e)"

text \<open>\<open>bufio.Reader.ReadBytes('\n')\<close>: the line with its delimiter, or everything left with
  the error that ended the input.\<close>

definition read_bytes_LF :: "sse_reader \<Rightarrow> bytes \<times> gerr option \<times> sse_reader" where
  "read_bytes_LF r = (case cut_at LF (rest r) of
       Some (a, b) \<Rightarrow> (a @ [LF], None, r\<lparr>rest := b\<rparr>)
     | None \<Rightarrow> (rest r, Some (end_error r), r\<lparr>rest := []\<rparr>))"

definition trim_eol :: "bytes \<Rightarrow> bytes" where
  "trim_eol b = trim_suffix (trim_suffix b [LF]) [CR]"

definition read_line :: "sse_reader \<Rightarrow> (gerr + bytes) \<times> sse_reader" where
  "read_line r =
     (let (line, err, r') = read_bytes_LF r;
          err' = (case err of Some e \<Rightarrow> if err_is e io_EOF \<and> line \<noteq> [] then None else Some e
                            | None \<Rightarrow> None)
      in case err' of Some e \<Rightarrow> (Inl e, r') | None \<Rightarrow> (Inr (trim_eol line), r'))"

definition split_field :: "bytes \<Rightarrow> bytes \<times> bytes" where
  "split_field line = (case cut_at (CHR '':'') line of
       None \<Rightarrow> (line, [])
     | Some (f, v) \<Rightarrow> (f, (case v of c # v' \<Rightarrow> if c = CHR '' '' then v' else v | [] \<Rightarrow> v)))"

lemma read_line_shorter:
  "read_line r = (Inr l, r') \<Longrightarrow> length (rest r') < length (rest r)"
  by (auto simp: read_line_def read_bytes_LF_def Let_def split: option.splits prod.splits if_splits
      dest!: cut_at_Some)

text \<open>\<open>Next\<close>: one iteration of its loop per call, with the data buffer and the \<open>found\<close> flag.\<close>

function next_loop :: "sse_reader \<Rightarrow> bytes \<Rightarrow> bool \<Rightarrow> (gerr + event) \<times> sse_reader" where
  "next_loop r data found =
     (case read_line r of
        (Inl err, r') \<Rightarrow>
          if err_is err io_EOF \<and> found
          then (Inr \<lparr>ev_ID = lastID r', ev_Data = data\<rparr>, r') else (Inl err, r')
      | (Inr line, r') \<Rightarrow>
          if line = [] then
            (if \<not> found then next_loop r' data found
             else (Inr \<lparr>ev_ID = lastID r', ev_Data = data\<rparr>, r'))
          else if hd line = CHR '':'' then next_loop r' data found
          else
            (let (field, value) = split_field line in
             if field = ''data'' then
               next_loop r' ((if found then data @ [LF] else data) @ value) True
             else if field = ''id'' then
               next_loop (if NUL \<notin> set value then r'\<lparr>lastID := value\<rparr> else r') data found
             else next_loop r' data found))"
  by pat_completeness auto
termination
  by (relation "measure (\<lambda>(r, _, _). length (rest r))")
     (auto dest: read_line_shorter [OF sym])

declare next_loop.simps [simp del]

definition sse_next :: "sse_reader \<Rightarrow> (gerr + event) \<times> sse_reader" where
  "sse_next r = next_loop r [] False"

section \<open>The stream as a list of lines\<close>

text \<open>The lines \<open>readLine\<close> hands out one after the other.  With \<open>flush\<close> (the stream ends in
  a clean end of file) an unterminated last line counts; a transport error loses it.\<close>

definition stream_lines :: "bool \<Rightarrow> bytes \<Rightarrow> bytes list" where
  "stream_lines flush s =
     (let ls = split_after LF s
      in map trim_eol (if last ls = [] \<or> \<not> flush then butlast ls else ls))"

lemma stream_lines_Nil [simp]: "stream_lines flush [] = []"
  by (simp add: stream_lines_def)

lemma stream_lines_line:
  "LF \<notin> set l \<Longrightarrow> stream_lines flush (l @ LF # s) = trim_eol (l @ [LF]) # stream_lines flush s"
  by (simp add: stream_lines_def split_after_line Let_def)

lemma stream_lines_rest:
  "LF \<notin> set l \<Longrightarrow> l \<noteq> [] \<Longrightarrow> stream_lines flush l = (if flush then [trim_eol l] else [])"
  by (simp add: stream_lines_def split_after_rest Let_def)

abbreviation flushes :: "sse_reader \<Rightarrow> bool" where
  "flushes r \<equiv> err_is (end_error r) io_EOF"

lemma read_line_lines:
  "read_line r = (case stream_lines (flushes r) (rest r) of
       [] \<Rightarrow> (Inl (end_error r), r\<lparr>rest := []\<rparr>)
     | l # ls \<Rightarrow> (Inr l, snd (read_line r)))"
  "stream_lines (flushes r) (rest r) = l # ls \<Longrightarrow>
     stream_lines (flushes r) (rest (snd (read_line r))) = ls"
proof -
  consider (line) a b where "rest r = a @ LF # b" "LF \<notin> set a" | (last) "LF \<notin> set (rest r)"
    by (meson split_list_first)
  then have *: "read_line r = (case stream_lines (flushes r) (rest r) of
       [] \<Rightarrow> (Inl (end_error r), r\<lparr>rest := []\<rparr>) | l # ls \<Rightarrow> (Inr l, snd (read_line r))) \<and>
     (stream_lines (flushes r) (rest r) = l # ls \<longrightarrow>
      stream_lines (flushes r) (rest (snd (read_line r))) = ls)"
  proof cases
    case line
    then show ?thesis
      by (simp add: read_line_def read_bytes_LF_def cut_at_append stream_lines_line)
  next
    case last
    then have "cut_at LF (rest r) = None" by (simp add: cut_at_None)
    then show ?thesis using last
      by (cases "rest r = []")
         (simp_all add: read_line_def read_bytes_LF_def stream_lines_rest end_error_def)
  qed
  show "read_line r = (case stream_lines (flushes r) (rest r) of
       [] \<Rightarrow> (Inl (end_error r), r\<lparr>rest := []\<rparr>) | l # ls \<Rightarrow> (Inr l, snd (read_line r)))"
    using * by blast
  show "stream_lines (flushes r) (rest r) = l # ls \<Longrightarrow>
     stream_lines (flushes r) (rest (snd (read_line r))) = ls"
    using * by blast
qed

lemma read_line_frame [frame]:
  "lastID (snd (read_line r)) = lastID r" "fail (snd (read_line r)) = fail r"
  "end_error (snd (read_line r)) = end_error r"
  by (auto simp: read_line_def read_bytes_LF_def Let_def end_error_def split: option.splits)

section \<open>The specification: events from lines\<close>

text \<open>One line changes the stream id and the pending event (\<open>None\<close>: no data yet).\<close>

definition field_step :: "bytes \<Rightarrow> bytes \<times> bytes option \<Rightarrow> bytes \<times> bytes option" where
  "field_step line st =
     (let (field, value) = split_field line; (i, acc) = st in
      if hd line = CHR '':'' then st
      else if field = ''data'' then
        (i, Some (case acc of None \<Rightarrow> value | Some d \<Rightarrow> d @ [LF] @ value))
      else if field = ''id'' \<and> NUL \<notin> set value then (value, acc)
      else st)"

fun sse_spec :: "bool \<Rightarrow> bytes \<times> bytes option \<Rightarrow> bytes list \<Rightarrow> event list" where
  "sse_spec flush (i, acc) [] =
     (case acc of Some d \<Rightarrow> if flush then [\<lparr>ev_ID = i, ev_Data = d\<rparr>] else [] | None \<Rightarrow> [])"
| "sse_spec flush (i, acc) (line # ls) =
     (if line = [] then
        (case acc of Some d \<Rightarrow> \<lparr>ev_ID = i, ev_Data = d\<rparr> # sse_spec flush (i, None) ls
                   | None \<Rightarrow> sse_spec flush (i, None) ls)
      else sse_spec flush (field_step line (i, acc)) ls)"

text \<open>One line read by \<open>Next\<close> is one \<open>field_step\<close> on the state it keeps in \<open>lastID\<close>,
  \<open>data\<close> and \<open>found\<close>.\<close>

abbreviation pending :: "bytes \<Rightarrow> bool \<Rightarrow> bytes option" where
  "pending data found \<equiv> (if found then Some data else None)"

lemma next_loop_line:
  assumes r: "read_line r = (Inr line, r0)" "line \<noteq> []" and d: "\<not> found \<longrightarrow> data = []"
  obtains r1 data1 found1 where "next_loop r data found = next_loop r1 data1 found1"
    "rest r1 = rest r0" "end_error r1 = end_error r0" "fail r1 = fail r0"
    "\<not> found1 \<longrightarrow> data1 = []"
    "field_step line (lastID r0, pending data found) = (lastID r1, pending data1 found1)"
proof -
  obtain f v where fv: "split_field line = (f, v)" by fastforce
  note [simp] = r(1) fv next_loop.simps [of r] field_step_def
  consider "hd line = CHR '':''" | "hd line \<noteq> CHR '':''" "f = ''data''"
    | "hd line \<noteq> CHR '':''" "f = ''id''" | "hd line \<noteq> CHR '':''" "f \<noteq> ''data''" "f \<noteq> ''id''"
    by blast
  then show thesis
  proof cases
    case 1
    with r(2) d show thesis by (intro that [of r0 data found]) auto
  next
    case 2
    with r(2) d show thesis
      by (intro that [of r0 "(if found then data @ [LF] else data) @ v" True]) auto
  next
    case 3
    with r(2) d show thesis
      by (intro that [of "if NUL \<notin> set v then r0\<lparr>lastID := v\<rparr> else r0" data found])
         (auto simp: end_error_def)
  next
    case 4
    with r(2) d show thesis by (intro that [of r0 data found]) auto
  qed
qed

text \<open>\<open>Next\<close> delivers the first event of the specification and leaves the stream where the
  specification continues; without an event it ends in the error of the input.\<close>

abbreviation ahead :: "sse_reader \<Rightarrow> bytes option \<Rightarrow> event list" where
  "ahead r p \<equiv> sse_spec (flushes r) (lastID r, p) (stream_lines (flushes r) (rest r))"

definition next_meets :: "sse_reader \<Rightarrow> bytes \<Rightarrow> bool \<Rightarrow> bool" where
  "next_meets r data found \<longleftrightarrow>
     (case next_loop r data found of
        (Inr ev, r') \<Rightarrow>
          ahead r (pending data found) = ev # ahead r' None
          \<and> fail r' = fail r \<and> length (rest r') \<le> length (rest r)
          \<and> (\<not> found \<longrightarrow> length (rest r') < length (rest r))
      | (Inl e, r') \<Rightarrow> ahead r (pending data found) = [] \<and> e = end_error r)"

text \<open>A line that does not end the event moves the reader on, and the specification with it.\<close>

lemma next_meets_step:
  assumes "next_loop r data found = next_loop r1 data1 found1" "length (rest r1) < length (rest r)"
    and "fail r1 = fail r" "end_error r1 = end_error r"
    and "ahead r (pending data found) = ahead r1 (pending data1 found1)" "next_meets r1 data1 found1"
  shows "next_meets r data found"
proof -
  obtain res r2 where n: "next_loop r1 data1 found1 = (res, r2)" by fastforce
  show ?thesis using assms unfolding next_meets_def assms(1) n by (cases res) auto
qed

lemma next_loop_meets: "\<not> found \<longrightarrow> data = [] \<Longrightarrow> next_meets r data found"
proof (induction "length (rest r)" arbitrary: r data found rule: less_induct)
  case less
  show ?case
  proof (cases "stream_lines (flushes r) (rest r)")
    case Nil
    then have "read_line r = (Inl (end_error r), r\<lparr>rest := []\<rparr>)"
      using read_line_lines(1) [of r] by simp
    with Nil show ?thesis by (cases "flushes r") (simp_all add: next_meets_def next_loop.simps [of r])
  next
    case (Cons line ls)
    define r0 where "r0 = snd (read_line r)"
    have rl: "read_line r = (Inr line, r0)"
      using read_line_lines(1) [of r] Cons by (simp add: r0_def)
    have r0: "stream_lines (flushes r) (rest r0) = ls" "lastID r0 = lastID r" "fail r0 = fail r"
        "end_error r0 = end_error r"
      using read_line_lines(2) [OF Cons] by (simp_all add: r0_def read_line_frame)
    have shorter: "length (rest r0) < length (rest r)" using read_line_shorter [OF rl] .
    consider (event) "line = []" found | (blank) "line = []" "\<not> found" | (field) "line \<noteq> []" by blast
    then show ?thesis
    proof cases
      case event
      with rl r0 shorter Cons show ?thesis by (simp add: next_meets_def next_loop.simps [of r])
    next
      case blank
      have "next_loop r data found = next_loop r0 data found"
        using rl blank by (simp add: next_loop.simps [of r])
      from next_meets_step [OF this shorter r0(3,4) _ less.hyps [OF shorter less.prems]]
      show ?thesis using blank r0 Cons less.prems by simp
    next
      case field
      obtain r1 data1 found1 where s: "next_loop r data found = next_loop r1 data1 found1"
        "rest r1 = rest r0" "end_error r1 = end_error r0" "fail r1 = fail r0" "\<not> found1 \<longrightarrow> data1 = []"
        "field_step line (lastID r0, pending data found) = (lastID r1, pending data1 found1)"
        using next_loop_line [OF rl field less.prems] by metis
      have lt: "length (rest r1) < length (rest r)" using s(2) shorter by simp
      show ?thesis
        by (rule next_meets_step [OF s(1) lt _ _ _ less.hyps [OF lt s(5)]]) (use s r0 Cons field in simp_all)
    qed
  qed
qed

lemmas next_loop_spec = next_loop_meets [unfolded next_meets_def]

text \<open>The loop around \<open>Next\<close> that both stream consumers run: all events up to the error.\<close>

lemma sse_next_shorter: "sse_next r = (Inr ev, r') \<Longrightarrow> length (rest r') < length (rest r)"
  using next_loop_spec [of False "[]" r] by (simp add: sse_next_def)

function read_events :: "sse_reader \<Rightarrow> event list \<times> gerr \<times> sse_reader" where
  "read_events r =
     (case sse_next r of
        (Inl e, r') \<Rightarrow> ([], e, r')
      | (Inr ev, r') \<Rightarrow> (let (evs, e, r'') = read_events r' in (ev # evs, e, r'')))"
  by pat_completeness auto
termination
  by (relation "measure (\<lambda>r. length (rest r))") (auto dest: sse_next_shorter [OF sym])

declare read_events.simps [simp del]

lemma read_events_lines:
  "fst (read_events r) = sse_spec (flushes r) (lastID r, None) (stream_lines (flushes r) (rest r)) \<and>
   fst (snd (read_events r)) = end_error r"
proof (induction r rule: read_events.induct)
  case (1 r)
  note spec = next_loop_spec [of False "[]" r]
  show ?case
  proof (cases "sse_next r")
    case (Pair res r')
    show ?thesis
    proof (cases res)
      case (Inl e)
      with Pair spec show ?thesis by (simp add: read_events.simps [of r] sse_next_def)
    next
      case (Inr ev)
      with Pair "1" have IH: "fst (read_events r') = ahead r' None"
        "fst (snd (read_events r')) = end_error r'" by simp_all
      from Pair Inr spec have r': "fail r' = fail r" and first: "ahead r None = ev # ahead r' None"
        by (simp_all add: sse_next_def)
      have "end_error r' = end_error r" by (simp add: end_error_def r')
      with Pair Inr IH first show ?thesis
        by (cases "read_events r'") (simp add: read_events.simps [of r])
    qed
  qed
qed

text \<open>C34: reading a stream event by event delivers exactly the events of the line-by-line
  specification, in order, and ends in the error the input ends with (end of file for a
  clean close); an event cut off by a transport error is not delivered.\<close>

theorem read_events_spec:
  "fst (read_events r) = sse_spec (flushes r) (lastID r, None) (stream_lines (flushes r) (rest r)) \<and>
   fst (snd (read_events r)) = end_error r"
  by (rule read_events_lines)

section \<open>Round trip with an encoder\<close>

text \<open>A server's rendering of an event with a given line end: an \<open>id:\<close> line, one \<open>data:\<close> line
  per line of the payload, a blank line.\<close>

definition id_field :: bytes where "id_field = ''id: ''"
definition data_field :: bytes where "data_field = ''data: ''"

definition encode_event :: "bytes \<Rightarrow> event \<Rightarrow> bytes" where
  "encode_event eol ev =
     id_field @ ev_ID ev @ eol @
     concat (map (\<lambda>l. data_field @ l @ eol) (split_on LF (ev_Data ev))) @ eol"

text \<open>What an event needs to survive: an id of one line without NUL, and, when lines end in a
  bare line feed, no line ending in a carriage return (which the reader takes for part of
  the line end).\<close>

definition line_safe :: "bytes \<Rightarrow> bytes \<Rightarrow> bool" where
  "line_safe eol l \<longleftrightarrow> LF \<notin> set l \<and> (eol = [LF] \<longrightarrow> \<not> suffix [CR] l)"

definition event_ok :: "bytes \<Rightarrow> event \<Rightarrow> bool" where
  "event_ok eol ev \<longleftrightarrow> line_safe eol (ev_ID ev) \<and> NUL \<notin> set (ev_ID ev) \<and>
     list_all (line_safe eol) (split_on LF (ev_Data ev))"

definition line_end :: "bytes \<Rightarrow> bool" where
  "line_end eol \<longleftrightarrow> eol = [LF] \<or> eol = [CR, LF]"

lemma stream_lines_eol:
  assumes "line_end eol" and "line_safe eol l"
  shows "stream_lines flush (l @ eol @ s) = l # stream_lines flush s"
proof -
  have l: "LF \<notin> set l" using assms(2) by (simp add: line_safe_def)
  from assms(1) consider "eol = [LF]" | "eol = [CR, LF]" by (auto simp: line_end_def)
  then show ?thesis
  proof cases
    case 1
    with assms(2) l show ?thesis
      by (simp add: stream_lines_line trim_eol_def line_safe_def trim_suffix_id)
  next
    case 2
    have "trim_suffix ((l @ [CR]) @ [LF]) [LF] = l @ [CR]" by (rule trim_suffix_append)
    then have "trim_eol (l @ [CR, LF]) = l" by (simp add: trim_eol_def)
    with 2 l stream_lines_line [of "l @ [CR]" flush s] show ?thesis by simp
  qed
qed

lemma split_on_no_sep: "l \<in> set (split_on c s) \<Longrightarrow> c \<notin> set l"
proof (induction s arbitrary: l)
  case (Cons x s)
  obtain p ps where "split_on c s = p # ps" by (metis split_on_nonempty list.exhaust)
  with Cons show ?case by (auto split: if_splits)
qed simp

lemma line_safe_prefix: "CR \<noteq> last p \<Longrightarrow> p \<noteq> [] \<Longrightarrow> LF \<notin> set p \<Longrightarrow> line_safe eol l \<Longrightarrow> line_safe eol (p @ l)"
  by (cases l rule: rev_cases) (auto simp: line_safe_def suffix_singleton_iff)

lemma stream_lines_encode:
  assumes "line_end eol" and "event_ok eol ev"
  shows "stream_lines flush (encode_event eol ev @ s) =
    (id_field @ ev_ID ev) # map (\<lambda>l. data_field @ l) (split_on LF (ev_Data ev)) @ [] # stream_lines flush s"
proof -
  have data: "stream_lines flush (concat (map (\<lambda>l. data_field @ l @ eol) ls) @ t) =
      map (\<lambda>l. data_field @ l) ls @ stream_lines flush t" if "list_all (line_safe eol) ls" for ls t
    using that
  proof (induction ls)
    case (Cons l ls)
    then have "line_safe eol (data_field @ l)" by (intro line_safe_prefix) (auto simp: data_field_def)
    with Cons stream_lines_eol [OF assms(1), of "data_field @ l"] show ?case by simp
  qed simp
  have "line_safe eol (id_field @ ev_ID ev)"
    using assms(2) by (intro line_safe_prefix) (auto simp: event_ok_def id_field_def)
  moreover have "line_safe eol []" by (simp add: line_safe_def)
  ultimately show ?thesis
    using assms stream_lines_eol [OF assms(1), of "id_field @ ev_ID ev"] stream_lines_eol [OF assms(1), of "[]"]
    by (simp add: encode_event_def event_ok_def data)
qed

lemma field_step_id: "NUL \<notin> set v \<Longrightarrow> field_step (id_field @ v) (i, acc) = (v, acc)"
  using cut_at_append [of "CHR '':''" "''id''" "CHR '' '' # v"]
  by (simp add: field_step_def split_field_def id_field_def)

lemma field_step_data:
  "field_step (data_field @ v) (i, acc) = (i, Some (case acc of None \<Rightarrow> v | Some d \<Rightarrow> d @ [LF] @ v))"
  using cut_at_append [of "CHR '':''" "''data''" "CHR '' '' # v"]
  by (simp add: field_step_def split_field_def data_field_def)

lemma field_nonempty [simp]: "id_field \<noteq> []" "data_field \<noteq> []"
  by (simp_all add: id_field_def data_field_def)

lemma sse_spec_data:
  "ls \<noteq> [] \<Longrightarrow> sse_spec flush (i, acc) (map (\<lambda>l. data_field @ l) ls @ t) =
     sse_spec flush (i, Some (case acc of None \<Rightarrow> join [LF] ls | Some d \<Rightarrow> d @ [LF] @ join [LF] ls)) t"
proof (induction ls arbitrary: acc)
  case (Cons l ls)
  then show ?case
    using field_step_data [of l i acc] by (cases ls) (simp_all split: option.splits)
qed simp

lemma sse_spec_event:
  assumes "NUL \<notin> set (ev_ID ev)"
  shows "sse_spec flush (i, None) ((id_field @ ev_ID ev) #
      map (\<lambda>l. data_field @ l) (split_on LF (ev_Data ev)) @ [] # ls)
    = ev # sse_spec flush (ev_ID ev, None) ls"
  using assms field_step_id [of "ev_ID ev" i None]
  by (simp add: sse_spec_data join_split_on)

text \<open>C35: what a server writes as events, with LF or with CRLF line ends and with payloads of
  any number of lines, is what the reader delivers: ids, payloads and order.\<close>

theorem sse_roundtrip:
  assumes "line_end eol" and "list_all (event_ok eol) evs"
  shows "fst (read_events (new_sse_reader (concat (map (encode_event eol) evs)) None)) = evs \<and>
    fst (snd (read_events (new_sse_reader (concat (map (encode_event eol) evs)) None))) = io_EOF"
proof -
  have spec: "sse_spec flush (i, None) (stream_lines flush (concat (map (encode_event eol) evs))) = evs" for flush i
    using assms(2)
  proof (induction evs arbitrary: i)
    case (Cons ev evs)
    then have "NUL \<notin> set (ev_ID ev)" by (simp add: event_ok_def)
    with Cons show ?case
      using stream_lines_encode [OF assms(1), of ev flush "concat (map (encode_event eol) evs)"]
      by (simp add: sse_spec_event del: sse_spec.simps)
  qed simp
  let ?r = "new_sse_reader (concat (map (encode_event eol) evs)) None"
  show ?thesis
    using spec read_events_lines [of ?r] by (simp add: new_sse_reader_def end_error_def)
qed

abbreviation sample_events :: "event list" where
  "sample_events \<equiv> [\<lparr>ev_ID = ''7'', ev_Data = ''{'' @ [LF] @ ''}''\<rparr>, \<lparr>ev_ID = [], ev_Data = []\<rparr>]"

theorem sse_roundtrip_witness:
  "list_all (event_ok [CR, LF]) sample_events \<and>
   fst (read_events (new_sse_reader (concat (map (encode_event [CR, LF]) sample_events)) None)) = sample_events"
proof -
  have e: "line_end [CR, LF]" by (simp add: line_end_def)
  have ok: "list_all (event_ok [CR, LF]) sample_events" by code_simp
  show ?thesis using ok sse_roundtrip [OF e ok] by blast
qed

section \<open>Ids\<close>

lemma set_trim_eol: "set (trim_eol b) \<subseteq> set b"
  unfolding trim_eol_def using set_trim_suffix subset_trans by meson

lemma stream_lines_no_LF: "l \<in> set (stream_lines flush s) \<Longrightarrow> LF \<notin> set l"
proof -
  assume "l \<in> set (stream_lines flush s)"
  then obtain x where x: "x \<in> set (split_after LF s)" "l = trim_eol x"
    by (auto simp: stream_lines_def Let_def split: if_splits dest: in_set_butlastD)
  obtain body y where b: "split_after LF s = map (\<lambda>x. x @ [LF]) body @ [y]" "LF \<notin> set y"
      "\<forall>x \<in> set body. LF \<notin> set x"
    using split_after_lines [of LF s] by (elim exE conjE) (rule that)
  from x(1) b consider "x = y" | z where "x = z @ [LF]" "LF \<notin> set z" by auto
  then show ?thesis
  proof cases
    case 1
    with x(2) b(2) show ?thesis using set_trim_eol [of y] by (meson subsetD)
  next
    case 2
    then have "l = trim_suffix z [CR]" using x(2) by (simp add: trim_eol_def)
    with 2 show ?thesis using set_trim_suffix [of z "[CR]"] by (meson subsetD)
  qed
qed

lemma field_step_id_clean:
  "NUL \<notin> set i \<Longrightarrow> LF \<notin> set i \<Longrightarrow> LF \<notin> set line \<Longrightarrow> field_step line (i, acc) = (i', acc') \<Longrightarrow>
   NUL \<notin> set i' \<and> LF \<notin> set i'"
  by (auto simp: field_step_def split_field_def Let_def split: if_splits option.splits list.splits
      dest!: cut_at_Some)

lemma sse_spec_ids:
  "NUL \<notin> set i \<Longrightarrow> LF \<notin> set i \<Longrightarrow> \<forall>l \<in> set ls. LF \<notin> set l \<Longrightarrow>
   list_all (\<lambda>ev. NUL \<notin> set (ev_ID ev) \<and> LF \<notin> set (ev_ID ev)) (sse_spec flush (i, acc) ls)"
proof (induction ls arbitrary: i acc)
  case Nil
  then show ?case by (simp split: option.splits)
next
  case (Cons l ls)
  show ?case
  proof (cases "l = []")
    case True
    with Cons show ?thesis by (simp split: option.splits)
  next
    case False
    obtain i' acc' where f: "field_step l (i, acc) = (i', acc')" by fastforce
    have "LF \<notin> set l" using Cons.prems(3) by simp
    from field_step_id_clean [OF Cons.prems(1,2) this f]
    have "NUL \<notin> set i' \<and> LF \<notin> set i'" .
    with False f Cons show ?thesis by simp
  qed
qed

text \<open>no event id the reader delivers holds a NUL byte or a line feed, whatever the server
  sends, so the id can be echoed in a \<open>Last-Event-ID\<close> header line.\<close>

theorem event_ids_clean:
  "list_all (\<lambda>ev. NUL \<notin> set (ev_ID ev) \<and> LF \<notin> set (ev_ID ev)) (fst (read_events (new_sse_reader b f)))"
proof -
  let ?r = "new_sse_reader b f"
  have eq: "fst (read_events ?r) = sse_spec (flushes ?r) ([], None) (stream_lines (flushes ?r) b)"
    using read_events_lines [of ?r] by (simp add: new_sse_reader_def)
  have "\<forall>l \<in> set (stream_lines (flushes ?r) b). LF \<notin> set l"
    by (intro ballI, rule stream_lines_no_LF)
  then show ?thesis unfolding eq by (intro sse_spec_ids) simp_all
qed

text \<open>an event whose only data line is empty is delivered with an empty payload, although
  \<open>Next\<close> is documented to return events with non-empty data.\<close>

theorem empty_payload_delivered:
  "fst (read_events (new_sse_reader (''data:'' @ [LF, LF]) None)) = [\<lparr>ev_ID = [], ev_Data = []\<rparr>]"
  by code_simp

end
