(* ===== verification/Client.thy ===== *)
theory Client
  imports Render Json Sse
begin

text \<open>
  The HTTP side of the bridge (\<open>pkg/mcp/client.go\<close>).  The network and the token provider are
  parameters (record \<open>net\<close>): functions of the request, resp. of the rejected token and the
  challenge, over an arbitrary world state.  The client record is extensible, so the bridge
  that owns a client extends it; an operation takes the state and returns it, and a
  \<open>deliver\<close> callback is a function on that state.
\<close>

section \<open>Headers, requests, responses\<close>

text \<open>\<open>textproto.CanonicalMIMEHeaderKey\<close>: words split by \<open>-\<close> are capitalised; a key with a byte
  that no header name may have is left as it is.\<close>

definition header_byte :: "char \<Rightarrow> bool" where
  "header_byte c \<longleftrightarrow> is_digit c \<or> (0x41 \<le> byte c \<and> byte c \<le> (0x5A :: nat)) \<or>
     (0x61 \<le> byte c \<and> byte c \<le> (0x7A :: nat)) \<or>
     c \<in> set ''!#$%&*+-.^_`|~'' \<or> c = CHR 0x27"

definition upper_char :: "char \<Rightarrow> char" where
  "upper_char c = (if 0x61 \<le> byte c \<and> byte c \<le> (0x7A :: nat) then char_of (byte c - 32 :: nat) else c)"

fun canon_loop :: "bool \<Rightarrow> bytes \<Rightarrow> bytes" where
  "canon_loop up [] = []"
| "canon_loop up (c # cs) =
     (if up then upper_char c else lower_char c) # canon_loop (c = CHR ''-'') cs"

definition canon_key :: "bytes \<Rightarrow> bytes" where
  "canon_key k = (if list_all header_byte k then canon_loop True k else k)"

type_synonym header = "bytes \<Rightarrow> bytes list"

definition hget :: "header \<Rightarrow> bytes \<Rightarrow> bytes" where
  "hget h k = (case h (canon_key k) of [] \<Rightarrow> [] | v # _ \<Rightarrow> v)"

definition hset :: "header \<Rightarrow> bytes \<Rightarrow> bytes \<Rightarrow> header" where
  "hset h k v = h(canon_key k := [v])"

definition hadd :: "header \<Rightarrow> bytes \<Rightarrow> bytes \<Rightarrow> header" where
  "hadd h k v = h(canon_key k := h (canon_key k) @ [v])"

abbreviation no_header :: header where "no_header \<equiv> (\<lambda>_. [])"

record http_request =
  rq_method :: bytes
  rq_url :: bytes
  rq_header :: header
  rq_body :: bytes

record http_response =
  rs_status :: nat
  rs_header :: header
  rs_body :: bytes
  rs_fail :: "gerr option"    \<comment> \<open>what reading the body ends with; \<open>None\<close>: end of file\<close>

definition content_type :: "http_response \<Rightarrow> bytes" where
  "content_type resp = hget (rs_header resp) ''Content-Type''"

text \<open>What the client is connected to: \<open>http.Client.Do\<close>, the token provider (\<open>None\<close> for a nil
  \<open>Tokens\<close>), and the error \<open>http.NewRequest\<close> has for the endpoint, if any.\<close>

record 'w net =
  http_do :: "http_request \<Rightarrow> 'w \<Rightarrow> (gerr + http_response) \<times> 'w"
  provider :: "(bytes \<Rightarrow> bytes \<Rightarrow> 'w \<Rightarrow> (gerr + bytes) \<times> 'w) option"
  request_error :: "gerr option"

record client =
  Endpoint :: bytes
  Headers :: "(bytes \<times> bytes list) list"
  sessionID :: bytes
  protocolVer :: bytes
  lastEventID :: bytes

section \<open>The debug line\<close>

text \<open>The debug line of \<open>logResponse\<close>.\<close>

definition response_line :: "(bytes \<Rightarrow> bytes) \<Rightarrow> bytes \<Rightarrow> http_response \<Rightarrow> bytes \<Rightarrow> bytes" where
  "response_line sniff method resp body =
     (let ct = content_type resp;
          challenge = hget (rs_header resp) ''WWW-Authenticate'';
          s = body_summary sniff ct body
      in method @ [CHR '' '', CHR 0xE2, CHR 0x86, CHR 0x92, CHR '' ''] @ dec_nat (rs_status resp) @ '' '' @ ct @
         (if challenge \<noteq> [] then '', WWW-Authenticate: '' @ redact_tokens challenge else []) @
         (if s \<noteq> [] then '', body: '' @ s else []))"

section \<open>Session state and request preparation\<close>

definition clear_session :: "'a client_scheme \<Rightarrow> 'a client_scheme" where
  "clear_session c = c\<lparr>sessionID := [], lastEventID := []\<rparr>"

definition set_protocol_version :: "bytes \<Rightarrow> 'a client_scheme \<Rightarrow> 'a client_scheme" where
  "set_protocol_version v c = c\<lparr>protocolVer := v\<rparr>"

definition add_headers :: "(bytes \<times> bytes list) list \<Rightarrow> header \<Rightarrow> header" where
  "add_headers hs h = fold (\<lambda>(k, vs) h. fold (\<lambda>v h. hadd h k v) vs h) hs h"

definition prepare :: "'a client_scheme \<Rightarrow> bytes \<Rightarrow> http_request \<Rightarrow> http_request" where
  "prepare c token req =
     (let h0 = add_headers (Headers c) (rq_header req);
          h1 = (if token \<noteq> [] then hset h0 ''Authorization'' (''Bearer '' @ token) else h0);
          h2 = (if sessionID c \<noteq> [] then hset h1 ''Mcp-Session-Id'' (sessionID c) else h1);
          h3 = (if protocolVer c \<noteq> [] then hset h2 ''Mcp-Protocol-Version'' (protocolVer c) else h2)
      in req\<lparr>rq_header := h3\<rparr>)"

definition visible_ascii :: "char \<Rightarrow> bool" where
  "visible_ascii c \<longleftrightarrow> 0x21 \<le> byte c \<and> byte c \<le> (0x7E :: nat)"

definition capture_session :: "http_response \<Rightarrow> 'a client_scheme \<Rightarrow> 'a client_scheme" where
  "capture_session resp c =
     (let id = hget (rs_header resp) ''Mcp-Session-Id'' in
      if id = [] then c
      else if \<not> list_all visible_ascii id then c
      else c\<lparr>sessionID := id\<rparr>)"

section \<open>The 401 ladder\<close>

definition maxTokenCycles :: nat where "maxTokenCycles = 4"

definition token :: "'w net \<Rightarrow> bytes \<Rightarrow> bytes \<Rightarrow> 'w \<Rightarrow> (gerr + bytes) \<times> 'w" where
  "token net rejected challenge w =
     (case provider net of None \<Rightarrow> (Inr [], w) | Some p \<Rightarrow> p rejected challenge w)"

definition capture_body :: "http_response \<Rightarrow> bytes \<times> http_response" where
  "capture_body resp =
     (let body = take maxErrorBody (rs_body resp) in (body, resp\<lparr>rs_body := body, rs_fail := None\<rparr>))"

definition http_error :: "http_response \<Rightarrow> bytes \<Rightarrow> gerr" where
  "http_error resp body = HTTPError (rs_status resp) (content_type resp) body"

text \<open>The loop of \<open>doAuthed\<close>, and its prologue.\<close>

function do_authed_loop ::
  "'w net \<Rightarrow> bytes \<Rightarrow> (bytes \<Rightarrow> gerr + http_request) \<Rightarrow> bytes \<Rightarrow> nat \<Rightarrow> 'w \<Rightarrow> (gerr + http_response) \<times> 'w"
where
  "do_authed_loop net endpoint build tok attempt w =
     (case build tok of
        Inl e \<Rightarrow> (Inl e, w)
      | Inr req \<Rightarrow>
          (case http_do net req w of
             (Inl e, w1) \<Rightarrow> (Inl (Wrap (rq_method req @ '' '' @ endpoint @ '': '') e []), w1)
           | (Inr resp, w1) \<Rightarrow>
               if rs_status resp div 100 = 2 then (Inr resp, w1)
               else
                 let (body, resp') = capture_body resp in
                 if rs_status resp \<noteq> 401 \<or> provider net = None \<or> attempt \<ge> maxTokenCycles
                 then (Inr resp', w1)
                 else
                   let rejected = (if tok = [] then ''-'' else tok) in
                   (case token net rejected (hget (rs_header resp) ''WWW-Authenticate'') w1 of
                      (Inl terr, w2) \<Rightarrow> (Inl (AuthError (Wrap2 terr (http_error resp' body))), w2)
                    | (Inr next, w2) \<Rightarrow>
                        if next = tok then (Inr resp', w2)
                        else do_authed_loop net endpoint build next (Suc attempt) w2)))"
  by pat_completeness auto
termination
  by (relation "measure (\<lambda>(net, endpoint, build, tok, attempt, w). maxTokenCycles - attempt)") auto

declare do_authed_loop.simps [simp del]

definition do_authed ::
  "'w net \<Rightarrow> bytes \<Rightarrow> (bytes \<Rightarrow> gerr + http_request) \<Rightarrow> 'w \<Rightarrow> (gerr + http_response) \<times> 'w" where
  "do_authed net endpoint build w =
     (case token net [] [] w of
        (Inl err, w1) \<Rightarrow> (Inl (AuthError err), w1)
      | (Inr tok, w1) \<Rightarrow> do_authed_loop net endpoint build tok 0 w1)"

section \<open>Posting a message\<close>

definition new_request :: "'w net \<Rightarrow> bytes \<Rightarrow> bytes \<Rightarrow> bytes \<Rightarrow> gerr + http_request" where
  "new_request net method url body =
     (case request_error net of
        Some e \<Rightarrow> Inl e
      | None \<Rightarrow> Inr \<lparr>rq_method = method, rq_url = url, rq_header = no_header, rq_body = body\<rparr>)"

definition build_post :: "'w net \<Rightarrow> 'a client_scheme \<Rightarrow> bytes \<Rightarrow> bytes \<Rightarrow> gerr + http_request" where
  "build_post net c payload tok =
     map_sum id (\<lambda>req. prepare c tok
         (req\<lparr>rq_header := hset (hset (rq_header req) ''Content-Type'' ''application/json'')
                ''Accept'' ''application/json, text/event-stream''\<rparr>))
       (new_request net ''POST'' (Endpoint c) payload)"

definition deliver_compact :: "bytes \<Rightarrow> (bytes \<Rightarrow> 's \<Rightarrow> 's) \<Rightarrow> 's \<Rightarrow> bool \<times> 's" where
  "deliver_compact data deliver s =
     (if LF \<notin> set data \<and> json_valid data then (True, deliver data s)
      else case json_compact data of
             None \<Rightarrow> (False, s)
           | Some out \<Rightarrow> (True, deliver out s))"

text \<open>The stream loops hand over each event as it is read; reading does not depend on the
  state the callback changes, so the events are a list here.\<close>

definition deliver_events :: "event list \<Rightarrow> (bytes \<Rightarrow> 's \<Rightarrow> 's) \<Rightarrow> 's \<Rightarrow> 's" where
  "deliver_events evs deliver s = fold (\<lambda>ev s. snd (deliver_compact (ev_Data ev) deliver s)) evs s"

definition consume_post ::
  "http_response \<Rightarrow> (bytes \<Rightarrow> 'a client_scheme \<Rightarrow> 'a client_scheme) \<Rightarrow> 'a client_scheme
     \<Rightarrow> gerr option \<times> 'a client_scheme" where
  "consume_post resp deliver c =
     (let c1 = capture_session resp c in
      if rs_status resp = 202 then (None, c1)
      else if rs_status resp div 100 \<noteq> 2 then
        (let (body, resp') = capture_body resp in (Some (http_error resp' body), c1))
      else if prefix ''text/event-stream'' (content_type resp) then
        (let (evs, err, _) = read_events (new_sse_reader (rs_body resp) (rs_fail resp));
             c2 = deliver_events evs deliver c1
         in (if err_is err io_EOF then None else Some (Wrap ''reading POST stream: '' err []), c2))
      else
        (case rs_fail resp of
           Some err \<Rightarrow> (Some (Wrap ''reading response: '' err []), c1)
         | None \<Rightarrow>
             if trim_space (rs_body resp) = [] then (None, c1)
             else let (ok, c2) = deliver_compact (rs_body resp) deliver c1 in
               if ok then (None, c2)
               else (Some (Message (''upstream sent an invalid JSON body ('' @
                       dec_nat (length (rs_body resp)) @ '' bytes)'')), c2)))"

definition post ::
  "'w net \<Rightarrow> bytes \<Rightarrow> (bytes \<Rightarrow> 'a client_scheme \<Rightarrow> 'a client_scheme) \<Rightarrow> 'a client_scheme \<Rightarrow> 'w
     \<Rightarrow> gerr option \<times> 'a client_scheme \<times> 'w" where
  "post net payload deliver c w =
     (case do_authed net (Endpoint c) (build_post net c payload) w of
        (Inl err, w1) \<Rightarrow> (Some err, c, w1)
      | (Inr resp, w1) \<Rightarrow> (let (err, c1) = consume_post resp deliver c in (err, c1, w1)))"

section \<open>The listening stream\<close>

definition build_get :: "'w net \<Rightarrow> 'a client_scheme \<Rightarrow> bytes \<Rightarrow> gerr + http_request" where
  "build_get net c tok =
     map_sum id (\<lambda>req.
         let req' = prepare c tok (req\<lparr>rq_header := hset (rq_header req) ''Accept'' ''text/event-stream''\<rparr>)
         in if lastEventID c \<noteq> []
            then req'\<lparr>rq_header := hset (rq_header req') ''Last-Event-ID'' (lastEventID c)\<rparr> else req')
       (new_request net ''GET'' (Endpoint c) [])"

definition had_session :: "'w net \<Rightarrow> 'a client_scheme \<Rightarrow> bool" where
  "had_session net c =
     (case build_get net c [] of
        Inl _ \<Rightarrow> False
      | Inr req \<Rightarrow> hget (rq_header req) ''Mcp-Session-Id'' \<noteq> [])"

text \<open>The event loop of \<open>listenOnce\<close>: the cursor moves before the event is handed over.\<close>

definition listen_event ::
  "(bytes \<Rightarrow> 'a client_scheme \<Rightarrow> 'a client_scheme) \<Rightarrow> event \<Rightarrow> 'a client_scheme \<Rightarrow> 'a client_scheme" where
  "listen_event deliver ev c =
     snd (deliver_compact (ev_Data ev) deliver
        (if ev_ID ev \<noteq> [] then c\<lparr>lastEventID := ev_ID ev\<rparr> else c))"

definition listen_once ::
  "'w net \<Rightarrow> (bytes \<Rightarrow> 'a client_scheme \<Rightarrow> 'a client_scheme) \<Rightarrow> 'a client_scheme \<Rightarrow> 'w
     \<Rightarrow> gerr option \<times> 'a client_scheme \<times> 'w" where
  "listen_once net deliver c w =
     (case do_authed net (Endpoint c) (build_get net c) w of
        (Inl err, w1) \<Rightarrow> (Some err, c, w1)
      | (Inr resp, w1) \<Rightarrow>
          if rs_status resp = 405 then (Some ErrNoStream, c, w1)
          else if rs_status resp = 404 then
            (Some (if had_session net c then ErrSessionExpired else ErrNoStream), c, w1)
          else if rs_status resp div 100 \<noteq> 2 then
            (let (body, resp') = capture_body resp in (Some (http_error resp' body), c, w1))
          else
            let c1 = capture_session resp c;
                (evs, err, _) = read_events (new_sse_reader (rs_body resp) (rs_fail resp));
                c2 = fold (listen_event deliver) evs c1
            in (if err_is err io_EOF then None else Some err, c2, w1))"

text \<open>One turn of \<open>Listen\<close>'s loop after \<open>listenOnce\<close> returned: the loop ends with an error, or
  goes on with the delay to wait now and the backoff of the next turn (nanoseconds).\<close>

definition second :: int where "second = 1000000000"

datatype listen_next = Stop gerr | Reconnect (delay: int) (next_backoff: int)

definition listen_turn :: "gerr option \<Rightarrow> bool \<Rightarrow> int \<Rightarrow> listen_next" where
  "listen_turn err ctx_done backoff =
     (case err of
        Some e \<Rightarrow>
          if err_is e ErrNoStream \<or> err_is e ErrSessionExpired then Stop e
          else if ctx_done then Stop ctx_canceled
          else Reconnect backoff (if 2 * backoff > 30 * second then 30 * second else 2 * backoff)
      | None \<Rightarrow>
          if ctx_done then Stop ctx_canceled
          else Reconnect second (if 2 * second > 30 * second then 30 * second else 2 * second))"

text \<open>\<open>jitter\<close>, \<open>n\<close> the clock in nanoseconds (Go's \<open>%\<close> and \<open>/\<close> on non-negative operands).\<close>

definition jitter :: "int \<Rightarrow> int \<Rightarrow> int" where
  "jitter n d = d + n mod (d div 2) - d div 4"

text \<open>\<open>Listen\<close> over a schedule: per turn, whether the context is done when \<open>listenOnce\<close> returns
  and while waiting, and the clock.  The result is the error it returns (\<open>None\<close>: the schedule
  ended first) and the delays it waited.\<close>

record turn =
  done_after :: bool
  done_waiting :: bool
  clock :: nat

fun listen_loop ::
  "'w net \<Rightarrow> (bytes \<Rightarrow> 'a client_scheme \<Rightarrow> 'a client_scheme) \<Rightarrow> int \<Rightarrow> turn list \<Rightarrow> 'a client_scheme \<Rightarrow> 'w
     \<Rightarrow> gerr option \<times> int list \<times> 'a client_scheme \<times> 'w" where
  "listen_loop net deliver backoff [] c w = (None, [], c, w)"
| "listen_loop net deliver backoff (t # ts) c w =
     (let (err, c1, w1) = listen_once net deliver c w in
      case listen_turn err (done_after t) backoff of
        Stop e \<Rightarrow> (Some e, [], c1, w1)
      | Reconnect d backoff' \<Rightarrow>
          let wait = jitter (int (clock t)) d in
          if done_waiting t then (Some ctx_canceled, [wait], c1, w1)
          else let (r, waits, c2, w2) = listen_loop net deliver backoff' ts c1 w1
               in (r, wait # waits, c2, w2))"

definition listen ::
  "'w net \<Rightarrow> (bytes \<Rightarrow> 'a client_scheme \<Rightarrow> 'a client_scheme) \<Rightarrow> turn list \<Rightarrow> 'a client_scheme \<Rightarrow> 'w
     \<Rightarrow> gerr option \<times> int list \<times> 'a client_scheme \<times> 'w" where
  "listen net deliver ts c w = listen_loop net deliver second ts c w"

section \<open>Ending the session\<close>

definition delete_session :: "'w net \<Rightarrow> 'a client_scheme \<Rightarrow> 'w \<Rightarrow> 'w" where
  "delete_session net c w =
     (if sessionID c = [] then w
      else case token net [] [] w of
        (Inl _, w1) \<Rightarrow> w1
      | (Inr tok, w1) \<Rightarrow>
          (case new_request net ''DELETE'' (Endpoint c) [] of
             Inl _ \<Rightarrow> w1
           | Inr req \<Rightarrow> snd (http_do net (prepare c tok req) w1)))"

text \<open>\<open>StaticToken.Token\<close>: the credential of \<open>--bearer-env\<close>, given out once per request.\<close>

definition static_token :: "bytes \<Rightarrow> bytes \<Rightarrow> bytes \<Rightarrow> 'w \<Rightarrow> (gerr + bytes) \<times> 'w" where
  "static_token t rejected challenge w =
     (if rejected \<noteq> [] then (Inl (Message ''server rejected static bearer credentials''), w)
      else (Inr t, w))"

section \<open>The contract of a token provider\<close>

text \<open>\<open>TokenProvider\<close>: after a rejection the provider does not offer the rejected token again.\<close>

locale token_provider =
  fixes tokens :: "bytes \<Rightarrow> bytes \<Rightarrow> 'w \<Rightarrow> (gerr + bytes) \<times> 'w"
  assumes not_reoffered: "rejected \<noteq> [] \<longrightarrow> fst (tokens rejected challenge w) \<noteq> Inr rejected"

interpretation static: token_provider "static_token t" for t
  by unfold_locales (simp add: static_token_def)

section \<open>The requests of one exchange\<close>

text \<open>The same network with a record of every request and its outcome.\<close>

type_synonym exchange = "http_request \<times> (gerr + http_response)"

definition recorded :: "'w net \<Rightarrow> ('w \<times> exchange list) net" where
  "recorded net =
     \<lparr>http_do = (\<lambda>req (w, log). let (r, w') = http_do net req w in (r, w', log @ [(req, r)])),
      provider = map_option (\<lambda>p rejected challenge (w, log).
         let (r, w') = p rejected challenge w in (r, w', log)) (provider net),
      request_error = request_error net\<rparr>"

lemma recorded_do: "http_do (recorded net) req (w, log) =
    (fst (http_do net req w), snd (http_do net req w), log @ [(req, fst (http_do net req w))])"
  by (simp add: recorded_def case_prod_beta)

lemma recorded_provider: "(provider (recorded net) = None) = (provider net = None)"
  by (simp add: recorded_def)

lemma recorded_token: "token (recorded net) rejected challenge (w, log) =
    (fst (token net rejected challenge w), snd (token net rejected challenge w), log)"
  by (simp add: token_def recorded_def case_prod_beta split: option.splits)

text \<open>An exchange the ladder goes on from.\<close>

definition unauthorized :: "exchange \<Rightarrow> bool" where
  "unauthorized x = (case snd x of Inr resp \<Rightarrow> rs_status resp = 401 | Inl _ \<Rightarrow> False)"

definition ladder :: "(bytes \<Rightarrow> gerr + http_request) \<Rightarrow> bytes list \<Rightarrow> exchange list \<Rightarrow> bool" where
  "ladder build toks log \<longleftrightarrow>
     map build toks = map (\<lambda>x. Inr (fst x)) log \<and> distinct_adj toks \<and>
     list_all unauthorized (butlast log)"

lemma ladder_Nil [simp]: "ladder build [] []"
  by (simp add: ladder_def)

lemma ladder_single: "build tok = Inr req \<Longrightarrow> ladder build [tok] [(req, r)]"
  by (simp add: ladder_def)

lemma ladder_Cons:
  "build tok = Inr req \<Longrightarrow> unauthorized (req, r) \<Longrightarrow> ladder build toks log \<Longrightarrow>
     toks = [] \<or> hd toks \<noteq> tok \<Longrightarrow> ladder build (tok # toks) ((req, r) # log)"
  by (cases toks) (auto simp: ladder_def)

text \<open>One turn of the loop sends one request, and either ends or goes on with another token.\<close>

lemma do_authed_turn:
  assumes req: "build tok = Inr req" and sent_def: "sent = (req, fst (http_do net req w))"
  obtains (stop) "snd (snd (do_authed_loop (recorded net) ep build tok attempt (w, log))) = log @ [sent]"
  | (again) new w2 where "attempt < maxTokenCycles" "new \<noteq> tok" "unauthorized sent"
      "do_authed_loop (recorded net) ep build tok attempt (w, log) =
       do_authed_loop (recorded net) ep build new (Suc attempt) (w2, log @ [sent])"
proof (cases "fst (http_do net req w)")
  case (Inl e)
  show thesis by (rule stop) (simp add: do_authed_loop.simps [of _ _ _ tok] req sent_def Inl recorded_do)
next
  case resp: (Inr resp)
  let ?ask = "token net (if tok = [] then ''-'' else tok)
      (hget (rs_header resp) ''WWW-Authenticate'') (snd (http_do net req w))"
  note turn = do_authed_loop.simps [of "recorded net" ep build tok attempt "(w, log)"] req resp
    recorded_do recorded_provider recorded_token capture_body_def sent_def Let_def
  show thesis
  proof (cases "rs_status resp \<noteq> 401 \<or> provider net = None \<or> maxTokenCycles \<le> attempt \<or>
      (\<exists>e. fst ?ask = Inl e) \<or> fst ?ask = Inr tok")
    case True
    then show thesis by (intro stop) (auto simp: turn)
  next
    case False
    then obtain new where ask: "fst ?ask = Inr new" "new \<noteq> tok" by (cases "fst ?ask") auto
    have "unauthorized sent" using False by (simp add: unauthorized_def sent_def resp)
    moreover have "do_authed_loop (recorded net) ep build tok attempt (w, log) =
        do_authed_loop (recorded net) ep build new (Suc attempt) (snd ?ask, log @ [sent])"
      using False ask by (simp add: turn del: not_None_eq split del: if_split)
    ultimately show thesis using False ask(2) by (intro again) auto
  qed
qed

text \<open>The log of the loop, with the tokens in the order they were sent.\<close>

lemma do_authed_loop_log:
  "\<exists>toks ext. snd (snd (do_authed_loop (recorded net) ep build tok attempt (w, log))) = log @ ext \<and>
     ladder build toks ext \<and> (toks = [] \<or> hd toks = tok) \<and> length ext \<le> Suc (maxTokenCycles - attempt)"
    (is "\<exists>toks ext. ?P tok attempt w log toks ext")
proof (induction "maxTokenCycles - attempt" arbitrary: tok attempt w log rule: less_induct)
  case less
  show ?case
  proof (cases "build tok")
    case (Inl e)
    then have "?P tok attempt w log [] []" by (simp add: do_authed_loop.simps)
    then show ?thesis by blast
  next
    case (Inr req)
    let ?sent = "(req, fst (http_do net req w))"
    from Inr refl show ?thesis
    proof (rule do_authed_turn [of build tok req ?sent net w ep attempt log])
      assume "snd (snd (do_authed_loop (recorded net) ep build tok attempt (w, log))) = log @ [?sent]"
      then have "?P tok attempt w log [tok] [?sent]" by (simp add: ladder_single Inr)
      then show ?thesis by blast
    next
      fix new w2
      assume go: "attempt < maxTokenCycles" "new \<noteq> tok" "unauthorized ?sent"
        and loop: "do_authed_loop (recorded net) ep build tok attempt (w, log) =
          do_authed_loop (recorded net) ep build new (Suc attempt) (w2, log @ [?sent])"
      have "maxTokenCycles - Suc attempt < maxTokenCycles - attempt" using go(1) by simp
      from less.hyps [OF this, of new w2 "log @ [?sent]"] obtain toks ext where
        IH: "?P new (Suc attempt) w2 (log @ [?sent]) toks ext" by blast
      then have "?P tok attempt w log (tok # toks) (?sent # ext)"
        using go Inr by (auto simp: loop intro!: ladder_Cons)
      then show ?thesis by blast
    qed
  qed
qed

text \<open>C15: one call of \<open>doAuthed\<close> sends at most \<open>maxTokenCycles + 1\<close> requests, whatever the
  provider hands out: each is \<open>build\<close> of a token, no token is sent twice in a row, and
  every request but the last was answered 401.\<close>

theorem do_authed_requests:
  "\<exists>toks. let log = snd (snd (do_authed (recorded net) ep build (w, []))) in
     length log \<le> maxTokenCycles + 1 \<and>
     map build toks = map (\<lambda>x. Inr (fst x)) log \<and> distinct_adj toks \<and>
     list_all unauthorized (butlast log)"
proof (cases "fst (token net [] [] w)")
  case (Inl e)
  then show ?thesis by (intro exI [of _ "[]"]) (simp add: do_authed_def recorded_token)
next
  case (Inr tok)
  then have eq: "do_authed (recorded net) ep build (w, []) =
      do_authed_loop (recorded net) ep build tok 0 (snd (token net [] [] w), [])"
    by (simp add: do_authed_def recorded_token)
  obtain toks ext where "snd (snd (do_authed_loop (recorded net) ep build tok 0 (snd (token net [] [] w), []))) = ext"
    "ladder build toks ext" "length ext \<le> Suc maxTokenCycles"
    using do_authed_loop_log [of net ep build tok 0 "snd (token net [] [] w)" "[]"] by auto
  then show ?thesis unfolding eq ladder_def by (intro exI [of _ toks]) (simp add: Let_def)
qed

section \<open>What a response delivers\<close>

text \<open>A message fit for the line-based channel.\<close>

definition framed :: "bytes \<Rightarrow> bool" where
  "framed m \<longleftrightarrow> LF \<notin> set m \<and> json_valid m"

definition compacted :: "bytes \<Rightarrow> bytes option" where
  "compacted data = (if LF \<notin> set data \<and> json_valid data then Some data else json_compact data)"

lemma deliver_compact_compacted:
  "deliver_compact data deliver s =
     (case compacted data of None \<Rightarrow> (False, s) | Some m \<Rightarrow> (True, deliver m s))"
  by (simp add: deliver_compact_def compacted_def split: option.splits)

lemma compacted_framed: "compacted data = Some m \<Longrightarrow> framed m"
  by (auto simp: compacted_def framed_def json_compact_no_LF json_compact_out_valid split: if_splits)

lemma compacted_valid: "compacted data = None \<longleftrightarrow> \<not> json_valid data"
  using json_compact_valid [of data] by (auto simp: compacted_def)

definition stream_messages :: "event list \<Rightarrow> bytes list" where
  "stream_messages evs = List.map_filter (compacted \<circ> ev_Data) evs"

lemma stream_messages_simps [simp]:
  "stream_messages [] = []"
  "stream_messages (ev # evs) =
     (case compacted (ev_Data ev) of None \<Rightarrow> stream_messages evs | Some m \<Rightarrow> m # stream_messages evs)"
  by (simp_all add: stream_messages_def List.map_filter_simps split: option.split)

lemma stream_messages_framed: "list_all framed (stream_messages evs)"
  by (induction evs) (auto simp: compacted_framed split: option.splits)

lemma deliver_events_messages: "deliver_events evs deliver s = fold deliver (stream_messages evs) s"
  by (induction evs arbitrary: s)
    (auto simp: deliver_events_def deliver_compact_compacted split: option.splits)

text \<open>The specification of \<open>consumePost\<close>: the messages of a response and the outcome.\<close>

definition success :: "http_response \<Rightarrow> bool" where
  "success resp \<longleftrightarrow> rs_status resp \<noteq> 202 \<and> rs_status resp div 100 = 2"

definition is_stream :: "http_response \<Rightarrow> bool" where
  "is_stream resp \<longleftrightarrow> prefix ''text/event-stream'' (content_type resp)"

definition response_events :: "http_response \<Rightarrow> event list" where
  "response_events resp = fst (read_events (new_sse_reader (rs_body resp) (rs_fail resp)))"

definition post_messages :: "http_response \<Rightarrow> bytes list" where
  "post_messages resp =
     (if \<not> success resp then []
      else if is_stream resp then stream_messages (response_events resp)
      else if rs_fail resp \<noteq> None \<or> trim_space (rs_body resp) = [] then []
      else (case compacted (rs_body resp) of None \<Rightarrow> [] | Some m \<Rightarrow> [m]))"

definition post_error :: "http_response \<Rightarrow> gerr option" where
  "post_error resp = fst (consume_post resp (\<lambda>_ c. c) \<lparr>Endpoint = [], Headers = [], sessionID = [],
     protocolVer = [], lastEventID = []\<rparr>)"

lemma consume_post_messages:
  "snd (consume_post resp deliver c) = fold deliver (post_messages resp) (capture_session resp c)"
  by (auto simp: consume_post_def post_messages_def success_def is_stream_def response_events_def
      deliver_events_messages deliver_compact_compacted Let_def split: option.splits prod.splits)

lemma consume_post_error: "fst (consume_post resp deliver c) = post_error resp"
  by (auto simp: consume_post_def post_error_def deliver_compact_compacted Let_def
      split: option.splits prod.splits)

lemma consume_post_spec:
  "consume_post resp deliver c = (post_error resp, fold deliver (post_messages resp) (capture_session resp c))"
  by (simp add: prod_eq_iff consume_post_messages consume_post_error)

lemma post_messages_framed: "list_all framed (post_messages resp)"
  by (auto simp: post_messages_def stream_messages_framed compacted_framed split: option.splits)


text \<open>a 2xx answer with a JSON body is handed over exactly once or turned into an error, so a
  request never stays without a reply: one message and no error when the body is valid JSON,
  no message and an error otherwise.\<close>

theorem json_answer_once:
  assumes "success resp" "\<not> is_stream resp" "trim_space (rs_body resp) \<noteq> []"
  shows "if rs_fail resp = None \<and> json_valid (rs_body resp)
         then fst (consume_post resp deliver c) = None \<and> length (post_messages resp) = 1
         else fst (consume_post resp deliver c) \<noteq> None \<and> post_messages resp = []"
proof (cases "rs_fail resp")
  case None
  with assms compacted_valid [of "rs_body resp"] show ?thesis
    by (cases "compacted (rs_body resp)")
      (simp_all add: consume_post_def post_messages_def success_def is_stream_def deliver_compact_compacted Let_def)
next
  case (Some e)
  with assms show ?thesis
    by (simp add: consume_post_def post_messages_def success_def is_stream_def Let_def)
qed

definition sample_response :: "bytes \<Rightarrow> bytes \<Rightarrow> http_response" where
  "sample_response ctype body = \<lparr>rs_status = 200, rs_header = hset no_header ''Content-Type'' ctype,
     rs_body = body, rs_fail = None\<rparr>"

definition sample_client :: client where
  "sample_client = \<lparr>Endpoint = ''https://mcp.example/'', Headers = [], sessionID = [],
     protocolVer = [], lastEventID = []\<rparr>"

theorem json_answer_once_witness:
  "post_messages (sample_response ''application/json'' (''[1,'' @ [LF] @ ''2]'')) = [''[1,2]''] \<and>
   fst (consume_post (sample_response ''application/json'' ''{oops'') (\<lambda>_. id) sample_client) \<noteq> None"
proof -
  have a: "success (sample_response ''application/json'' ''{oops'')"
    "\<not> is_stream (sample_response ''application/json'' ''{oops'')"
    "trim_space (rs_body (sample_response ''application/json'' ''{oops'')) \<noteq> []"
    "\<not> json_valid (rs_body (sample_response ''application/json'' ''{oops''))" by code_simp+
  have "post_messages (sample_response ''application/json'' (''[1,'' @ [LF] @ ''2]'')) = [''[1,2]'']"
    by code_simp
  with json_answer_once [OF a(1-3), of "\<lambda>_. id" sample_client] a(4) show ?thesis by simp
qed

section \<open>Session state\<close>

definition session_clean :: "'a client_scheme \<Rightarrow> bool" where
  "session_clean c \<longleftrightarrow> list_all visible_ascii (sessionID c)"

lemma capture_session_clean: "session_clean c \<Longrightarrow> session_clean (capture_session resp c)"
  by (simp add: session_clean_def capture_session_def Let_def)

lemma capture_session_frame [simp]:
  "Endpoint (capture_session resp c) = Endpoint c"
  "protocolVer (capture_session resp c) = protocolVer c"
  "lastEventID (capture_session resp c) = lastEventID c"
  "client.more (capture_session resp c) = client.more c"
  by (simp_all add: capture_session_def Let_def)

lemma clear_session_clean: "session_clean (clear_session c)"
  by (simp add: session_clean_def clear_session_def)

text \<open>An invariant of the state kept by the callback on framed messages is kept by \<open>Post\<close>.\<close>

lemma fold_invariant_framed:
  "P s \<Longrightarrow> list_all framed ms \<Longrightarrow> (\<And>m s. framed m \<Longrightarrow> P s \<Longrightarrow> P (deliver m s)) \<Longrightarrow> P (fold deliver ms s)"
  by (induction ms arbitrary: s) auto

lemma post_invariant:
  assumes "P c" "\<And>resp c. P c \<Longrightarrow> P (capture_session resp c)"
    "\<And>m c. framed m \<Longrightarrow> P c \<Longrightarrow> P (deliver m c)"
  shows "P (fst (snd (post net payload deliver c w)))"
proof -
  have "P (fold deliver (post_messages resp) (capture_session resp c))" for resp
    by (rule fold_invariant_framed [of P "capture_session resp c", OF assms(2) [OF assms(1)] post_messages_framed])
      (rule assms(3))
  then show ?thesis using assms(1)
    by (simp add: post_def consume_post_spec Let_def split: prod.split sum.split)
qed

lemma listen_once_invariant:
  assumes "P c" "\<And>resp c. P c \<Longrightarrow> P (capture_session resp c)"
    "\<And>m c. framed m \<Longrightarrow> P c \<Longrightarrow> P (deliver m c)"
    "\<And>i c. P c \<Longrightarrow> P (c\<lparr>lastEventID := i\<rparr>)"
  shows "P (fst (snd (listen_once net deliver c w)))"
proof -
  have ev: "P (listen_event deliver ev c)" if "P c" for ev c
  proof -
    have "P (if ev_ID ev \<noteq> [] then c\<lparr>lastEventID := ev_ID ev\<rparr> else c)"
      using that assms(4) [OF that, of "ev_ID ev"] by simp
    then show ?thesis
      by (cases "compacted (ev_Data ev)")
        (simp_all add: listen_event_def deliver_compact_compacted assms(3) [OF compacted_framed])
  qed
  have loop: "P (fold (listen_event deliver) evs c)" if "P c" for evs c
    using that by (induction evs arbitrary: c) (simp_all add: ev)
  have cap: "P (fold (listen_event deliver) evs (capture_session resp c))" for evs resp
    by (rule loop [OF assms(2) [OF assms(1)]])
  show ?thesis
    by (simp add: listen_once_def Let_def assms(1) cap split: prod.split sum.split)
qed

section \<open>Headers of a prepared request\<close>

lemma canon_known [simp]:
  "canon_key ''Authorization'' = ''Authorization''"
  "canon_key ''Mcp-Session-Id'' = ''Mcp-Session-Id''"
  "canon_key ''Mcp-Protocol-Version'' = ''Mcp-Protocol-Version''"
  "canon_key ''Last-Event-ID'' = ''Last-Event-Id''"
  "canon_key ''Content-Type'' = ''Content-Type''"
  "canon_key ''Accept'' = ''Accept''"
  by code_simp+

lemma hget_hset: "hget (hset h k v) k' = (if canon_key k' = canon_key k then v else hget h k')"
  by (simp add: hget_def hset_def)

definition from_user :: "'a client_scheme \<Rightarrow> http_request \<Rightarrow> bytes \<Rightarrow> bytes" where
  "from_user c req k = hget (add_headers (Headers c) (rq_header req)) k"

text \<open>the credential, the session id and the negotiated version of the client replace whatever
  \<open>--header\<close> says under the same (case-insensitive) name, and are sent exactly when there is
  one; other headers are the user's; method, URL and body of the request are kept.\<close>

theorem prepare_headers:
  "(let h = hget (rq_header (prepare c tok req)) in
      h ''Authorization'' = (if tok = [] then from_user c req ''Authorization'' else ''Bearer '' @ tok) \<and>
      h ''Mcp-Session-Id'' = (if sessionID c = [] then from_user c req ''Mcp-Session-Id'' else sessionID c) \<and>
      h ''Mcp-Protocol-Version'' =
        (if protocolVer c = [] then from_user c req ''Mcp-Protocol-Version'' else protocolVer c) \<and>
      (canon_key k \<in> {''Authorization'', ''Mcp-Session-Id'', ''Mcp-Protocol-Version''} \<or>
        h k = from_user c req k)) \<and>
   rq_method (prepare c tok req) = rq_method req \<and> rq_url (prepare c tok req) = rq_url req \<and>
   rq_body (prepare c tok req) = rq_body req"
  by (simp add: prepare_def from_user_def hget_hset Let_def)

section \<open>The cursor of the listening stream\<close>

lemma deliver_events_cursor:
  assumes "\<And>m c. lastEventID (deliver m c) = lastEventID c"
  shows "lastEventID (fold (listen_event deliver) evs c) =
    (case filter (\<lambda>ev. ev_ID ev \<noteq> []) evs of [] \<Rightarrow> lastEventID c | xs \<Rightarrow> ev_ID (last xs))"
proof (induction evs arbitrary: c)
  case (Cons ev evs)
  have "lastEventID (listen_event deliver ev c) = (if ev_ID ev \<noteq> [] then ev_ID ev else lastEventID c)"
    by (cases "compacted (ev_Data ev)") (simp_all add: listen_event_def deliver_compact_compacted assms)
  with Cons show ?case by (auto split: list.splits)
qed simp

text \<open>The id the next connection resumes from.\<close>

definition resume_from :: "'w net \<Rightarrow> 'a client_scheme \<Rightarrow> bytes \<Rightarrow> bytes" where
  "resume_from net c tok =
     (case build_get net c tok of Inl _ \<Rightarrow> [] | Inr req \<Rightarrow> hget (rq_header req) ''Last-Event-ID'')"

lemma prepare_frame [simp]: "rq_url (prepare c tok req) = rq_url req"
  "rq_method (prepare c tok req) = rq_method req" "rq_body (prepare c tok req) = rq_body req"
  by (simp_all add: prepare_def Let_def)

lemma resume_from_cursor:
  "request_error net = None \<Longrightarrow> lastEventID c \<noteq> [] \<Longrightarrow> resume_from net c tok = lastEventID c"
  by (simp add: resume_from_def build_get_def new_request_def hget_hset Let_def)

text \<open>after an event stream the next \<open>GET\<close> asks to resume from the id of the last event that
  had one, delivered or not, on whatever token it is built; clearing the session forgets the id
  with the session, so a new session is not asked to resume a foreign stream.\<close>

theorem stream_resumes_from_last_id:
  assumes "request_error net = None" "Headers c = []"
    and "\<And>m c. lastEventID (deliver m c) = lastEventID c"
    and "\<And>m c. Headers (deliver m c) = Headers c"
  shows "resume_from net (fold (listen_event deliver) evs c) tok =
     (case filter (\<lambda>ev. ev_ID ev \<noteq> []) evs of [] \<Rightarrow> lastEventID c | xs \<Rightarrow> ev_ID (last xs)) \<and>
   resume_from net (clear_session (fold (listen_event deliver) evs c)) tok = []"
proof -
  have hs: "Headers (fold (listen_event deliver) evs c) = []"
    using assms(2)
  proof (induction evs arbitrary: c)
    case (Cons ev evs)
    have "Headers (listen_event deliver ev c) = Headers c"
      by (cases "compacted (ev_Data ev)") (simp_all add: listen_event_def deliver_compact_compacted assms(4))
    with Cons show ?case by simp
  qed simp
  have user: "resume_from net c' tok = lastEventID c'" if "Headers c' = []" for c' :: "'b client_scheme"
    using that assms(1)
    by (simp add: resume_from_def build_get_def new_request_def prepare_def add_headers_def hget_hset Let_def)
      (simp add: hget_def)
  show ?thesis
    using user [OF hs] user [of "clear_session (fold (listen_event deliver) evs c)"] hs
      deliver_events_cursor [of deliver, OF assms(3)]
    by (simp add: clear_session_def)
qed

definition quiet_net :: "unit net" where
  "quiet_net = \<lparr>http_do = (\<lambda>_ w. (Inl (Message ''no route''), w)), provider = None, request_error = None\<rparr>"

theorem stream_resumes_from_last_id_witness:
  "resume_from quiet_net (fold (listen_event (\<lambda>_. id))
      [\<lparr>ev_ID = ''e1'', ev_Data = ''{}''\<rparr>, \<lparr>ev_ID = [], ev_Data = ''{}''\<rparr>, \<lparr>ev_ID = ''e3'', ev_Data = ''oops''\<rparr>]
      sample_client) ''t'' = ''e3''"
  using stream_resumes_from_last_id [of quiet_net sample_client "\<lambda>_. id"
      "[\<lparr>ev_ID = ''e1'', ev_Data = ''{}''\<rparr>, \<lparr>ev_ID = [], ev_Data = ''{}''\<rparr>, \<lparr>ev_ID = ''e3'', ev_Data = ''oops''\<rparr>]" "''t''"]
  by (simp add: quiet_net_def sample_client_def)

text \<open>an event id is echoed unchecked.  Unlike the session id it may hold a control character,
  which no HTTP header value may: after such an event every reconnection is built with a header
  that \<open>net/http\<close> refuses to send, and the cursor stays as it is.\<close>

theorem event_id_poisons_reconnect:
  "let evs = fst (read_events (new_sse_reader (''id: a'' @ [CHR 0x01] @ ''b'' @ [LF] @ ''data: {}'' @ [LF, LF]) None));
       c = fold (listen_event (\<lambda>_. id)) evs sample_client
   in resume_from quiet_net c [] = ''a'' @ [CHR 0x01] @ ''b'' \<and>
      capture_session \<lparr>rs_status = 200, rs_header = hset no_header ''Mcp-Session-Id'' (''a'' @ [CHR 0x01] @ ''b''),
        rs_body = [], rs_fail = None\<rparr> c = c"
  by code_simp

section \<open>Reconnection\<close>

lemma jitter_bounds:
  assumes "second \<le> d" "d \<le> 30 * second"
  shows "750000000 \<le> jitter (int n) d \<and> jitter (int n) d < 37500000000"
proof -
  have "0 < d div 2" using assms(1) by (simp add: second_def)
  then have "0 \<le> int n mod (d div 2)" "int n mod (d div 2) < d div 2" by simp_all
  moreover have "4 * (d div 4) \<le> d" "d < 4 * (d div 4) + 4" "2 * (d div 2) \<le> d"
    by presburger+
  ultimately show ?thesis using assms unfolding jitter_def second_def by linarith
qed

lemma listen_turn_backoff:
  assumes "second \<le> b" "b \<le> 30 * second" "listen_turn err done b = Reconnect d b'"
  shows "second \<le> d \<and> d \<le> 30 * second \<and> second \<le> b' \<and> b' \<le> 30 * second"
  using assms by (auto simp: listen_turn_def second_def split: option.splits if_splits)

lemma listen_turn_stop:
  "listen_turn err done b = Stop e \<Longrightarrow> err_is e ErrNoStream \<or> err_is e ErrSessionExpired \<or> e = ctx_canceled"
  by (auto simp: listen_turn_def split: option.splits if_splits)

lemma listen_loop_bounds:
  assumes "second \<le> b" "b \<le> 30 * second"
  shows "list_all (\<lambda>d. 750000000 \<le> d \<and> d < 37500000000) (fst (snd (listen_loop net deliver b ts c w))) \<and>
    (case fst (listen_loop net deliver b ts c w) of None \<Rightarrow> True
     | Some e \<Rightarrow> err_is e ErrNoStream \<or> err_is e ErrSessionExpired \<or> e = ctx_canceled)"
  using assms
proof (induction ts arbitrary: b c w)
  case (Cons t ts)
  obtain err c1 w1 where once: "listen_once net deliver c w = (err, c1, w1)" by (metis prod_cases3)
  show ?case
  proof (cases "listen_turn err (done_after t) b")
    case (Stop e)
    then show ?thesis using listen_turn_stop [OF Stop] once by simp
  next
    case (Reconnect d b')
    note bounds = listen_turn_backoff [OF Cons.prems Reconnect]
    have d: "750000000 \<le> jitter (int (clock t)) d \<and> jitter (int (clock t)) d < 37500000000"
      using bounds jitter_bounds by blast
    obtain r ws rest where l: "listen_loop net deliver b' ts c1 w1 = (r, ws, rest)" by (metis prod_cases3)
    from Cons.IH [of b' c1 w1] bounds l have
      "list_all (\<lambda>d. 750000000 \<le> d \<and> d < 37500000000) ws"
      "case r of None \<Rightarrow> True | Some e \<Rightarrow> err_is e ErrNoStream \<or> err_is e ErrSessionExpired \<or> e = ctx_canceled"
      by simp_all
    then show ?thesis using Reconnect once l d by (simp add: Let_def split: prod.split)
  qed
qed simp


end
