(* ===== verification/Discovery.thy ===== *)
theory Discovery
  imports Url Client
begin

text \<open>
  The types of \<open>pkg/oauth\<close>, the parsed challenge and the discovery chain
  (\<open>pkg/oauth/discovery.go\<close>).  What the flow talks to is the record \<open>oauth_env\<close>: the HTTP
  client, the token store and the registration store, the cross-process locks, the clock and
  the interactive login, as functions over an arbitrary world.
\<close>

section \<open>Data\<close>

record token =
  AccessToken :: bytes
  RefreshToken :: bytes
  Expiry :: "int option"        \<comment> \<open>absolute, in nanoseconds; \<open>None\<close>: the zero time\<close>
  tk_Issuer :: bytes
  tk_ClientID :: bytes
  tk_Scopes :: "bytes list"

record registration =
  rg_ClientID :: bytes
  rg_Issuer :: bytes
  RedirectURI :: bytes
  RegisteredAt :: int

record as_metadata =
  as_Issuer :: bytes
  AuthorizationEndpoint :: bytes
  TokenEndpoint :: bytes
  RegistrationEndpoint :: bytes
  as_ScopesSupported :: "bytes list"
  CodeChallengeMethodsSupported :: "bytes list"
  FromOIDC :: bool

record pr_metadata =
  pr_Resource :: bytes
  AuthorizationServers :: "bytes list"
  pr_ScopesSupported :: "bytes list"

record discovery =
  d_AS :: as_metadata
  PRMScopes :: "bytes list"

record flow =
  fl_Endpoint :: bytes
  fl_ClientID :: bytes
  fl_Scopes :: "bytes list"
  fl_Issuer :: bytes
  CallbackPort :: int
  disco :: "discovery option"
  cached :: "token option"
  reg :: "registration option"
  lastRefreshed :: bytes
  lastLoggedIn :: bytes

record 'w oauth_env =
  oe_http :: "http_request \<Rightarrow> 'w \<Rightarrow> (gerr + http_response) \<times> 'w"
  st_load :: "bytes \<Rightarrow> 'w \<Rightarrow> gerr + token"
  st_save :: "bytes \<Rightarrow> token \<Rightarrow> 'w \<Rightarrow> gerr option \<times> 'w"
  st_delete :: "bytes \<Rightarrow> 'w \<Rightarrow> gerr option \<times> 'w"
  cs_load :: "bytes \<Rightarrow> 'w \<Rightarrow> gerr + registration"
  cs_save :: "bytes \<Rightarrow> registration \<Rightarrow> 'w \<Rightarrow> gerr option \<times> 'w"
  cs_delete :: "bytes \<Rightarrow> 'w \<Rightarrow> gerr option \<times> 'w"
  lk_acquire :: "bytes \<Rightarrow> 'w \<Rightarrow> gerr option \<times> 'w"
  lk_release :: "bytes \<Rightarrow> 'w \<Rightarrow> 'w"
  oe_now :: "'w \<Rightarrow> int"
  oe_login :: "flow \<Rightarrow> discovery \<Rightarrow> bytes list \<Rightarrow> 'w \<Rightarrow> (gerr + token) \<times> 'w"

definition ErrNotFound :: gerr where "ErrNotFound = Sentinel ''no stored token''"

text \<open>\<open>fmt\<close>'s \<open>%v\<close> of a string slice.\<close>

definition show_strings :: "bytes list \<Rightarrow> bytes" where
  "show_strings xs = ''['' @ join '' '' xs @ '']''"

definition http_get :: bytes where "http_get = ''GET''"
definition http_post :: bytes where "http_post = ''POST''"

text \<open>\<open>http.NewRequest\<close> fails on a URL that does not parse.\<close>

definition new_http_request :: "bytes \<Rightarrow> bytes \<Rightarrow> bytes \<Rightarrow> gerr + http_request" where
  "new_http_request method target body =
     (if url_parse target = None then Inl (url_error target)
      else Inr \<lparr>rq_method = method, rq_url = target, rq_header = no_header, rq_body = body\<rparr>)"

section \<open>The challenge\<close>

record bearer_challenge =
  ResourceMetadata :: bytes
  ch_Scope :: bytes
  ch_Error :: bytes
  ErrorDescription :: bytes

definition re_word :: "char \<Rightarrow> bool" where
  "re_word c \<longleftrightarrow> is_letter c \<or> is_digit c \<or> c = CHR ''_''"

text \<open>All matches of \<open>(\w+)="([^"]*)"\<close>: a match can only start with a maximal run of word
  characters, since nothing in a shorter run can be the \<open>=\<close>.\<close>

definition param_match :: "bytes \<Rightarrow> (bytes \<times> bytes \<times> bytes) option" where
  "param_match s =
     (let name = takeWhile re_word s; r = dropWhile re_word s in
      if name = [] \<or> \<not> prefix [CHR ''='', DQ] r then None
      else map_option (\<lambda>(v, left). (name, v, left)) (cut_at DQ (drop 2 r)))"

lemma cut_at_length: "cut_at c s = Some (a, b) \<Longrightarrow> length b < length s"
  by (drule cut_at_Some) auto

lemma param_match_shorter: "param_match s = Some (n, v, left) \<Longrightarrow> length left < length s"
proof -
  assume m: "param_match s = Some (n, v, left)"
  then have "cut_at DQ (drop 2 (dropWhile re_word s)) = Some (v, left)"
    by (auto simp: param_match_def Let_def split: if_splits)
  then have "length left < length (drop 2 (dropWhile re_word s))" by (rule cut_at_length)
  also have "\<dots> \<le> length s" using length_dropWhile_le [of re_word s] by simp
  finally show ?thesis .
qed

function find_params :: "bytes \<Rightarrow> (bytes \<times> bytes) list" where
  "find_params s =
     (case param_match s of
        Some (name, v, left) \<Rightarrow> (name, v) # find_params left
      | None \<Rightarrow> (case s of [] \<Rightarrow> [] | c # cs \<Rightarrow> find_params cs))"
  by pat_completeness auto
termination
  by (relation "measure length") (auto dest: param_match_shorter)

declare find_params.simps [simp del]

definition challenge_step :: "bytes \<times> bytes \<Rightarrow> bearer_challenge \<Rightarrow> bearer_challenge" where
  "challenge_step p c =
     (let (name, v) = p in
      if name = ''resource_metadata'' then c\<lparr>ResourceMetadata := v\<rparr>
      else if name = ''scope'' then c\<lparr>ch_Scope := v\<rparr>
      else if name = ''error'' then c\<lparr>ch_Error := v\<rparr>
      else if name = ''error_description'' then c\<lparr>ErrorDescription := v\<rparr>
      else c)"

definition no_challenge :: bearer_challenge where
  "no_challenge = \<lparr>ResourceMetadata = [], ch_Scope = [], ch_Error = [], ErrorDescription = []\<rparr>"

definition parseChallenge :: "bytes \<Rightarrow> bearer_challenge" where
  "parseChallenge h = fold challenge_step (find_params h) no_challenge"

definition detail :: "bearer_challenge \<Rightarrow> bytes" where
  "detail c =
     (if ch_Error c = [] then []
      else if ErrorDescription c = [] then ch_Error c
      else redact_tokens (ch_Error c @ '': '' @ ErrorDescription c))"

definition staleToken :: "bearer_challenge \<Rightarrow> bool" where
  "staleToken c \<longleftrightarrow> ch_Error c = ''invalid_token'' \<and> sublist ''expir'' (to_lower (ErrorDescription c))"

section \<open>Scopes\<close>

definition scopeOffline :: bytes where "scopeOffline = ''offline_access''"

definition withOffline :: "bytes list \<Rightarrow> bytes list \<Rightarrow> bytes list" where
  "withOffline supported scopes =
     (if List.member scopes scopeOffline \<or> \<not> List.member supported scopeOffline then scopes
      else scopes @ [scopeOffline])"

definition resolveScopes :: "flow \<Rightarrow> discovery \<Rightarrow> bytes \<Rightarrow> bytes list" where
  "resolveScopes f d challenge =
     (if length (fl_Scopes f) > 0 then fl_Scopes f
      else
        let supported = as_ScopesSupported (d_AS d); scope = ch_Scope (parseChallenge challenge) in
        if scope \<noteq> [] then withOffline supported (string_fields scope)
        else if length (PRMScopes d) > 0 then withOffline supported (PRMScopes d)
        else if FromOIDC (d_AS d) then withOffline supported [''openid'', ''profile'']
        else [])"

definition grantedScopes :: "bytes \<Rightarrow> bytes list \<Rightarrow> bytes list" where
  "grantedScopes respScope requested = (if respScope = [] then requested else string_fields respScope)"

section \<open>Fetching a document\<close>

text \<open>\<open>Decoder.Decode\<close> takes the first value of the stream: the number of bytes after which the
  scanner knows it complete.  At the end of the bytes (\<open>eof\<close>: not a read error) a value that
  needs no more counts.\<close>

fun value_end :: "bool \<Rightarrow> scanner \<Rightarrow> bytes \<Rightarrow> nat \<Rightarrow> nat option" where
  "value_end eof s [] n = (if eof \<and> fst (scan s (CHR '' '')) = ScanEnd then Some n else None)"
| "value_end eof s (c # cs) n =
     (case scan s c of (code, s') \<Rightarrow>
        if code = ScanEnd then Some n
        else if code = ScanError then None
        else if (code = ScanEndObject \<or> code = ScanEndArray) \<and> fst (end_value s' (CHR '' '')) = ScanEnd
          then Some (Suc n)
        else value_end eof s' cs (Suc n))"

text \<open>The errors of \<open>encoding/json\<close> are one message: no text of theirs is looked at.\<close>

definition json_error :: gerr where "json_error = Message ''invalid JSON''"

definition decode_first :: "(bytes \<times> 'a setter) list \<Rightarrow> bool \<Rightarrow> bytes \<Rightarrow> 'a \<Rightarrow> gerr + 'a" where
  "decode_first fs eof data a =
     (case value_end eof scan_reset data 0 of
        None \<Rightarrow> Inl json_error
      | Some n \<Rightarrow> (let (v, ok) = unmarshal fs (take n data) a in if ok then Inr v else Inl json_error))"

definition bodyLimit :: nat where "bodyLimit = 1048576"

definition limited_body :: "http_response \<Rightarrow> bytes \<times> bool" where
  "limited_body resp = (take bodyLimit (rs_body resp), rs_fail resp = None \<or> bodyLimit \<le> length (rs_body resp))"

definition fetchJSON ::
  "'w oauth_env \<Rightarrow> bytes \<Rightarrow> (bytes \<times> 'a setter) list \<Rightarrow> 'a \<Rightarrow> 'w \<Rightarrow> (gerr + 'a) \<times> 'w" where
  "fetchJSON env rawURL fs a w =
     (case requireHTTPS rawURL of
        Some e \<Rightarrow> (Inl e, w)
      | None \<Rightarrow>
          (case new_http_request http_get rawURL [] of
             Inl e \<Rightarrow> (Inl e, w)
           | Inr req \<Rightarrow>
               (case oe_http env (req\<lparr>rq_header := hset (rq_header req) ''Accept'' ''application/json''\<rparr>) w of
                  (Inl e, w1) \<Rightarrow> (Inl e, w1)
                | (Inr resp, w1) \<Rightarrow>
                    if rs_status resp \<noteq> 200
                    then (Inl (Message (''GET '' @ rawURL @ '': HTTP '' @ dec_nat (rs_status resp))), w1)
                    else (let (data, eof) = limited_body resp in (decode_first fs eof data a, w1)))))"

section \<open>Protected resource metadata\<close>

definition pr_fields :: "(bytes \<times> pr_metadata setter) list" where
  "pr_fields =
     [(''resource'', string_field (\<lambda>s m. m\<lparr>pr_Resource := s\<rparr>)),
      (''authorization_servers'', strings_field (\<lambda>s m. m\<lparr>AuthorizationServers := s\<rparr>)),
      (''scopes_supported'', strings_field (\<lambda>s m. m\<lparr>pr_ScopesSupported := s\<rparr>))]"

definition empty_prm :: pr_metadata where
  "empty_prm = \<lparr>pr_Resource = [], AuthorizationServers = [], pr_ScopesSupported = []\<rparr>"

fun prm_loop ::
  "'w oauth_env \<Rightarrow> bytes \<Rightarrow> bytes list \<Rightarrow> gerr \<Rightarrow> 'w \<Rightarrow> (gerr + bytes \<times> bytes list) \<times> 'w" where
  "prm_loop env canonical [] lastErr w =
     (Inl (Wrap (''protected resource metadata not found for '' @ canonical @ '': '') lastErr []), w)"
| "prm_loop env canonical (c # cs) lastErr w =
     (case fetchJSON env c pr_fields empty_prm w of
        (Inl e, w1) \<Rightarrow> prm_loop env canonical cs e w1
      | (Inr prm, w1) \<Rightarrow>
          if Canonicalize (pr_Resource prm) \<noteq> Inr canonical then
            prm_loop env canonical cs (Message (''PRM at '' @ c @ '' declares resource '' @
              go_quote (pr_Resource prm) @ '', want '' @ go_quote canonical)) w1
          else if length (AuthorizationServers prm) = 0 then
            prm_loop env canonical cs (Message (''PRM at '' @ c @ '' lists no authorization_servers'')) w1
          else (Inr (AuthorizationServers prm ! 0, pr_ScopesSupported prm), w1))"

definition prm_candidates :: "bytes \<Rightarrow> bytes \<Rightarrow> bytes list" where
  "prm_candidates canonical challenge =
     (let endpoint = the (url_parse canonical);
          metaURL = ResourceMetadata (parseChallenge challenge)
      in (if metaURL \<noteq> [] then [metaURL] else []) @
         (if Path endpoint \<noteq> [] then [wellKnown endpoint ''oauth-protected-resource'' (Path endpoint)] else []) @
         [wellKnown endpoint ''oauth-protected-resource'' []])"

definition discoverPRM ::
  "'w oauth_env \<Rightarrow> bytes \<Rightarrow> bytes \<Rightarrow> 'w \<Rightarrow> (gerr + bytes \<times> bytes list) \<times> 'w" where
  "discoverPRM env canonical challenge w =
     prm_loop env canonical (prm_candidates canonical challenge) (Message []) w"

section \<open>Authorization server metadata\<close>

definition as_fields :: "(bytes \<times> as_metadata setter) list" where
  "as_fields =
     [(''issuer'', string_field (\<lambda>s m. m\<lparr>as_Issuer := s\<rparr>)),
      (''authorization_endpoint'', string_field (\<lambda>s m. m\<lparr>AuthorizationEndpoint := s\<rparr>)),
      (''token_endpoint'', string_field (\<lambda>s m. m\<lparr>TokenEndpoint := s\<rparr>)),
      (''registration_endpoint'', string_field (\<lambda>s m. m\<lparr>RegistrationEndpoint := s\<rparr>)),
      (''scopes_supported'', strings_field (\<lambda>s m. m\<lparr>as_ScopesSupported := s\<rparr>)),
      (''code_challenge_methods_supported'', strings_field (\<lambda>s m. m\<lparr>CodeChallengeMethodsSupported := s\<rparr>))]"

definition empty_as :: as_metadata where
  "empty_as = \<lparr>as_Issuer = [], AuthorizationEndpoint = [], TokenEndpoint = [], RegistrationEndpoint = [],
     as_ScopesSupported = [], CodeChallengeMethodsSupported = [], FromOIDC = False\<rparr>"

definition methodS256 :: bytes where "methodS256 = ''S256''"

fun as_loop ::
  "'w oauth_env \<Rightarrow> bytes \<Rightarrow> (bytes \<times> bool) list \<Rightarrow> gerr \<Rightarrow> 'w \<Rightarrow> (gerr + as_metadata) \<times> 'w" where
  "as_loop env issuer [] lastErr w =
     (Inl (Wrap (''authorization server metadata not found for '' @ issuer @ '': '') lastErr []), w)"
| "as_loop env issuer ((target, oidc) # ps) lastErr w =
     (case fetchJSON env target as_fields empty_as w of
        (Inl e, w1) \<Rightarrow> as_loop env issuer ps e w1
      | (Inr md, w1) \<Rightarrow>
          if trim_suffix (as_Issuer md) ''/'' \<noteq> trim_suffix issuer ''/'' then
            as_loop env issuer ps (Message (''AS metadata at '' @ target @ '' declares issuer '' @
              go_quote (as_Issuer md) @ '', want '' @ go_quote issuer)) w1
          else if AuthorizationEndpoint md = [] \<or> TokenEndpoint md = [] then
            as_loop env issuer ps (Message (''AS metadata at '' @ target @ '' lacks endpoints'')) w1
          else
            (case requireHTTPS (AuthorizationEndpoint md) of
               Some e \<Rightarrow> (Inl e, w1)
             | None \<Rightarrow>
                 (case requireHTTPS (TokenEndpoint md) of
                    Some e \<Rightarrow> (Inl e, w1)
                  | None \<Rightarrow>
                      if \<not> List.member (CodeChallengeMethodsSupported md) methodS256 then
                        (Inl (Message (''authorization server '' @ issuer @
                           '' does not advertise PKCE S256 (code_challenge_methods_supported='' @
                           show_strings (CodeChallengeMethodsSupported md) @ '') '' @
                           [CHR 0xE2, CHR 0x80, CHR 0x94] @ '' refusing'')), w1)
                      else (Inr (md\<lparr>FromOIDC := oidc\<rparr>), w1))))"

definition as_probes :: "url \<Rightarrow> (bytes \<times> bool) list" where
  "as_probes iss =
     (if Path iss \<noteq> [] then
        [(wellKnown iss ''oauth-authorization-server'' (Path iss), False),
         (wellKnown iss ''openid-configuration'' (Path iss), True),
         (url_string iss @ ''/.well-known/'' @ ''openid-configuration'', True)]
      else
        [(wellKnown iss ''oauth-authorization-server'' [], False),
         (wellKnown iss ''openid-configuration'' [], True)])"

definition discoverAS :: "'w oauth_env \<Rightarrow> bytes \<Rightarrow> 'w \<Rightarrow> (gerr + as_metadata) \<times> 'w" where
  "discoverAS env issuer w =
     (case url_parse (trim_suffix issuer ''/'') of
        None \<Rightarrow> (Inl (Message (''bad issuer '' @ go_quote issuer)), w)
      | Some iss \<Rightarrow>
          if Host iss = [] then (Inl (Message (''bad issuer '' @ go_quote issuer)), w)
          else as_loop env issuer (as_probes iss) (Message []) w)"

section \<open>The chain\<close>

definition discover ::
  "'w oauth_env \<Rightarrow> bytes \<Rightarrow> flow \<Rightarrow> 'w \<Rightarrow> (gerr + discovery) \<times> flow \<times> 'w" where
  "discover env challenge f w =
     (case disco f of
        Some d \<Rightarrow> (Inr d, f, w)
      | None \<Rightarrow>
          (case Canonicalize (fl_Endpoint f) of
             Inl e \<Rightarrow> (Inl e, f, w)
           | Inr canonical \<Rightarrow>
               (case (if fl_Issuer f = [] then discoverPRM env canonical challenge w
                      else (Inr (fl_Issuer f, []), w)) of
                  (Inl e, w1) \<Rightarrow> (Inl e, f, w1)
                | (Inr (issuer, scopes), w1) \<Rightarrow>
                    (case discoverAS env issuer w1 of
                       (Inl e, w2) \<Rightarrow> (Inl e, f, w2)
                     | (Inr md, w2) \<Rightarrow>
                         let d = \<lparr>d_AS = md, PRMScopes = scopes\<rparr> in (Inr d, f\<lparr>disco := Some d\<rparr>, w2)))))"

section \<open>What the chain does to the world\<close>

text \<open>A relation between worlds that some operations of the environment keep: the requests without a
  body (all that discovery sends), as far as their URL passed \<open>requireHTTPS\<close>;\<close>

locale run_steps =
  fixes env :: "'w oauth_env" and R :: "'w \<Rightarrow> 'w \<Rightarrow> bool"
  assumes same: "R w w"
    and compose: "R w1 w2 \<Longrightarrow> R w2 w3 \<Longrightarrow> R w1 w3"

locale get_steps = run_steps +
  assumes got: "rq_body req = [] \<Longrightarrow> requireHTTPS (rq_url req) = None \<Longrightarrow> R w (snd (oe_http env req w))"
begin

lemma fetched: "fetchJSON env target fs a w = (r, w') \<Longrightarrow> R w w'"
proof (cases "requireHTTPS target")
  case None
  assume f: "fetchJSON env target fs a w = (r, w')"
  show ?thesis
  proof (cases "new_http_request http_get target []")
    case (Inr req)
    let ?q = "req\<lparr>rq_header := hset (rq_header req) ''Accept'' ''application/json''\<rparr>"
    obtain r1 w1 where d: "oe_http env ?q w = (r1, w1)" by (rule prod.exhaust)
    have "rq_body ?q = []" "rq_url ?q = target" using Inr by (auto simp: new_http_request_def split: if_splits)
    with got [of ?q w] None d have "R w w1" by simp
    moreover have "w' = w1"
      using f None Inr d by (cases r1) (auto simp: fetchJSON_def case_prod_beta split: if_splits)
    ultimately show ?thesis by simp
  qed (use f None in \<open>simp add: fetchJSON_def same\<close>)
qed (simp add: fetchJSON_def same)

lemma prm_looped: "prm_loop env canonical cs e w = (r, w') \<Longrightarrow> R w w'"
proof (induction cs arbitrary: e w)
  case (Cons c cs)
  obtain r1 w1 where f: "fetchJSON env c pr_fields empty_prm w = (r1, w1)" by (rule prod.exhaust)
  with Cons show ?case
    using fetched [OF f] by (cases r1) (auto split: if_splits intro: compose)
qed (simp add: same)

lemma as_looped: "as_loop env issuer ps e w = (r, w') \<Longrightarrow> R w w'"
proof (induction ps arbitrary: e w)
  case (Cons p ps)
  obtain t oidc where p: "p = (t, oidc)" by (rule prod.exhaust)
  obtain r1 w1 where f: "fetchJSON env t as_fields empty_as w = (r1, w1)" by (rule prod.exhaust)
  with Cons show ?case unfolding p
    using fetched [OF f] by (cases r1) (auto split: if_splits option.splits intro: compose)
qed (simp add: same)

lemma discovered: "discover env challenge f w = (r, f', w') \<Longrightarrow> R w w'"
  by (auto simp: discover_def discoverPRM_def discoverAS_def same Let_def
      split: option.splits sum.splits prod.splits if_splits
      intro: compose prm_looped as_looped)

end

text \<open>then what gives a token or a registration up, under the lock;\<close>

locale drop_steps = run_steps +
  assumes deleted: "R w (snd (st_delete env key w))"
    and client_deleted: "R w (snd (cs_delete env key w))"
    and acquired: "R w (snd (lk_acquire env key w))"
    and released: "R w (lk_release env key w)"

text \<open>and all of these, with savings and with requests of any kind; the interactive login is left out here.\<close>

locale world_steps = drop_steps +
  assumes saved: "R w (snd (st_save env key t w))"
    and client_saved: "R w (snd (cs_save env key r w))"
    and sent: "requireHTTPS (rq_url req) = None \<Longrightarrow> R w (snd (oe_http env req w))"
begin

lemma sent_to: "new_http_request method target body = Inr req \<Longrightarrow> requireHTTPS target = None \<Longrightarrow>
    oe_http env (req\<lparr>rq_header := h\<rparr>) w = (r, w') \<Longrightarrow> R w w'"
  using sent [of "req\<lparr>rq_header := h\<rparr>" w] by (auto simp: new_http_request_def split: if_splits)

end

sublocale world_steps \<subseteq> get_steps
  by unfold_locales (rule sent)

section \<open>What discovery accepts\<close>

text \<open>An authorization server the flow may talk to.\<close>

definition server_ok :: "as_metadata \<Rightarrow> bool" where
  "server_ok md \<longleftrightarrow> AuthorizationEndpoint md \<noteq> [] \<and> TokenEndpoint md \<noteq> [] \<and>
     requireHTTPS (AuthorizationEndpoint md) = None \<and> requireHTTPS (TokenEndpoint md) = None \<and>
     methodS256 \<in> set (CodeChallengeMethodsSupported md)"

lemma as_loop_sound:
  "as_loop env issuer ps e w = (Inr md, w') \<Longrightarrow>
     server_ok md \<and> trim_suffix (as_Issuer md) ''/'' = trim_suffix issuer ''/''"
proof (induction ps arbitrary: e w)
  case (Cons p ps)
  obtain t oidc where p: "p = (t, oidc)" by (rule prod.exhaust)
  obtain r1 w1 where f: "fetchJSON env t as_fields empty_as w = (r1, w1)" by (rule prod.exhaust)
  with Cons show ?case unfolding p
    by (cases r1) (auto simp: server_ok_def List.member_iff split: if_splits option.splits)
qed simp

definition disco_ok :: "flow \<Rightarrow> bool" where
  "disco_ok f = (case disco f of None \<Rightarrow> True | Some d \<Rightarrow> server_ok (d_AS d))"

lemma discover_ok:
  assumes "disco_ok f" "discover env challenge f w = (r, f', w')"
  shows "disco_ok f' \<and> (case r of Inr d \<Rightarrow> server_ok (d_AS d) | Inl _ \<Rightarrow> True)"
  using assms as_loop_sound
  by (fastforce simp: discover_def discoverAS_def disco_ok_def Let_def
      split: option.splits sum.splits prod.splits if_splits)

lemma discover_frame [simp]:
  assumes "discover env challenge f w = (r, f', w')"
  shows "reg f' = reg f" "cached f' = cached f" "lastRefreshed f' = lastRefreshed f"
    "lastLoggedIn f' = lastLoggedIn f" "fl_ClientID f' = fl_ClientID f" "fl_Endpoint f' = fl_Endpoint f"
    "CallbackPort f' = CallbackPort f"
  using assms
  by (auto simp: discover_def Let_def split: option.splits sum.splits prod.splits if_splits)

text \<open>C19: metadata is only accepted from the issuer it was asked of (up to one trailing slash,
  the mix-up defence), with both endpoints over https or loopback and with PKCE S256
  advertised, whatever the probed servers answer.\<close>

theorem discovery_validates_server:
  assumes "discoverAS env issuer w = (Inr md, w')"
  shows "trim_suffix (as_Issuer md) ''/'' = trim_suffix issuer ''/'' \<and>
    AuthorizationEndpoint md \<noteq> [] \<and> TokenEndpoint md \<noteq> [] \<and>
    requireHTTPS (AuthorizationEndpoint md) = None \<and> requireHTTPS (TokenEndpoint md) = None \<and>
    ''S256'' \<in> set (CodeChallengeMethodsSupported md)"
  using assms as_loop_sound
  by (fastforce simp: discoverAS_def server_ok_def methodS256_def split: option.splits if_splits)

text \<open>C20: an authorization server is only taken from a protected-resource document that names this
  very endpoint, fetched from the challenge's URL or from one of the well-known ones.\<close>

theorem discovery_binds_resource:
  assumes "discoverPRM env canonical challenge w = (Inr (issuer, scopes), w')"
  shows "\<exists>c w1 prm. c \<in> set (prm_candidates canonical challenge) \<and>
    fetchJSON env c pr_fields empty_prm w1 = (Inr prm, w') \<and>
    Canonicalize (pr_Resource prm) = Inr canonical \<and> AuthorizationServers prm \<noteq> [] \<and>
    issuer = AuthorizationServers prm ! 0 \<and> scopes = pr_ScopesSupported prm"
proof -
  have "\<exists>c w1 prm. c \<in> set cs \<and> fetchJSON env c pr_fields empty_prm w1 = (Inr prm, w') \<and>
    Canonicalize (pr_Resource prm) = Inr canonical \<and> AuthorizationServers prm \<noteq> [] \<and>
    issuer = AuthorizationServers prm ! 0 \<and> scopes = pr_ScopesSupported prm"
    if "prm_loop env canonical cs e w = (Inr (issuer, scopes), w')" for cs e w
    using that
  proof (induction cs arbitrary: e w)
    case (Cons c cs)
    obtain r1 w1 where f: "fetchJSON env c pr_fields empty_prm w = (r1, w1)" by (rule prod.exhaust)
    show ?case
    proof (cases "\<exists>prm. r1 = Inr prm \<and> Canonicalize (pr_Resource prm) = Inr canonical \<and> AuthorizationServers prm \<noteq> []")
      case True
      with Cons.prems f show ?thesis by (intro exI [of _ c] exI [of _ w]) auto
    next
      case False
      with Cons.prems f obtain e' where "prm_loop env canonical cs e' w1 = (Inr (issuer, scopes), w')"
        by (cases r1) (auto split: if_splits)
      from Cons.IH [OF this] show ?thesis by auto
    qed
  qed simp
  then show ?thesis using assms by (simp add: discoverPRM_def)
qed

section \<open>Scopes\<close>

text \<open>\<open>resolveScopes\<close> asks for more than it was told only in one way: the scopes of the
  profile are taken verbatim; otherwise those of the challenge, of the resource document or
  the OIDC default, in this order of preference, with \<open>offline_access\<close> added at the end
  exactly when the server advertises it and it is not among them.\<close>

theorem scopes_resolution:
  "resolveScopes f d challenge =
     (if fl_Scopes f \<noteq> [] then fl_Scopes f
      else
        let told = (if ch_Scope (parseChallenge challenge) \<noteq> [] then Some (string_fields (ch_Scope (parseChallenge challenge)))
                    else if PRMScopes d \<noteq> [] then Some (PRMScopes d)
                    else if FromOIDC (d_AS d) then Some [''openid'', ''profile''] else None)
        in case told of
             None \<Rightarrow> []
           | Some ss \<Rightarrow> ss @ (if ''offline_access'' \<notin> set ss \<and> ''offline_access'' \<in> set (as_ScopesSupported (d_AS d))
                           then [''offline_access''] else []))"
  by (simp add: resolveScopes_def withOffline_def scopeOffline_def List.member_iff Let_def)

section \<open>Concrete documents\<close>

lemma limited_body_small: "length (rs_body resp) \<le> bodyLimit \<Longrightarrow> rs_fail resp = None \<Longrightarrow>
    limited_body resp = (rs_body resp, True)"
  by (simp add: limited_body_def)

text \<open>A world in which every request is answered with one document.\<close>

definition document_env :: "bytes \<Rightarrow> unit oauth_env" where
  "document_env doc =
     \<lparr>oe_http = (\<lambda>_ w. (Inr \<lparr>rs_status = 200, rs_header = no_header, rs_body = doc, rs_fail = None\<rparr>, w)),
      st_load = (\<lambda>_ _. Inl ErrNotFound), st_save = (\<lambda>_ _ w. (None, w)), st_delete = (\<lambda>_ w. (None, w)),
      cs_load = (\<lambda>_ _. Inl ErrNotFound), cs_save = (\<lambda>_ _ w. (None, w)), cs_delete = (\<lambda>_ w. (None, w)),
      lk_acquire = (\<lambda>_ w. (None, w)), lk_release = (\<lambda>_ w. w), oe_now = (\<lambda>_. 0),
      oe_login = (\<lambda>_ _ _ w. (Inl ErrNotFound, w))\<rparr>"

lemma fetch_document:
  assumes "requireHTTPS target = None" "length doc \<le> bodyLimit" "decode_first fs True doc a = Inr v"
  shows "fetchJSON (document_env doc) target fs a w = (Inr v, w)"
proof -
  have "url_parse target \<noteq> None" using assms(1) by (auto simp: requireHTTPS_def split: option.splits)
  then show ?thesis
    using assms by (simp add: fetchJSON_def new_http_request_def document_env_def limited_body_small)
qed

definition member_text :: "bytes \<Rightarrow> bytes \<Rightarrow> bytes" where
  "member_text k v = json_string k @ '':'' @ v"

definition server_doc :: bytes where
  "server_doc = ''{'' @ member_text ''issuer'' (json_string ''https://as'') @ '','' @
     member_text ''authorization_endpoint'' (json_string ''https://as/a'') @ '','' @
     member_text ''token_endpoint'' (json_string ''https://as/t'') @ '','' @
     member_text ''code_challenge_methods_supported'' (''['' @ json_string ''S256'' @ '']'') @ ''}''"

definition server_md :: as_metadata where
  "server_md = \<lparr>as_Issuer = ''https://as'', AuthorizationEndpoint = ''https://as/a'',
     TokenEndpoint = ''https://as/t'', RegistrationEndpoint = [], as_ScopesSupported = [],
     CodeChallengeMethodsSupported = [''S256''], FromOIDC = False\<rparr>"

lemma server_decoded: "decode_first as_fields True server_doc empty_as = Inr server_md"
  by code_simp

lemma document_small: "length doc \<le> 1000 \<Longrightarrow> length doc \<le> bodyLimit"
  by (simp add: bodyLimit_def)

theorem discovery_validates_server_witness:
  "discoverAS (document_env server_doc) ''https://as/'' () = (Inr server_md, ()) \<and>
   requireHTTPS (TokenEndpoint server_md) = None"
proof -
  have u: "url_parse (trim_suffix ''https://as/'' ''/'') = Some (empty_url\<lparr>Scheme := ''https'', Host := ''as''\<rparr>)"
    by code_simp
  have t: "requireHTTPS (wellKnown (empty_url\<lparr>Scheme := ''https'', Host := ''as''\<rparr>) ''oauth-authorization-server'' []) = None"
    by code_simp
  have e: "requireHTTPS ''https://as/a'' = None" "requireHTTPS ''https://as/t'' = None" by code_simp+
  have "length server_doc \<le> 1000" by code_simp
  note f = fetch_document [OF t document_small [OF this] server_decoded, of "()"]
  have "discoverAS (document_env server_doc) ''https://as/'' () = (Inr server_md, ())"
    unfolding discoverAS_def u option.case as_probes_def
    by (simp add: empty_url_def f [unfolded empty_url_def, simplified] e server_md_def methodS256_def
        trim_suffix_def suffix_def)
  with discovery_validates_server [OF this] show ?thesis by blast
qed

definition resource_doc :: bytes where
  "resource_doc = ''{'' @ member_text ''resource'' (json_string ''https://mcp'') @ '','' @
     member_text ''authorization_servers'' (''['' @ json_string ''https://as'' @ '']'') @ ''}''"

lemma resource_decoded: "decode_first pr_fields True resource_doc empty_prm =
    Inr \<lparr>pr_Resource = ''https://mcp'', AuthorizationServers = [''https://as''], pr_ScopesSupported = []\<rparr>"
  by code_simp

theorem discovery_binds_resource_witness:
  "discoverPRM (document_env resource_doc) ''https://mcp'' [] () = (Inr (''https://as'', []), ()) \<and>
   (\<exists>c (prm :: pr_metadata). c \<in> set (prm_candidates ''https://mcp'' []) \<and> Canonicalize (pr_Resource prm) = Inr ''https://mcp'')"
proof -
  define c where "c = ''https://mcp/.well-known/oauth-protected-resource''"
  have p: "prm_candidates ''https://mcp'' [] = [c]" unfolding c_def by code_simp
  have t: "requireHTTPS c = None" unfolding c_def by code_simp
  have n: "Canonicalize ''https://mcp'' = Inr ''https://mcp''" by code_simp
  have "length resource_doc \<le> 1000" by code_simp
  note f = fetch_document [OF t document_small [OF this] resource_decoded, of "()"]
  have "discoverPRM (document_env resource_doc) ''https://mcp'' [] () = (Inr (''https://as'', []), ())"
    by (simp add: discoverPRM_def p f n)
  with discovery_binds_resource [OF this] show ?thesis by blast
qed

end
