(* ===== verification/Registration.thy ===== *)
theory Registration
  imports Discovery "HOL-Library.Word"
begin

text \<open>
  The client of a flow (\<open>pkg/oauth/register.go\<close> and the prologue of \<open>flow.go\<close>): the storage
  key, the client id in use, dynamic registration, and giving a registration up.  Every
  operation takes the flow and the world and returns both.
\<close>

section \<open>Storage keys\<close>

text \<open>SHA-256 (\<open>crypto/sha256\<close>).  Its constants are the first 32 bits of the fractional parts of
  the cube roots of the first 64 primes and of the square roots of the first eight.\<close>

definition sha_primes :: "nat list" where
  "sha_primes = filter (\<lambda>n. list_all (\<lambda>d. n mod d \<noteq> 0) [2..<n]) [2..<312]"

definition int_root :: "nat \<Rightarrow> nat \<Rightarrow> nat" where
  "int_root k n = foldl (\<lambda>r b. if (r + 2 ^ b) ^ k \<le> n then r + 2 ^ b else r) 0 (rev [0..<40])"

definition sha_k :: "32 word list" where
  "sha_k = map (\<lambda>p. of_nat (int_root 3 (p * 2 ^ 96))) sha_primes"

definition sha_init :: "32 word list" where
  "sha_init = map (\<lambda>p. of_nat (int_root 2 (p * 2 ^ 64))) (take 8 sha_primes)"

definition big_endian :: "nat \<Rightarrow> nat \<Rightarrow> nat list" where
  "big_endian k n = map (\<lambda>i. n div 256 ^ i mod 256) (rev [0..<k])"

definition sha_pad :: "bytes \<Rightarrow> nat list" where
  "sha_pad s = map byte s @ [128] @ replicate ((119 - length s mod 64) mod 64) 0 @ big_endian 8 (8 * length s)"

fun sha_word :: "nat list \<Rightarrow> 32 word" where
  "sha_word [a, b, c, d] = of_nat (a * 16777216 + b * 65536 + c * 256 + d)"
| "sha_word _ = 0"

fun chunks :: "nat \<Rightarrow> nat \<Rightarrow> 'a list \<Rightarrow> 'a list list" where
  "chunks k 0 xs = []"
| "chunks k (Suc n) xs = take k xs # chunks k n (drop k xs)"

unbundle bit_operations_syntax

definition sha_schedule_step :: "32 word list \<Rightarrow> 32 word list" where
  "sha_schedule_step w =
     (let n = length w; x = w ! (n - 15); y = w ! (n - 2);
          s0 = word_rotr 7 x XOR word_rotr 18 x XOR drop_bit 3 x;
          s1 = word_rotr 17 y XOR word_rotr 19 y XOR drop_bit 10 y
      in w @ [w ! (n - 16) + s0 + w ! (n - 7) + s1])"

definition sha_round :: "32 word list \<Rightarrow> 32 word \<times> 32 word \<Rightarrow> 32 word list" where
  "sha_round st kw =
     (case st of
        [a, b, c, d, e, f, g, h] \<Rightarrow>
          let s1 = word_rotr 6 e XOR word_rotr 11 e XOR word_rotr 25 e;
              ch = (e AND f) XOR (NOT e AND g);
              t1 = h + s1 + ch + fst kw + snd kw;
              s0 = word_rotr 2 a XOR word_rotr 13 a XOR word_rotr 22 a;
              maj = (a AND b) XOR (a AND c) XOR (b AND c);
              t2 = s0 + maj
          in [t1 + t2, a, b, c, d + t1, e, f, g]
      | _ \<Rightarrow> st)"

definition sha_block :: "32 word list \<Rightarrow> nat list \<Rightarrow> 32 word list" where
  "sha_block h blk =
     (let w = (sha_schedule_step ^^ 48) (map sha_word (chunks 4 16 blk))
      in map2 (+) h (foldl sha_round h (zip sha_k w)))"

definition sha256 :: "bytes \<Rightarrow> nat list" where
  "sha256 s =
     (let p = sha_pad s
      in concat (map (\<lambda>x. big_endian 4 (unat x)) (foldl sha_block sha_init (chunks 64 (length p div 64) p))))"

definition hex_encode :: "nat list \<Rightarrow> bytes" where
  "hex_encode bs = concat (map (\<lambda>b. [hex_char (b div 16), hex_char (b mod 16)]) bs)"

definition Key :: "bytes \<Rightarrow> bytes \<Rightarrow> bytes" where
  "Key canonicalURL clientID = take 16 (hex_encode (sha256 (canonicalURL @ [NUL] @ clientID)))"

section \<open>Errors\<close>

definition errNoClient :: gerr where "errNoClient = Sentinel ''no client_id''"
definition errClientGone :: gerr where "errClientGone = Sentinel ''client registration dropped''"
definition errCorruptRegistration :: gerr where
  "errCorruptRegistration = Sentinel ''corrupt client registration''"

section \<open>The client in use\<close>

definition callbackPort :: "flow \<Rightarrow> int" where
  "callbackPort f = (if CallbackPort f \<noteq> 0 then CallbackPort f else 18075)"

definition redirectURI :: "flow \<Rightarrow> bytes" where
  "redirectURI f = ''http://127.0.0.1:'' @ dec_int (callbackPort f) @ ''/callback''"

definition clientKey :: "flow \<Rightarrow> bytes \<Rightarrow> bytes" where
  "clientKey f canonical = Key canonical (redirectURI f)"

definition clientID :: "flow \<Rightarrow> bytes" where
  "clientID f = (case reg f of
     None \<Rightarrow> fl_ClientID f | Some r \<Rightarrow> if fl_ClientID f \<noteq> [] then fl_ClientID f else rg_ClientID r)"

text \<open>\<open>resourceKey\<close>: the canonical endpoint (also on most errors), and the key or the error.\<close>

definition resourceKey :: "'w oauth_env \<Rightarrow> flow \<Rightarrow> 'w \<Rightarrow> bytes \<times> (gerr + bytes) \<times> flow" where
  "resourceKey env f w =
     (case Canonicalize (fl_Endpoint f) of
        Inl e \<Rightarrow> ([], Inl e, f)
      | Inr canonical \<Rightarrow>
          if fl_ClientID f = [] \<and> reg f = None then
            (case cs_load env (clientKey f canonical) w of
               Inl e \<Rightarrow> (canonical, Inl (if err_is e ErrNotFound then errNoClient else e), f)
             | Inr r \<Rightarrow> let f' = f\<lparr>reg := Some r\<rparr> in (canonical, Inr (Key canonical (clientID f')), f'))
          else (canonical, Inr (Key canonical (clientID f)), f))"

text \<open>\<open>WithLock\<close> around an operation on the flow and the world.\<close>

definition WithLock ::
  "'w oauth_env \<Rightarrow> bytes \<Rightarrow> (flow \<Rightarrow> 'w \<Rightarrow> (gerr + 'r) \<times> flow \<times> 'w) \<Rightarrow> flow \<Rightarrow> 'w
     \<Rightarrow> (gerr + 'r) \<times> flow \<times> 'w" where
  "WithLock env key fn f w =
     (case lk_acquire env key w of
        (Some e, w1) \<Rightarrow> (Inl e, f, w1)
      | (None, w1) \<Rightarrow> (let (r, f2, w2) = fn f w1 in (r, f2, lk_release env key w2)))"

section \<open>Dynamic registration\<close>

definition json_strings :: "bytes list \<Rightarrow> bytes" where
  "json_strings xs = ''['' @ join '','' (map json_string xs) @ '']''"

definition registration_request :: "bytes \<Rightarrow> bytes" where
  "registration_request redirect =
     ''{'' @ json_string ''client_name'' @ '':'' @ json_string ''mcpurl'' @ '','' @
     json_string ''grant_types'' @ '':'' @ json_strings [''authorization_code'', ''refresh_token''] @ '','' @
     json_string ''redirect_uris'' @ '':'' @ json_strings [redirect] @ '','' @
     json_string ''response_types'' @ '':'' @ json_strings [''code''] @ '','' @
     json_string ''token_endpoint_auth_method'' @ '':'' @ json_string ''none'' @ ''}''"

record reg_response =
  rr_ClientID :: bytes
  rr_ClientSecret :: bytes
  rr_RedirectURIs :: "bytes list"
  rr_Error :: bytes
  rr_ErrorDescription :: bytes

definition reg_fields :: "(bytes \<times> reg_response setter) list" where
  "reg_fields =
     [(''client_id'', string_field (\<lambda>s m. m\<lparr>rr_ClientID := s\<rparr>)),
      (''client_secret'', string_field (\<lambda>s m. m\<lparr>rr_ClientSecret := s\<rparr>)),
      (''redirect_uris'', strings_field (\<lambda>s m. m\<lparr>rr_RedirectURIs := s\<rparr>)),
      (''error'', string_field (\<lambda>s m. m\<lparr>rr_Error := s\<rparr>)),
      (''error_description'', string_field (\<lambda>s m. m\<lparr>rr_ErrorDescription := s\<rparr>))]"

definition empty_reg_response :: reg_response where
  "empty_reg_response = \<lparr>rr_ClientID = [], rr_ClientSecret = [], rr_RedirectURIs = [], rr_Error = [],
     rr_ErrorDescription = []\<rparr>"

definition at_endpoint :: "bytes \<Rightarrow> bytes" where
  "at_endpoint endpoint = ''client registration at '' @ endpoint"

text \<open>The checks of \<open>register\<close> on an answer.\<close>

definition check_registration ::
  "bytes \<Rightarrow> bytes \<Rightarrow> nat \<Rightarrow> reg_response \<Rightarrow> bool \<Rightarrow> gerr option" where
  "check_registration endpoint redirect status out ok =
     (if status \<noteq> 201 \<and> status \<noteq> 200 then
        Some (Message (at_endpoint endpoint @ '': HTTP '' @ dec_nat status @
          (if rr_Error out \<noteq> []
           then '' ('' @ redact_tokens (rr_Error out @ '': '' @ rr_ErrorDescription out) @ '')'' else [])))
      else if \<not> ok then Some (Wrap (at_endpoint endpoint @ '': bad response: '') json_error [])
      else if rr_ClientID out = [] then
        Some (Message (at_endpoint endpoint @ '': response has no client_id''))
      else if rr_ClientSecret out \<noteq> [] then
        Some (Message (at_endpoint endpoint @ '' issued a confidential client (client_secret): mcpurl registers public clients only '' @
          [CHR 0xE2, CHR 0x80, CHR 0x94] @ '' set clientID in the profile''))
      else if length (rr_RedirectURIs out) > 0 \<and> \<not> List.member (rr_RedirectURIs out) redirect then
        Some (Message (at_endpoint endpoint @ '': server registered redirect_uris '' @
          show_strings (rr_RedirectURIs out) @ '' instead of '' @ redirect))
      else None)"

definition register ::
  "'w oauth_env \<Rightarrow> discovery \<Rightarrow> flow \<Rightarrow> 'w \<Rightarrow> (gerr + registration) \<times> 'w" where
  "register env d f w =
     (let endpoint = RegistrationEndpoint (d_AS d); redirect = redirectURI f in
      case requireHTTPS endpoint of
        Some e \<Rightarrow> (Inl e, w)
      | None \<Rightarrow>
          (case new_http_request http_post endpoint (registration_request redirect) of
             Inl e \<Rightarrow> (Inl e, w)
           | Inr req \<Rightarrow>
               (case oe_http env (req\<lparr>rq_header := hset (hset (rq_header req) ''Content-Type'' ''application/json'')
                        ''Accept'' ''application/json''\<rparr>) w of
                  (Inl e, w1) \<Rightarrow> (Inl e, w1)
                | (Inr resp, w1) \<Rightarrow>
                    let (data, eof) = limited_body resp in
                    if \<not> eof then (Inl (the (rs_fail resp)), w1)
                    else
                      let (out, ok) = unmarshal reg_fields data empty_reg_response in
                      case check_registration endpoint redirect (rs_status resp) out ok of
                        Some e \<Rightarrow> (Inl e, w1)
                      | None \<Rightarrow> (Inr \<lparr>rg_ClientID = rr_ClientID out, rg_Issuer = as_Issuer (d_AS d),
                          RedirectURI = redirect, RegisteredAt = oe_now env w1\<rparr>, w1))))"

text \<open>The body of \<open>ensureClient\<close> under the registration lock.\<close>

definition register_locked ::
  "'w oauth_env \<Rightarrow> bytes \<Rightarrow> discovery \<Rightarrow> flow \<Rightarrow> 'w \<Rightarrow> (gerr + unit) \<times> flow \<times> 'w" where
  "register_locked env ck d f w =
     (case (case cs_load env ck w of Inr r \<Rightarrow> if rg_Issuer r = as_Issuer (d_AS d) then Some r else None
            | Inl _ \<Rightarrow> None) of
        Some r \<Rightarrow> (Inr (), f\<lparr>reg := Some r\<rparr>, w)
      | None \<Rightarrow>
          (case register env d f w of
             (Inl e, w1) \<Rightarrow> (Inl e, f, w1)
           | (Inr r, w1) \<Rightarrow>
               (case cs_save env ck r w1 of
                  (Some e, w2) \<Rightarrow> (Inl (Wrap ''persisting client registration: '' e []), f, w2)
                | (None, w2) \<Rightarrow> (Inr (), f\<lparr>reg := Some r\<rparr>, w2))))"

definition ensureClient ::
  "'w oauth_env \<Rightarrow> bytes \<Rightarrow> flow \<Rightarrow> 'w \<Rightarrow> (gerr + bytes \<times> bytes) \<times> flow \<times> 'w" where
  "ensureClient env challenge f w =
     (case resourceKey env f w of
        (canonical, Inr key, f1) \<Rightarrow> (Inr (canonical, key), f1, w)
      | (canonical, Inl e, f1) \<Rightarrow>
          if \<not> err_is e errNoClient then (Inl e, f1, w)
          else
            (case discover env challenge f1 w of
               (Inl e, f2, w2) \<Rightarrow> (Inl e, f2, w2)
             | (Inr d, f2, w2) \<Rightarrow>
                 if RegistrationEndpoint (d_AS d) = [] then
                   (Inl (Message (''no client_id: set clientID in the profile '' @ [CHR 0xE2, CHR 0x80, CHR 0x94] @
                      '' '' @ as_Issuer (d_AS d) @ '' offers no dynamic client registration'')), f2, w2)
                 else
                   (let ck = clientKey f2 canonical in
                    case WithLock env (''client-'' @ ck) (register_locked env ck d) f2 w2 of
                      (Inl e, f3, w3) \<Rightarrow> (Inl e, f3, w3)
                    | (Inr _, f3, w3) \<Rightarrow> (Inr (canonical, Key canonical (clientID f3)), f3, w3))))"

section \<open>Giving a registration up\<close>

definition foreignClient :: "discovery \<Rightarrow> flow \<Rightarrow> bool" where
  "foreignClient d f =
     (fl_ClientID f = [] \<and> (case reg f of None \<Rightarrow> False | Some r \<Rightarrow> rg_Issuer r \<noteq> as_Issuer (d_AS d)))"

definition clientReplaced :: "'w oauth_env \<Rightarrow> bytes \<Rightarrow> flow \<Rightarrow> 'w \<Rightarrow> bool" where
  "clientReplaced env canonical f w =
     (case reg f of
        None \<Rightarrow> False
      | Some r \<Rightarrow> fl_ClientID f = [] \<and>
          (case cs_load env (clientKey f canonical) w of
             Inl _ \<Rightarrow> True | Inr r' \<Rightarrow> rg_ClientID r' \<noteq> rg_ClientID r))"

definition leaveClient :: "flow \<Rightarrow> flow" where
  "leaveClient f = f\<lparr>reg := None, cached := None, lastRefreshed := [], lastLoggedIn := []\<rparr>"

definition drop_locked :: "'w oauth_env \<Rightarrow> bytes \<Rightarrow> bytes \<Rightarrow> flow \<Rightarrow> 'w \<Rightarrow> (gerr + unit) \<times> flow \<times> 'w" where
  "drop_locked env ck gone f w =
     (case cs_load env ck w of
        Inr r \<Rightarrow>
          if rg_ClientID r = gone then
            (case cs_delete env ck w of (Some e, w1) \<Rightarrow> (Inl e, f, w1) | (None, w1) \<Rightarrow> (Inr (), f, w1))
          else (Inr (), f, w)
      | Inl _ \<Rightarrow> (Inr (), f, w))"

definition dropClient :: "'w oauth_env \<Rightarrow> bytes \<Rightarrow> bytes \<Rightarrow> flow \<Rightarrow> 'w \<Rightarrow> gerr \<times> flow \<times> 'w" where
  "dropClient env canonical key f w =
     (let gone = rg_ClientID (the (reg f));
          (_, w1) = st_delete env key w;
          f1 = leaveClient f;
          ck = clientKey f1 canonical
      in case WithLock env (''client-'' @ ck) (drop_locked env ck gone) f1 w1 of
           (Inl e, f2, w2) \<Rightarrow> (e, f2, w2)
         | (Inr _, f2, w2) \<Rightarrow> (errClientGone, f2, w2))"

text \<open>\<open>Flow.Registration\<close> and \<open>Flow.Forget\<close>.\<close>

definition Registration :: "'w oauth_env \<Rightarrow> flow \<Rightarrow> 'w \<Rightarrow> (gerr + registration option) \<times> flow" where
  "Registration env f w =
     (case resourceKey env f w of
        (_, r, f1) \<Rightarrow>
          (case r of
             Inl e \<Rightarrow> if \<not> err_is e errNoClient then (Inl e, f1)
                      else if fl_ClientID f1 \<noteq> [] then (Inr None, f1) else (Inr (reg f1), f1)
           | Inr _ \<Rightarrow> if fl_ClientID f1 \<noteq> [] then (Inr None, f1) else (Inr (reg f1), f1)))"

record forgotten =
  fg_token :: bool
  fg_registration :: bool
  fg_err :: "gerr option"

definition Forget :: "'w oauth_env \<Rightarrow> flow \<Rightarrow> 'w \<Rightarrow> forgotten \<times> flow \<times> 'w" where
  "Forget env f w =
     (case resourceKey env f w of
        (canonical, Inl e, f1) \<Rightarrow>
          if err_is e errNoClient then (\<lparr>fg_token = False, fg_registration = False, fg_err = None\<rparr>, f1, w)
          else if err_is e errCorruptRegistration then
            (let (derr, w1) = cs_delete env (clientKey f1 canonical) w
             in (\<lparr>fg_token = False, fg_registration = True, fg_err = derr\<rparr>, f1, w1))
          else (\<lparr>fg_token = False, fg_registration = False, fg_err = Some e\<rparr>, f1, w)
      | (canonical, Inr key, f1) \<Rightarrow>
          let loaded = st_load env key w in
          (case st_delete env key w of
             (Some e, w1) \<Rightarrow> (\<lparr>fg_token = False, fg_registration = False, fg_err = Some e\<rparr>, f1, w1)
           | (None, w1) \<Rightarrow>
               let tok = (case loaded of Inl e \<Rightarrow> \<not> err_is e ErrNotFound | Inr _ \<Rightarrow> True) in
               if reg f1 \<noteq> None then
                 (case cs_delete env (clientKey f1 canonical) w1 of
                    (Some e, w2) \<Rightarrow> (\<lparr>fg_token = tok, fg_registration = False, fg_err = Some e\<rparr>, f1, w2)
                  | (None, w2) \<Rightarrow>
                      (\<lparr>fg_token = tok, fg_registration = True, fg_err = None\<rparr>, leaveClient f1, w2))
               else (\<lparr>fg_token = tok, fg_registration = False, fg_err = None\<rparr>, f1, w1)))"

section \<open>What these operations do to the world\<close>

context drop_steps
begin

lemma locked:
  assumes "\<And>v r' f'' v'. fn f v = (r', f'', v') \<Longrightarrow> R v v'" "WithLock env key fn f w = (r, f', w')"
  shows "R w w'"
proof -
  obtain e w1 where a: "lk_acquire env key w = (e, w1)" by (rule prod.exhaust)
  obtain r2 f2 w2 where x: "fn f w1 = (r2, f2, w2)" by (rule prod_cases3)
  have "R w w1" using acquired [of w key] a by simp
  moreover have "R w w2" using \<open>R w w1\<close> assms(1) [OF x] by (rule compose)
  moreover have "R w (lk_release env key w2)" using \<open>R w w2\<close> released by (rule compose)
  ultimately show ?thesis using assms(2) a x by (cases e) (auto simp: WithLock_def)
qed

lemma drop_lock_held: "drop_locked env ck gone f w = (r, f', w') \<Longrightarrow> R w w'"
  using client_deleted [of w ck]
  by (auto simp: drop_locked_def same split: sum.splits if_splits option.splits prod.splits)

lemma dropped: "dropClient env canonical key f w = (e, f', w') \<Longrightarrow> R w w'"
proof -
  assume d: "dropClient env canonical key f w = (e, f', w')"
  let ?f = "leaveClient f" and ?g = "rg_ClientID (the (reg f))"
  obtain x w1 where s: "st_delete env key w = (x, w1)" by (rule prod.exhaust)
  obtain r2 f2 w2 where l: "WithLock env (''client-'' @ clientKey ?f canonical)
      (drop_locked env (clientKey ?f canonical) ?g) ?f w1 = (r2, f2, w2)" by (rule prod_cases3)
  have "R w w1" using deleted [of w key] s by simp
  moreover have "R w1 w2" by (rule locked [OF _ l]) (rule drop_lock_held)
  ultimately have "R w w2" by (rule compose)
  with d s l show ?thesis by (cases r2) (auto simp: dropClient_def Let_def)
qed

end

context world_steps
begin

lemma registered: "register env d f w = (r, w') \<Longrightarrow> R w w'"
proof -
  let ?e = "RegistrationEndpoint (d_AS d)" and ?b = "registration_request (redirectURI f)"
  assume r: "register env d f w = (r, w')"
  show ?thesis
  proof (cases "requireHTTPS ?e")
    case None
    show ?thesis
    proof (cases "new_http_request http_post ?e ?b")
      case (Inr req)
      let ?q = "req\<lparr>rq_header := hset (hset (rq_header req) ''Content-Type'' ''application/json'')
          ''Accept'' ''application/json''\<rparr>"
      obtain r1 w1 where d: "oe_http env ?q w = (r1, w1)" by (rule prod.exhaust)
      have "w' = w1"
        using r None Inr d
        by (cases r1) (auto simp: register_def case_prod_beta Let_def split: if_splits option.splits)
      with sent_to [OF Inr None d] show ?thesis by simp
    qed (use r None in \<open>simp add: register_def Let_def same\<close>)
  qed (use r in \<open>simp add: register_def Let_def same\<close>)
qed

lemma register_lock_held: "register_locked env ck d f w = (r, f', w') \<Longrightarrow> R w w'"
proof -
  assume r: "register_locked env ck d f w = (r, f', w')"
  obtain r1 w1 where g: "register env d f w = (r1, w1)" by (rule prod.exhaust)
  have one: "R w w1" by (rule registered [OF g])
  have "R w (snd (cs_save env ck x w1))" for x using one client_saved by (rule compose)
  then show ?thesis
    using r g one
    by (auto simp: register_locked_def same split: sum.splits option.splits if_splits prod.splits)
      (metis snd_conv)+
qed

lemma resourceKey_world: "resourceKey env f w = (c, r, f') \<Longrightarrow>
    disco f' = disco f \<and> lastLoggedIn f' = lastLoggedIn f \<and> lastRefreshed f' = lastRefreshed f"
  by (auto simp: resourceKey_def Let_def split: sum.splits if_splits)

lemma ensured: "ensureClient env challenge f w = (r, f', w') \<Longrightarrow> R w w'"
proof -
  assume e: "ensureClient env challenge f w = (r, f', w')"
  obtain c k f1 where k: "resourceKey env f w = (c, k, f1)" by (rule prod_cases3)
  obtain r2 f2 w2 where d: "discover env challenge f1 w = (r2, f2, w2)" by (rule prod_cases3)
  have one: "R w w2" by (rule discovered [OF d])
  show ?thesis
  proof (cases "\<exists>x d'. k = Inl x \<and> err_is x errNoClient \<and> r2 = Inr d' \<and> RegistrationEndpoint (d_AS d') \<noteq> []")
    case False
    with e k d one show ?thesis
      by (cases k; cases r2) (auto simp: ensureClient_def same split: if_splits)
  next
    case True
    then obtain x d' where h: "k = Inl x" "err_is x errNoClient" "r2 = Inr d'" "RegistrationEndpoint (d_AS d') \<noteq> []"
      by blast
    obtain r3 f3 w3 where l: "WithLock env (''client-'' @ clientKey f2 c) (register_locked env (clientKey f2 c) d') f2 w2
        = (r3, f3, w3)" by (rule prod_cases3)
    have "R w2 w3" by (rule locked [OF _ l]) (rule register_lock_held)
    with one have "R w w3" by (rule compose)
    with e k d h l show ?thesis by (cases r3) (auto simp: ensureClient_def Let_def)
  qed
qed

end

section \<open>What the operations keep of the flow\<close>

lemma register_locked_flow:
  "register_locked env ck d f w = (r, f', w') \<Longrightarrow> \<exists>x. f' = f\<lparr>reg := x\<rparr>"
  by (auto simp: register_locked_def split: sum.splits option.splits if_splits prod.splits)
    (metis (no_types) flow.surjective flow.update_convs(8))+

lemma drop_locked_flow: "drop_locked env ck gone f w = (r, f', w') \<Longrightarrow> f' = f"
  by (auto simp: drop_locked_def split: sum.splits option.splits if_splits prod.splits)

lemma dropClient_flow: "dropClient env canonical key f w = (e, f', w') \<Longrightarrow> f' = leaveClient f"
  by (auto simp: dropClient_def WithLock_def Let_def dest: drop_locked_flow
      split: sum.splits option.splits if_splits prod.splits)

lemma resourceKey_flow: "resourceKey env f w = (c, r, f') \<Longrightarrow> \<exists>x. f' = f\<lparr>reg := x\<rparr>"
  by (auto simp: resourceKey_def Let_def split: sum.splits if_splits)
    (metis (no_types) flow.surjective flow.update_convs(8))+

lemma ensureClient_flow:
  "ensureClient env challenge f w = (r, f', w') \<Longrightarrow>
     cached f' = cached f \<and> lastRefreshed f' = lastRefreshed f \<and> lastLoggedIn f' = lastLoggedIn f \<and>
     fl_ClientID f' = fl_ClientID f \<and> fl_Endpoint f' = fl_Endpoint f \<and> (disco_ok f \<longrightarrow> disco_ok f')"
proof -
  assume e: "ensureClient env challenge f w = (r, f', w')"
  obtain c k f1 where k: "resourceKey env f w = (c, k, f1)" by (rule prod_cases3)
  obtain x where f1: "f1 = f\<lparr>reg := x\<rparr>" using resourceKey_flow [OF k] by blast
  obtain r2 f2 w2 where d: "discover env challenge f1 w = (r2, f2, w2)" by (rule prod_cases3)
  have ok: "disco_ok f \<longrightarrow> disco_ok f2" using discover_ok [OF _ d] by (simp add: f1 disco_ok_def)
  have f': "f' = f1 \<or> (\<exists>y. f' = f2\<lparr>reg := y\<rparr>) \<or> f' = f2"
    using e k d
    by (auto simp: ensureClient_def WithLock_def Let_def dest: register_locked_flow
        split: sum.splits if_splits option.splits prod.splits)
  then show ?thesis
    using discover_frame [OF d] ok by (auto simp: f1 disco_ok_def)
qed

end
