(* ===== verification/Flow.thy ===== *)
theory Flow
  imports Registration
begin

text \<open>
  The token ladder (\<open>pkg/oauth/flow.go\<close>): the fast path, the refresh under the cross-process
  lock with rotation of refresh tokens, and the fallthrough to one interactive login.
\<close>

definition expirySkew :: int where "expirySkew = 60 * second"

definition Fresh :: "token option \<Rightarrow> int \<Rightarrow> int \<Rightarrow> bool" where
  "Fresh t skew now =
     (case t of
        None \<Rightarrow> False
      | Some t \<Rightarrow> AccessToken t \<noteq> [] \<and> (case Expiry t of None \<Rightarrow> True | Some e \<Rightarrow> e - now > skew))"

definition errInvalidGrant :: gerr where "errInvalidGrant = Sentinel ''invalid_grant''"
definition errInvalidClient :: gerr where "errInvalidClient = Sentinel ''invalid_client''"

definition selfIssued :: "flow \<Rightarrow> bytes \<Rightarrow> bool" where
  "selfIssued f rejected \<longleftrightarrow> rejected \<noteq> [] \<and> (rejected = lastRefreshed f \<or> rejected = lastLoggedIn f)"

definition em_dash :: bytes where "em_dash = [CHR 0xE2, CHR 0x80, CHR 0x94]"

definition rejectionError :: "bearer_challenge \<Rightarrow> gerr" where
  "rejectionError ch =
     Message (''server rejects freshly issued tokens; giving up '' @ em_dash @
       '' the authorization server and the resource server disagree (check the token signing algorithm, the audience/resource, and the issuer)'' @
       (if detail ch \<noteq> [] then ''; server said: '' @ detail ch else []))"

section \<open>Refresh\<close>

record token_response =
  tr_AccessToken :: bytes
  tr_RefreshToken :: bytes
  tr_ExpiresIn :: int
  tr_Scope :: bytes

definition tr_fields :: "(bytes \<times> token_response setter) list" where
  "tr_fields =
     [(''access_token'', string_field (\<lambda>s m. m\<lparr>tr_AccessToken := s\<rparr>)),
      (''refresh_token'', string_field (\<lambda>s m. m\<lparr>tr_RefreshToken := s\<rparr>)),
      (''expires_in'', int64_field (\<lambda>n m. m\<lparr>tr_ExpiresIn := n\<rparr>)),
      (''scope'', string_field (\<lambda>s m. m\<lparr>tr_Scope := s\<rparr>))]"

definition empty_tr :: token_response where
  "empty_tr = \<lparr>tr_AccessToken = [], tr_RefreshToken = [], tr_ExpiresIn = 0, tr_Scope = []\<rparr>"

definition error_fields :: "(bytes \<times> bytes setter) list" where
  "error_fields = [(''error'', string_field (\<lambda>s _. s))]"

text \<open>\<open>time.Duration(n) * time.Second\<close> on 64 bits.\<close>

definition seconds_duration :: "int \<Rightarrow> int" where
  "seconds_duration n = sint (word_of_int (n * second) :: 64 word)"

definition refresh_form :: "flow \<Rightarrow> bytes \<Rightarrow> token \<Rightarrow> bytes" where
  "refresh_form f canonical stored =
     form_encode [(''client_id'', clientID f), (''grant_type'', ''refresh_token''),
       (''refresh_token'', RefreshToken stored), (''resource'', canonical)]"

text \<open>The token a successful answer stands for.\<close>

definition refreshed_token :: "flow \<Rightarrow> discovery \<Rightarrow> token \<Rightarrow> token_response \<Rightarrow> int \<Rightarrow> token" where
  "refreshed_token f d stored tr now =
     \<lparr>AccessToken = tr_AccessToken tr,
      RefreshToken = (if tr_RefreshToken tr \<noteq> [] then tr_RefreshToken tr else RefreshToken stored),
      Expiry = (if tr_ExpiresIn tr > 0 then Some (now + seconds_duration (tr_ExpiresIn tr)) else None),
      tk_Issuer = as_Issuer (d_AS d), tk_ClientID = clientID f,
      tk_Scopes = grantedScopes (tr_Scope tr) (tk_Scopes stored)\<rparr>"

definition refresh_error :: "nat \<Rightarrow> bytes \<Rightarrow> gerr" where
  "refresh_error status err =
     (if err = ''invalid_grant'' then errInvalidGrant
      else if err = ''invalid_client'' then
        Wrap (''token endpoint HTTP '' @ dec_nat status @ '' ('') errInvalidClient '')''
      else Message (''token endpoint HTTP '' @ dec_nat status @ '' ('' @ err @ '')''))"

definition refresh ::
  "'w oauth_env \<Rightarrow> discovery \<Rightarrow> bytes \<Rightarrow> token \<Rightarrow> flow \<Rightarrow> 'w \<Rightarrow> (gerr + token) \<times> 'w" where
  "refresh env d canonical stored f w =
     (case new_http_request http_post (TokenEndpoint (d_AS d)) (refresh_form f canonical stored) of
        Inl e \<Rightarrow> (Inl e, w)
      | Inr req \<Rightarrow>
          (case oe_http env (req\<lparr>rq_header :=
                   hset (rq_header req) ''Content-Type'' ''application/x-www-form-urlencoded''\<rparr>) w of
             (Inl e, w1) \<Rightarrow> (Inl e, w1)
           | (Inr resp, w1) \<Rightarrow>
               let (data, eof) = limited_body resp in
               if \<not> eof then (Inl (the (rs_fail resp)), w1)
               else if rs_status resp \<noteq> 200 then
                 (Inl (refresh_error (rs_status resp) (fst (unmarshal error_fields data []))), w1)
               else
                 let (tr, ok) = unmarshal tr_fields data empty_tr in
                 if \<not> ok then (Inl (Wrap ''bad token response: '' json_error []), w1)
                 else if tr_AccessToken tr = [] then
                   (Inl (Message ''token response has no access_token''), w1)
                 else (Inr (refreshed_token f d stored tr (oe_now env w1)), w1)))"

section \<open>Login\<close>

definition loginAndSave ::
  "'w oauth_env \<Rightarrow> bytes \<Rightarrow> discovery \<Rightarrow> bytes \<Rightarrow> flow \<Rightarrow> 'w \<Rightarrow> (gerr + token) \<times> flow \<times> 'w" where
  "loginAndSave env key d challenge f w =
     (case oe_login env f d (resolveScopes f d challenge) w of
        (Inl e, w1) \<Rightarrow> (Inl e, f, w1)
      | (Inr t0, w1) \<Rightarrow>
          let t = t0\<lparr>tk_Issuer := as_Issuer (d_AS d), tk_ClientID := clientID f\<rparr> in
          (case st_save env key t w1 of
             (Some e, w2) \<Rightarrow> (Inl (Wrap ''persisting token after login: '' e []), f, w2)
           | (None, w2) \<Rightarrow> (Inr t, f\<lparr>lastLoggedIn := AccessToken t, cached := Some t\<rparr>, w2)))"

section \<open>One round\<close>

text \<open>The tail of \<open>obtain\<close>: the interactive rung.\<close>

definition interactive ::
  "'w oauth_env \<Rightarrow> bytes \<Rightarrow> discovery \<Rightarrow> bytes \<Rightarrow> bytes \<Rightarrow> flow \<Rightarrow> 'w \<Rightarrow> (gerr + bytes) \<times> flow \<times> 'w" where
  "interactive env key d rejected challenge f w =
     (if rejected \<noteq> [] \<and> rejected = lastLoggedIn f then
        (Inl (rejectionError (parseChallenge challenge)), f, w)
      else
        (case loginAndSave env key d challenge f w of
           (Inl e, f1, w1) \<Rightarrow> (Inl e, f1, w1)
         | (Inr t, f1, w1) \<Rightarrow> (Inr (AccessToken t), f1, w1)))"

text \<open>The refresh rung, with what each refusal leads to.\<close>

definition refresh_rung ::
  "'w oauth_env \<Rightarrow> bytes \<Rightarrow> bytes \<Rightarrow> discovery \<Rightarrow> token \<Rightarrow> bytes \<Rightarrow> bytes \<Rightarrow> flow \<Rightarrow> 'w
     \<Rightarrow> (gerr + bytes) \<times> flow \<times> 'w" where
  "refresh_rung env key canonical d stored rejected challenge f w =
     (case refresh env d canonical stored f w of
        (Inr t, w1) \<Rightarrow>
          (case st_save env key t w1 of
             (Some e, w2) \<Rightarrow> (Inl (Wrap ''persisting refreshed token: '' e []), f, w2)
           | (None, w2) \<Rightarrow>
               (Inr (AccessToken t), f\<lparr>lastRefreshed := AccessToken t, cached := Some t\<rparr>, w2))
      | (Inl rerr, w1) \<Rightarrow>
          if err_is rerr errInvalidGrant then
            (let (_, w2) = st_delete env key w1 in interactive env key d rejected challenge f w2)
          else if err_is rerr errInvalidClient \<and> reg f \<noteq> None then
            (let (e, f2, w2) = dropClient env canonical key f w1 in (Inl e, f2, w2))
          else (Inl (Wrap ''token refresh: '' rerr []), f, w1))"

definition stored_token :: "'w oauth_env \<Rightarrow> bytes \<Rightarrow> 'w \<Rightarrow> gerr + token option" where
  "stored_token env key w =
     (case st_load env key w of
        Inr t \<Rightarrow> Inr (Some t)
      | Inl e \<Rightarrow> if err_is e ErrNotFound then Inr None else Inl e)"

definition obtain_token ::
  "'w oauth_env \<Rightarrow> bytes \<Rightarrow> bytes \<Rightarrow> bytes \<Rightarrow> bytes \<Rightarrow> flow \<Rightarrow> 'w \<Rightarrow> (gerr + bytes) \<times> flow \<times> 'w" where
  "obtain_token env key canonical rejected challenge f w =
     (if clientReplaced env canonical f w then (Inl errClientGone, leaveClient f, w)
      else
        case stored_token env key w of
          Inl e \<Rightarrow> (Inl e, f, w)
        | Inr stored \<Rightarrow>
            if Fresh stored expirySkew (oe_now env w) \<and> AccessToken (the stored) \<noteq> rejected then
              (Inr (AccessToken (the stored)), f\<lparr>cached := stored\<rparr>, w)
            else
              let ch = parseChallenge challenge in
              if selfIssued f rejected \<and> \<not> staleToken ch then (Inl (rejectionError ch), f, w)
              else
                (case discover env challenge f w of
                   (Inl e, f1, w1) \<Rightarrow> (Inl e, f1, w1)
                 | (Inr d, f1, w1) \<Rightarrow>
                     if foreignClient d f1 then
                       (let (e, f2, w2) = dropClient env canonical key f1 w1 in (Inl e, f2, w2))
                     else if stored \<noteq> None \<and> RefreshToken (the stored) \<noteq> [] \<and>
                             (rejected = [] \<or> rejected \<noteq> lastRefreshed f1) then
                       refresh_rung env key canonical d (the stored) rejected challenge f1 w1
                     else interactive env key d rejected challenge f1 w1))"

text \<open>\<open>Flow.token\<close>: one round of \<open>Token\<close>.\<close>

definition token_round ::
  "'w oauth_env \<Rightarrow> bytes \<Rightarrow> bytes \<Rightarrow> flow \<Rightarrow> 'w \<Rightarrow> (gerr + bytes) \<times> flow \<times> 'w" where
  "token_round env rejected challenge f w =
     (case ensureClient env challenge f w of
        (Inl e, f1, w1) \<Rightarrow> (Inl e, f1, w1)
      | (Inr (canonical, key), f1, w1) \<Rightarrow>
          if rejected = [] \<and> Fresh (cached f1) expirySkew (oe_now env w1) then
            (Inr (AccessToken (the (cached f1))), f1, w1)
          else
            (case (if rejected = [] then st_load env key w1 else Inl ErrNotFound) of
               Inr t \<Rightarrow>
                 if Fresh (Some t) expirySkew (oe_now env w1)
                 then (Inr (AccessToken t), f1\<lparr>cached := Some t\<rparr>, w1)
                 else WithLock env key (obtain_token env key canonical rejected challenge) f1 w1
             | Inl _ \<Rightarrow> WithLock env key (obtain_token env key canonical rejected challenge) f1 w1))"

definition Token ::
  "'w oauth_env \<Rightarrow> bytes \<Rightarrow> bytes \<Rightarrow> flow \<Rightarrow> 'w \<Rightarrow> (gerr + bytes) \<times> flow \<times> 'w" where
  "Token env rejected challenge f w =
     (case token_round env rejected challenge f w of
        (Inl e, f1, w1) \<Rightarrow>
          if err_is e errClientGone then token_round env rejected challenge f1 w1 else (Inl e, f1, w1)
      | (Inr t, f1, w1) \<Rightarrow> (Inr t, f1, w1))"

section \<open>The login command\<close>

definition probeChallenge :: "'w oauth_env \<Rightarrow> bytes \<Rightarrow> 'w \<Rightarrow> bytes \<times> 'w" where
  "probeChallenge env canonical w =
     (case new_http_request http_post canonical [] of
        Inl e \<Rightarrow> ([], w)
      | Inr req \<Rightarrow>
          (case oe_http env (req\<lparr>rq_header :=
                   hset (rq_header req) ''Accept'' ''application/json, text/event-stream''\<rparr>) w of
             (Inl e, w1) \<Rightarrow> ([], w1)
           | (Inr resp, w1) \<Rightarrow> (hget (rs_header resp) ''WWW-Authenticate'', w1)))"

definition Login :: "'w oauth_env \<Rightarrow> flow \<Rightarrow> 'w \<Rightarrow> (gerr + token) \<times> flow \<times> 'w" where
  "Login env f w =
     (case Canonicalize (fl_Endpoint f) of
        Inl e \<Rightarrow> (Inl e, f, w)
      | Inr canonical \<Rightarrow>
          let (challenge, w1) = probeChallenge env canonical w in
          (case discover env challenge f w1 of
             (Inl e, f2, w2) \<Rightarrow> (Inl e, f2, w2)
           | (Inr d, f2, w2) \<Rightarrow>
               let (r, f3, w3) = ensureClient env challenge f2 w2;
                   (r', f4, w4) =
                     (case r of
                        Inr (_, key) \<Rightarrow>
                          if foreignClient d f3 then
                            (let (e, f', w') = dropClient env canonical key f3 w3 in
                             if err_is e errClientGone then ensureClient env challenge f' w'
                             else (Inl e, f', w'))
                          else (r, f3, w3)
                      | Inl e \<Rightarrow> (r, f3, w3))
               in (case r' of
                     Inl e \<Rightarrow> (Inl e, f4, w4)
                   | Inr (_, key) \<Rightarrow> WithLock env key (loginAndSave env key d challenge) f4 w4)))"

section \<open>What a round does to the world\<close>

lemma server_ok_token: "server_ok md \<Longrightarrow> requireHTTPS (TokenEndpoint md) = None"
  by (simp add: server_ok_def)

context world_steps
begin

lemma refreshed:
  assumes "requireHTTPS (TokenEndpoint (d_AS d)) = None" "refresh env d canonical stored f w = (r, w')"
  shows "R w w'"
proof (cases "new_http_request http_post (TokenEndpoint (d_AS d)) (refresh_form f canonical stored)")
  case (Inr req)
  let ?q = "req\<lparr>rq_header := hset (rq_header req) ''Content-Type'' ''application/x-www-form-urlencoded''\<rparr>"
  obtain r1 w1 where d: "oe_http env ?q w = (r1, w1)" by (rule prod.exhaust)
  have "w' = w1"
    using assms(2) Inr d by (cases r1) (auto simp: refresh_def case_prod_beta Let_def split: if_splits)
  with sent_to [OF Inr assms(1) d] show ?thesis by simp
qed (use assms in \<open>simp add: refresh_def same\<close>)

end

text \<open>With the interactive login among the operations that keep the relation.\<close>

locale login_steps = world_steps +
  assumes logged_in: "R w (snd (oe_login env f d scopes w))"
begin

lemma login_saved: "loginAndSave env key d challenge f w = (r, f', w') \<Longrightarrow> R w w'"
proof -
  assume l: "loginAndSave env key d challenge f w = (r, f', w')"
  obtain r1 w1 where g: "oe_login env f d (resolveScopes f d challenge) w = (r1, w1)" by (rule prod.exhaust)
  have one: "R w w1" using logged_in [of w f d "resolveScopes f d challenge"] g by simp
  have "R w (snd (st_save env key t w1))" for t using one saved by (rule compose)
  with l g one show ?thesis
    by (auto simp: loginAndSave_def Let_def split: sum.splits option.splits prod.splits) (metis snd_conv)+
qed

lemma interacted: "interactive env key d rejected challenge f w = (r, f', w') \<Longrightarrow> R w w'"
  by (auto simp: interactive_def same dest: login_saved split: if_splits sum.splits prod.splits)

lemma rung:
  assumes "requireHTTPS (TokenEndpoint (d_AS d)) = None"
    "refresh_rung env key canonical d stored rejected challenge f w = (r, f', w')"
  shows "R w w'"
proof -
  obtain r1 w1 where g: "refresh env d canonical stored f w = (r1, w1)" by (rule prod.exhaust)
  have one: "R w w1" by (rule refreshed [OF assms(1) g])
  have save: "R w (snd (st_save env key t w1))" for t using one saved by (rule compose)
  have del: "R w (snd (st_delete env key w1))" using one deleted by (rule compose)
  obtain x w2 where d: "st_delete env key w1 = (x, w2)" by (rule prod.exhaust)
  obtain r3 f3 w3 where i: "interactive env key d rejected challenge f w2 = (r3, f3, w3)" by (rule prod_cases3)
  obtain e4 f4 w4 where p: "dropClient env canonical key f w1 = (e4, f4, w4)" by (rule prod_cases3)
  have "R w w3" using del d interacted [OF i] by (auto intro: compose)
  moreover have "R w w4" using one dropped [OF p] by (rule compose)
  moreover have "R w w'" if "r1 = Inr t" for t
  proof -
    obtain y w5 where s: "st_save env key t w1 = (y, w5)" by (rule prod.exhaust)
    with save [of t] have "R w w5" by simp
    with that assms(2) g s show ?thesis by (cases y) (auto simp: refresh_rung_def)
  qed
  ultimately show ?thesis
    using assms(2) g d i p one
    by (cases r1) (auto simp: refresh_rung_def Let_def split: if_splits)
qed

lemma obtained:
  assumes "disco_ok f" "obtain_token env key canonical rejected challenge f w = (r, f', w')"
  shows "R w w'"
proof -
  obtain r1 f1 w1 where d: "discover env challenge f w = (r1, f1, w1)" by (rule prod_cases3)
  have one: "R w w1" by (rule discovered [OF d])
  note ok = discover_ok [OF assms(1) d]
  obtain e2 f2 w2 where p: "dropClient env canonical key f1 w1 = (e2, f2, w2)" by (rule prod_cases3)
  have drop: "R w w2" using one dropped [OF p] by (rule compose)
  show ?thesis
  proof (cases "w' = w")
    case False
    then consider (go) dd stored where "r1 = Inr dd" "stored_token env key w = Inr stored"
        "foreignClient dd f1 \<and> w' = w2 \<or>
         refresh_rung env key canonical dd (the stored) rejected challenge f1 w1 = (r, f', w') \<or>
         interactive env key dd rejected challenge f1 w1 = (r, f', w') \<or> w' = w1"
      | (stay) "w' = w1"
      using assms(2) d p by (auto simp: obtain_token_def Let_def split: sum.splits if_splits)
    then show ?thesis
    proof cases
      case go
      then have "requireHTTPS (TokenEndpoint (d_AS dd)) = None" using ok by (simp add: server_ok_def)
      from go one drop rung [OF this] interacted show ?thesis by (blast intro: compose)
    qed (use one in simp)
  qed (simp add: same)
qed

lemma round:
  assumes "disco_ok f" "token_round env rejected challenge f w = (r, f', w')"
  shows "R w w'"
proof -
  obtain r1 f1 w1 where e: "ensureClient env challenge f w = (r1, f1, w1)" by (rule prod_cases3)
  have one: "R w w1" by (rule ensured [OF e])
  have ok: "disco_ok f1" using ensureClient_flow [OF e] assms(1) by simp
  show ?thesis
  proof (cases "w' = w1")
    case False
    then obtain canonical key where
      "WithLock env key (obtain_token env key canonical rejected challenge) f1 w1 = (r, f', w')"
      using assms(2) e by (auto simp: token_round_def split: sum.splits if_splits)
    from locked [OF _ this] obtained [OF ok] have "R w1 w'" by blast
    with one show ?thesis by (rule compose)
  qed (use one in simp)
qed

end

lemma leaveClient_disco [simp]: "disco_ok (leaveClient f) = disco_ok f"
  by (simp add: leaveClient_def disco_ok_def)

lemma interactive_flow:
  "interactive env key d rejected challenge f w = (r, f', w') \<Longrightarrow> disco f' = disco f \<and> reg f' = reg f"
  by (auto simp: interactive_def loginAndSave_def Let_def split: if_splits sum.splits option.splits prod.splits)

lemma refresh_rung_disco:
  "refresh_rung env key canonical d stored rejected challenge f w = (r, f', w') \<Longrightarrow> disco f' = disco f"
  by (auto simp: refresh_rung_def Let_def leaveClient_def dest: interactive_flow dropClient_flow
      split: if_splits sum.splits option.splits prod.splits)

lemma obtain_disco_ok:
  assumes "disco_ok f" "obtain_token env key canonical rejected challenge f w = (r, f', w')"
  shows "disco_ok f'"
proof -
  obtain r1 f1 w1 where d: "discover env challenge f w = (r1, f1, w1)" by (rule prod_cases3)
  have ok: "disco_ok f1" using discover_ok [OF assms(1) d] by simp
  have "disco f' = disco f \<or> disco f' = disco f1"
    using assms(2) d
    by (auto simp: obtain_token_def Let_def leaveClient_def
        dest: interactive_flow refresh_rung_disco dropClient_flow split: sum.splits if_splits prod.splits)
  with ok assms(1) show ?thesis by (auto simp: disco_ok_def)
qed

lemma round_disco_ok:
  assumes "disco_ok f" "token_round env rejected challenge f w = (r, f', w')"
  shows "disco_ok f'"
proof -
  obtain r1 f1 w1 where e: "ensureClient env challenge f w = (r1, f1, w1)" by (rule prod_cases3)
  have ok: "disco_ok f1" using ensureClient_flow [OF e] assms(1) by simp
  have ok': "disco_ok (f1\<lparr>cached := x\<rparr>)" for x using ok by (simp add: disco_ok_def)
  show ?thesis
    using assms(2) e ok ok'
    by (auto simp: token_round_def WithLock_def Let_def dest: obtain_disco_ok [OF ok]
        split: sum.splits if_splits option.splits prod.splits)
qed

context login_steps
begin

lemma issued:
  assumes "disco_ok f" "Token env rejected challenge f w = (r, f', w')"
  shows "R w w'"
proof -
  obtain r1 f1 w1 where t: "token_round env rejected challenge f w = (r1, f1, w1)" by (rule prod_cases3)
  have one: "R w w1" by (rule round [OF assms(1) t])
  obtain r2 f2 w2 where u: "token_round env rejected challenge f1 w1 = (r2, f2, w2)" by (rule prod_cases3)
  have "R w1 w2" by (rule round [OF round_disco_ok [OF assms(1) t] u])
  with one have "R w w2" by (rule compose)
  with one assms(2) t u show ?thesis by (cases r1) (auto simp: Token_def split: if_splits)
qed

end

section \<open>Watching the requests and the logins\<close>

text \<open>The same environment with a log: \<open>on_request\<close> on every HTTP request, \<open>on_login\<close> on every
  interactive login.\<close>

definition lifted :: "('w \<Rightarrow> 'r \<times> 'w) \<Rightarrow> 'w \<times> 'x \<Rightarrow> 'r \<times> 'w \<times> 'x" where
  "lifted op v = (fst (op (fst v)), snd (op (fst v)), snd v)"

lemma lifted_log [simp]: "snd (snd (lifted op v)) = snd v" "fst (lifted op v) = fst (op (fst v))"
  by (simp_all add: lifted_def)

definition watched ::
  "(http_request \<Rightarrow> 'x \<Rightarrow> 'x) \<Rightarrow> ('x \<Rightarrow> 'x) \<Rightarrow> 'w oauth_env \<Rightarrow> ('w \<times> 'x) oauth_env" where
  "watched on_request on_login env =
     \<lparr>oe_http = (\<lambda>req v. let (r, w') = oe_http env req (fst v) in (r, w', on_request req (snd v))),
      st_load = (\<lambda>k v. st_load env k (fst v)), st_save = (\<lambda>k t. lifted (st_save env k t)),
      st_delete = (\<lambda>k. lifted (st_delete env k)),
      cs_load = (\<lambda>k v. cs_load env k (fst v)), cs_save = (\<lambda>k r. lifted (cs_save env k r)),
      cs_delete = (\<lambda>k. lifted (cs_delete env k)),
      lk_acquire = (\<lambda>k. lifted (lk_acquire env k)),
      lk_release = (\<lambda>k v. (lk_release env k (fst v), snd v)),
      oe_now = (\<lambda>v. oe_now env (fst v)),
      oe_login = (\<lambda>f d ss v. let (r, w') = oe_login env f d ss (fst v) in (r, w', on_login (snd v)))\<rparr>"

definition with_requests :: "'w oauth_env \<Rightarrow> ('w \<times> http_request list) oauth_env" where
  "with_requests = watched (\<lambda>req log. log @ [req]) id"

definition with_logins :: "'w oauth_env \<Rightarrow> ('w \<times> nat) oauth_env" where
  "with_logins = watched (\<lambda>_. id) Suc"

text \<open>A request that discloses nothing on the way.\<close>

definition secure_request :: "http_request \<Rightarrow> bool" where
  "secure_request req \<longleftrightarrow> requireHTTPS (rq_url req) = None"

definition secure_step :: "'w \<times> http_request list \<Rightarrow> 'w \<times> http_request list \<Rightarrow> bool" where
  "secure_step v v' \<longleftrightarrow> (list_all secure_request (snd v) \<longrightarrow> list_all secure_request (snd v'))"

interpretation secured: login_steps "with_requests env" secure_step for env
  by unfold_locales
    (auto simp: secure_step_def with_requests_def watched_def secure_request_def case_prod_beta)

interpretation counted: world_steps "with_logins env" "\<lambda>v v'. snd v' = snd v" for env
  by unfold_locales (auto simp: with_logins_def watched_def case_prod_beta)


section \<open>At most one login\<close>

lemma login_count:
  "loginAndSave (with_logins env) key d challenge f (w, n) = (r, f', v') \<Longrightarrow> snd v' = Suc n"
  by (auto simp: loginAndSave_def with_logins_def watched_def case_prod_beta Let_def
      split: sum.splits option.splits prod.splits)

text \<open>The errors that ask for a second round never come from the login or from saving.\<close>

definition quiet_login :: "'w oauth_env \<Rightarrow> bool" where
  "quiet_login env \<longleftrightarrow>
     (\<forall>f d ss w e. fst (oe_login env f d ss w) = Inl e \<longrightarrow> \<not> err_is e errClientGone) \<and>
     (\<forall>k t w e. fst (st_save env k t w) = Some e \<longrightarrow> \<not> err_is e errClientGone)"

text \<open>What a round may do: no login, or one and then no wish for another round.\<close>

definition one_login :: "nat \<Rightarrow> (gerr + 'r) \<Rightarrow> 'w \<times> nat \<Rightarrow> bool" where
  "one_login n r v \<longleftrightarrow> snd v = n \<or>
     (snd v = Suc n \<and> (case r of Inl e \<Rightarrow> \<not> err_is e errClientGone | Inr _ \<Rightarrow> True))"

lemma one_login_same: "snd v = n \<Longrightarrow> one_login n r v"
  by (simp add: one_login_def)

lemma login_once:
  assumes "quiet_login env" "loginAndSave (with_logins env) key d challenge f v = (r, f', v')"
  shows "one_login (snd v) r v'"
proof -
  obtain w n where v: "v = (w, n)" by (rule prod.exhaust)
  have "case r of Inl e \<Rightarrow> \<not> err_is e errClientGone | Inr _ \<Rightarrow> True"
    using assms unfolding v
    by (auto simp: loginAndSave_def with_logins_def watched_def case_prod_beta Let_def quiet_login_def
        split: sum.splits option.splits prod.splits)
  with login_count [OF assms(2) [unfolded v]] show ?thesis by (simp add: one_login_def v)
qed

lemma rejection_not_gone [simp]: "\<not> err_is (rejectionError ch) errClientGone"
  by (simp add: rejectionError_def)

lemma interactive_once:
  assumes "quiet_login env" "interactive (with_logins env) key d rejected challenge f v = (r, f', v')"
  shows "one_login (snd v) r v'"
proof (cases "rejected \<noteq> [] \<and> rejected = lastLoggedIn f")
  case True
  with assms show ?thesis by (auto simp: interactive_def one_login_def)
next
  case False
  obtain r1 f1 v1 where l: "loginAndSave (with_logins env) key d challenge f v = (r1, f1, v1)" by (rule prod_cases3)
  from login_once [OF assms(1) l] False assms(2) l show ?thesis
    by (cases r1) (auto simp: interactive_def one_login_def)
qed

lemma rung_once:
  assumes "quiet_login env" "requireHTTPS (TokenEndpoint (d_AS d)) = None"
    "refresh_rung (with_logins env) key canonical d stored rejected challenge f v = (r, f', v')"
  shows "one_login (snd v) r v'"
proof -
  obtain r1 v1 where g: "refresh (with_logins env) d canonical stored f v = (r1, v1)" by (rule prod.exhaust)
  have one: "snd v1 = snd v" by (rule counted.refreshed [OF assms(2) g])
  show ?thesis
  proof (cases r1)
    case (Inr t)
    obtain x v2 where s: "st_save (with_logins env) key t v1 = (x, v2)" by (rule prod.exhaust)
    with counted.saved [of env key t v1] one have "snd v2 = snd v" by simp
    with Inr g s assms(3) show ?thesis
      by (cases x) (auto simp: refresh_rung_def one_login_def)
  next
    case (Inl e)
    obtain x v2 where s: "st_delete (with_logins env) key v1 = (x, v2)" by (rule prod.exhaust)
    have two: "snd v2 = snd v" using counted.deleted [of env key v1] s one by simp
    obtain r3 f3 v3 where i: "interactive (with_logins env) key d rejected challenge f v2 = (r3, f3, v3)"
      by (rule prod_cases3)
    obtain e4 f4 v4 where p: "dropClient (with_logins env) canonical key f v1 = (e4, f4, v4)" by (rule prod_cases3)
    have four: "snd v4 = snd v" using counted.dropped [OF p] one by simp
    from interactive_once [OF assms(1) i] Inl g s i p one two four assms(3) show ?thesis
      by (auto simp: refresh_rung_def one_login_def Let_def split: if_splits)
  qed
qed

lemma obtain_once:
  assumes "quiet_login env" "disco_ok f"
    "obtain_token (with_logins env) key canonical rejected challenge f v = (r, f', v')"
  shows "one_login (snd v) r v'"
proof -
  let ?e = "with_logins env"
  obtain r1 f1 v1 where d: "discover ?e challenge f v = (r1, f1, v1)" by (rule prod_cases3)
  have one: "snd v1 = snd v" by (rule counted.discovered [OF d])
  note ok = discover_ok [OF assms(2) d]
  obtain e2 f2 v2 where p: "dropClient ?e canonical key f1 v1 = (e2, f2, v2)" by (rule prod_cases3)
  have two: "snd v2 = snd v" using counted.dropped [OF p] one by simp
  consider (go) dd tk where "r1 = Inr dd"
      "refresh_rung ?e key canonical dd tk rejected challenge f1 v1 = (r, f', v')"
    | (ask) dd where "r1 = Inr dd" "interactive ?e key dd rejected challenge f1 v1 = (r, f', v')"
    | (stay) "v' = v \<or> v' = v1 \<or> v' = v2"
    using assms(3) d p by (auto simp: obtain_token_def Let_def split: sum.splits if_splits)
  then show ?thesis
  proof cases
    case go
    then have "requireHTTPS (TokenEndpoint (d_AS dd)) = None" using ok by (simp add: server_ok_def)
    from rung_once [OF assms(1) this go(2)] one show ?thesis by simp
  next
    case ask
    from interactive_once [OF assms(1) ask(2)] one show ?thesis by simp
  qed (use one two in \<open>auto simp: one_login_def\<close>)
qed

lemma round_once:
  assumes "quiet_login env" "disco_ok f" "token_round (with_logins env) rejected challenge f v = (r, f', v')"
  shows "one_login (snd v) r v'"
proof -
  let ?e = "with_logins env"
  obtain r1 f1 v1 where e: "ensureClient ?e challenge f v = (r1, f1, v1)" by (rule prod_cases3)
  have one: "snd v1 = snd v" by (rule counted.ensured [OF e])
  have ok: "disco_ok f1" using ensureClient_flow [OF e] assms(2) by simp
  show ?thesis
  proof (cases "snd v' = snd v")
    case False
    then obtain canonical key where l:
      "WithLock ?e key (obtain_token ?e key canonical rejected challenge) f1 v1 = (r, f', v')"
      using assms(3) e one by (auto simp: token_round_def split: sum.splits if_splits)
    obtain x v2 where a: "lk_acquire ?e key v1 = (x, v2)" by (rule prod.exhaust)
    have two: "snd v2 = snd v" using counted.acquired [of env key v1] a one by simp
    obtain r3 f3 v3 where o: "obtain_token ?e key canonical rejected challenge f1 v2 = (r3, f3, v3)"
      by (rule prod_cases3)
    from l a o two False have "r = r3" "v' = lk_release ?e key v3"
      by (cases x; auto simp: WithLock_def)+
    with obtain_once [OF assms(1) ok o] two counted.released [of env key v3] show ?thesis
      by (simp add: one_login_def)
  qed (simp add: one_login_same)
qed

text \<open>one call of \<open>Token\<close> opens at most one interactive login, whatever is stored, rejected or
  answered, a dropped and renewed client registration included.\<close>

theorem token_logs_in_once:
  assumes "quiet_login env" "disco_ok f"
  shows "snd (snd (snd (Token (with_logins env) rejected challenge f (w, 0)))) \<le> 1"
proof -
  obtain r1 f1 v1 where t: "token_round (with_logins env) rejected challenge f (w, 0) = (r1, f1, v1)"
    by (rule prod_cases3)
  obtain r2 f2 v2 where u: "token_round (with_logins env) rejected challenge f1 v1 = (r2, f2, v2)"
    by (rule prod_cases3)
  have a: "one_login 0 r1 v1" using round_once [OF assms t] by simp
  have b: "one_login (snd v1) r2 v2" by (rule round_once [OF assms(1) round_disco_ok [OF assms(2) t] u])
  show ?thesis
    using a b t u by (cases r1) (auto simp: Token_def one_login_def)
qed

section \<open>No login and no refresh for a token of our own\<close>


section \<open>What a failed round leaves in memory\<close>

lemma login_failed_flow: "loginAndSave env key d challenge f w = (Inl e, f', w') \<Longrightarrow> f' = f"
  by (auto simp: loginAndSave_def Let_def split: sum.splits option.splits prod.splits)

lemma interactive_failed_flow: "interactive env key d rejected challenge f w = (Inl e, f', w') \<Longrightarrow> f' = f"
  by (auto simp: interactive_def dest: login_failed_flow split: if_splits sum.splits prod.splits)

lemma rung_failed_flow:
  "refresh_rung env key canonical d stored rejected challenge f w = (Inl e, f', w') \<Longrightarrow> f' = f \<or> f' = leaveClient f"
  by (auto simp: refresh_rung_def Let_def dest: interactive_failed_flow dropClient_flow
      split: if_splits sum.splits option.splits prod.splits)

lemma obtain_failed_cached:
  assumes "obtain_token env key canonical rejected challenge f w = (Inl e, f', w')"
  shows "cached f' \<in> {cached f, None}"
proof -
  obtain r1 f1 w1 where d: "discover env challenge f w = (r1, f1, w1)" by (rule prod_cases3)
  have "f' \<in> {f, leaveClient f, f1, leaveClient f1}"
    using assms d
    by (auto simp: obtain_token_def Let_def dest: interactive_failed_flow rung_failed_flow dropClient_flow
        split: sum.splits if_splits prod.splits)
  then show ?thesis using discover_frame(2) [OF d] by (auto simp: leaveClient_def)
qed

lemma round_failed_cached:
  assumes "token_round env rejected challenge f w = (Inl e, f', w')"
  shows "cached f' \<in> {cached f, None}"
proof -
  obtain r1 f1 w1 where c: "ensureClient env challenge f w = (r1, f1, w1)" by (rule prod_cases3)
  consider "f' = f1" | k ca v v' where "obtain_token env k ca rejected challenge f1 v = (Inl e, f', v')"
    using assms c
    by (auto simp: token_round_def WithLock_def Let_def split: sum.splits if_splits option.splits prod.splits)
  then have "cached f' \<in> {cached f1, None}" by cases (auto dest: obtain_failed_cached)
  with ensureClient_flow [OF c] show ?thesis by simp
qed

section \<open>The token store\<close>

text \<open>The contract of the \<open>Store\<close> interface: a saved token is what the next load under its key
  returns (in the form \<open>kept\<close> in which the backend keeps it, which is the form of everything it
  loads), a deleted one is not found, and other keys are not touched, as long as nobody else has
  rearranged the storage (\<open>intact\<close>).\<close>

locale token_store =
  fixes load :: "bytes \<Rightarrow> 'w \<Rightarrow> gerr + token"
    and save :: "bytes \<Rightarrow> token \<Rightarrow> 'w \<Rightarrow> gerr option \<times> 'w"
    and delete :: "bytes \<Rightarrow> 'w \<Rightarrow> gerr option \<times> 'w"
    and kept :: "token \<Rightarrow> token"
    and intact :: "'w \<Rightarrow> bool"
  assumes load_saved: "save key t w = (None, w') \<Longrightarrow> load key w' = Inr (kept t)"
    and load_stored: "load key w = Inr t \<Longrightarrow> kept t = t"
    and load_deleted: "intact w \<Longrightarrow> delete key w = (None, w') \<Longrightarrow> load key w' = Inl ErrNotFound"
    and save_other: "intact w \<Longrightarrow> save key t w = (r, w') \<Longrightarrow> key' \<noteq> key \<Longrightarrow> load key' w' = load key' w"
    and delete_other: "intact w \<Longrightarrow> delete key w = (r, w') \<Longrightarrow> key' \<noteq> key \<Longrightarrow> load key' w' = load key' w"
    and intact_saved: "intact w \<Longrightarrow> save key t w = (r, w') \<Longrightarrow> intact w'"
    and intact_deleted: "intact w \<Longrightarrow> delete key w = (r, w') \<Longrightarrow> intact w'"

text \<open>A flow over a store that keeps the contract.\<close>

locale stored_flow = token_store "st_load env" "st_save env" "st_delete env" kept intact
  for env :: "'w oauth_env" and kept intact
begin

text \<open>What a token handed out is: the stored one, which is also the one in memory.\<close>

definition handed_out :: "bytes \<Rightarrow> bytes \<Rightarrow> flow \<Rightarrow> 'w \<Rightarrow> token \<Rightarrow> bool" where
  "handed_out key a f w t \<longleftrightarrow> st_load env key w = Inr (kept t) \<and> AccessToken t = a \<and> cached f = Some t"

lemma login_handed_out:
  "loginAndSave env key d challenge f w = (Inr t, f', w') \<Longrightarrow>
     handed_out key (AccessToken t) f' w' t \<and> lastLoggedIn f' = AccessToken t"
  by (auto simp: loginAndSave_def handed_out_def Let_def dest: load_saved
      split: sum.splits option.splits prod.splits)

lemma interactive_handed_out:
  "interactive env key d rejected challenge f w = (Inr a, f', w') \<Longrightarrow>
     \<exists>t. handed_out key a f' w' t \<and> lastLoggedIn f' = a"
  by (auto simp: interactive_def dest!: login_handed_out split: sum.splits if_splits prod.splits)

lemma refresh_keeps_refresh_token:
  "refresh env d canonical stored f w = (Inr t, w') \<Longrightarrow> RefreshToken stored \<noteq> [] \<Longrightarrow> RefreshToken t \<noteq> []"
  by (auto simp: refresh_def refreshed_token_def Let_def case_prod_beta split: sum.splits if_splits prod.splits)

lemma rung_handed_out:
  assumes "RefreshToken stored \<noteq> []"
    "refresh_rung env key canonical d stored rejected challenge f w = (Inr a, f', w')"
  shows "\<exists>t. handed_out key a f' w' t \<and> (RefreshToken t \<noteq> [] \<or> lastLoggedIn f' = a)"
proof -
  obtain r1 w1 where g: "refresh env d canonical stored f w = (r1, w1)" by (rule prod.exhaust)
  obtain x w2 where d: "st_delete env key w1 = (x, w2)" by (rule prod.exhaust)
  obtain e4 f4 w4 where p: "dropClient env canonical key f w1 = (e4, f4, w4)" by (rule prod_cases3)
  show ?thesis
  proof (cases r1)
    case (Inr t)
    obtain y w5 where s: "st_save env key t w1 = (y, w5)" by (rule prod.exhaust)
    with Inr g assms(2) have "y = None" "a = AccessToken t" "f' = f\<lparr>lastRefreshed := AccessToken t, cached := Some t\<rparr>"
        "w' = w5"
      by (cases y; simp add: refresh_rung_def)+
    with s load_saved [of key t w1 w5] refresh_keeps_refresh_token [of d canonical stored f w t w1] g Inr assms(1)
    show ?thesis by (auto simp: handed_out_def)
  next
    case (Inl e)
    with g d p assms(2) have "interactive env key d rejected challenge f w2 = (Inr a, f', w')"
      by (auto simp: refresh_rung_def Let_def split: if_splits)
    then show ?thesis using interactive_handed_out by blast
  qed
qed

lemma obtain_handed_out:
  assumes "obtain_token env key canonical rejected challenge f w = (Inr a, f', w')"
  shows "\<exists>t. handed_out key a f' w' t \<and>
    (st_load env key w = Inr t \<or> RefreshToken t \<noteq> [] \<or> lastLoggedIn f' = a)"
proof -
  obtain r1 f1 w1 where d: "discover env challenge f w = (r1, f1, w1)" by (rule prod_cases3)
  obtain e2 f2 w2 where p: "dropClient env canonical key f1 w1 = (e2, f2, w2)" by (rule prod_cases3)
  consider (kept) t where "st_load env key w = Inr t" "a = AccessToken t" "f' = f\<lparr>cached := Some t\<rparr>" "w' = w"
    | (go) dd st where "r1 = Inr dd" "RefreshToken st \<noteq> []"
      "refresh_rung env key canonical dd st rejected challenge f1 w1 = (Inr a, f', w')"
    | (ask) dd where "r1 = Inr dd" "interactive env key dd rejected challenge f1 w1 = (Inr a, f', w')"
    using assms d p
    by (auto simp: obtain_token_def stored_token_def Fresh_def Let_def split: sum.splits if_splits)
  then show ?thesis
  proof cases
    case kept
    then show ?thesis using load_stored [of key w t] by (auto simp: handed_out_def)
  next
    case go
    then show ?thesis using rung_handed_out by blast
  next
    case ask
    then show ?thesis using interactive_handed_out by blast
  qed
qed

text \<open>From the start of a process a token request can only return what the store holds: the copy in memory
  is empty until a round has put a token there, and a failed round puts none.\<close>

lemma round_handed_out:
  assumes "\<And>k v. st_load env k (lk_release env k v) = st_load env k v" "cached f = None"
    and "token_round env rejected challenge f w = (Inr a, f', w')"
  shows "\<exists>key t. handed_out key a f' w' t"
proof -
  obtain r1 f1 w1 where c: "ensureClient env challenge f w = (r1, f1, w1)" by (rule prod_cases3)
  have n: "cached f1 = None" using ensureClient_flow [OF c] assms(2) by simp
  obtain ca key where r1: "r1 = Inr (ca, key)"
    using assms(3) c by (cases r1) (auto simp: token_round_def)
  have fresh: "\<not> Fresh None expirySkew (oe_now env w1)" by (simp add: Fresh_def)
  define l where "l = (if rejected = [] then st_load env key w1 else Inl ErrNotFound)"
  have "(case l of
       Inr t \<Rightarrow> if Fresh (Some t) expirySkew (oe_now env w1) then (Inr (AccessToken t), f1\<lparr>cached := Some t\<rparr>, w1)
                else WithLock env key (obtain_token env key ca rejected challenge) f1 w1
     | Inl _ \<Rightarrow> WithLock env key (obtain_token env key ca rejected challenge) f1 w1) = (Inr a, f', w')"
    using assms(3) unfolding token_round_def c r1 by (simp add: n fresh l_def [symmetric])
  then have "(\<exists>t. l = Inr t \<and> AccessToken t = a \<and> f1\<lparr>cached := Some t\<rparr> = f' \<and> w' = w1) \<or>
      WithLock env key (obtain_token env key ca rejected challenge) f1 w1 = (Inr a, f', w')"
    by (cases l) (simp_all split: if_splits)
  then consider (fast) t where "l = Inr t" "AccessToken t = a" "f1\<lparr>cached := Some t\<rparr> = f'" "w' = w1"
    | (slow) "WithLock env key (obtain_token env key ca rejected challenge) f1 w1 = (Inr a, f', w')"
    by blast
  then show ?thesis
  proof cases
    case fast
    then have "handed_out key a f' w' t"
      using load_stored [of key w1 t] by (auto simp: handed_out_def l_def split: if_splits)
    then show ?thesis by blast
  next
    case slow
    then obtain v v' where "obtain_token env key ca rejected challenge f1 v = (Inr a, f', v')" "w' = lk_release env key v'"
      by (auto simp: WithLock_def Let_def split: option.splits prod.splits)
    with obtain_handed_out [OF this(1)] assms(1) [of key v'] have "\<exists>t. handed_out key a f' w' t"
      by (auto simp: handed_out_def)
    then show ?thesis by blast
  qed
qed

lemma token_handed_out:
  assumes "\<And>k v. st_load env k (lk_release env k v) = st_load env k v" "cached f = None"
    and "Token env rejected challenge f w = (Inr a, f', w')"
  shows "\<exists>key t. handed_out key a f' w' t"
proof -
  obtain r1 f1 w1 where t: "token_round env rejected challenge f w = (r1, f1, w1)" by (rule prod_cases3)
  show ?thesis
  proof (cases r1)
    case (Inl e)
    with t assms(2) have "cached f1 = None" using round_failed_cached [of env rejected challenge f w] by auto
    moreover have "token_round env rejected challenge f1 w1 = (Inr a, f', w')"
      using assms(3) t Inl by (auto simp: Token_def split: if_splits)
    ultimately show ?thesis using round_handed_out [OF assms(1)] by blast
  qed (use round_handed_out [OF assms(1,2)] assms(3) t in \<open>auto simp: Token_def\<close>)
qed

end

section \<open>A concrete flow\<close>

text \<open>A store in memory, a server that refuses every connection, and a user who logs in.\<close>

definition demo_server :: as_metadata where
  "demo_server = \<lparr>as_Issuer = ''https://as'', AuthorizationEndpoint = ''https://as/a'',
     TokenEndpoint = ''https://as/t'', RegistrationEndpoint = [], as_ScopesSupported = [],
     CodeChallengeMethodsSupported = [''S256''], FromOIDC = False\<rparr>"

definition demo_flow :: flow where
  "demo_flow = \<lparr>fl_Endpoint = ''https://mcp/'', fl_ClientID = ''c'', fl_Scopes = [], fl_Issuer = [],
     CallbackPort = 0, disco = Some \<lparr>d_AS = demo_server, PRMScopes = []\<rparr>, cached = None, reg = None,
     lastRefreshed = [], lastLoggedIn = ''old''\<rparr>"

definition demo_token :: token where
  "demo_token = \<lparr>AccessToken = ''new'', RefreshToken = ''r'', Expiry = None, tk_Issuer = [],
     tk_ClientID = [], tk_Scopes = []\<rparr>"

type_synonym demo_world = "(bytes \<rightharpoonup> token) \<times> (bytes \<rightharpoonup> registration)"

definition demo_env :: "demo_world oauth_env" where
  "demo_env =
     \<lparr>oe_http = (\<lambda>_ w. (Inl (Message ''connection refused''), w)),
      st_load = (\<lambda>k w. case fst w k of None \<Rightarrow> Inl ErrNotFound | Some t \<Rightarrow> Inr t),
      st_save = (\<lambda>k t w. (None, (fst w)(k \<mapsto> t), snd w)),
      st_delete = (\<lambda>k w. (None, (fst w)(k := None), snd w)),
      cs_load = (\<lambda>k w. case snd w k of None \<Rightarrow> Inl ErrNotFound | Some r \<Rightarrow> Inr r),
      cs_save = (\<lambda>k r w. (None, fst w, (snd w)(k \<mapsto> r))),
      cs_delete = (\<lambda>k w. (None, fst w, (snd w)(k := None))),
      lk_acquire = (\<lambda>_ w. (None, w)), lk_release = (\<lambda>_ w. w), oe_now = (\<lambda>_. 0),
      oe_login = (\<lambda>_ _ _ w. (Inr demo_token, w))\<rparr>"

lemma demo_disco: "disco_ok demo_flow"
proof -
  have "server_ok demo_server" by code_simp
  then show ?thesis by (simp add: disco_ok_def demo_flow_def)
qed

lemma demo_quiet: "quiet_login demo_env"
  by (simp add: quiet_login_def demo_env_def)


theorem token_logs_in_once_witness:
  "snd (snd (snd (Token (with_logins demo_env) [] [] demo_flow ((Map.empty, Map.empty), 0)))) \<le> 1"
  by (rule token_logs_in_once [OF demo_quiet demo_disco])


section \<open>An expiry beyond the clock\<close>

text \<open>An \<open>expires_in\<close> of more than about 292 years wraps to a negative duration, and a token that
  practically never expires is stored as expired in the past.\<close>

theorem expiry_wraps:
  "Expiry (refreshed_token f d stored (empty_tr\<lparr>tr_ExpiresIn := 9223372037\<rparr>) now) = Some e \<Longrightarrow> e < now"
  by (simp add: refreshed_token_def seconds_duration_def second_def empty_tr_def)

end
