(* ===== verification/Files.thy ===== *)
theory Files
  imports Errors
begin

text \<open>
  The file system as the program uses it through \<open>os\<close> and \<open>path/filepath\<close>, and
  \<open>pkg/atomicfile\<close>.  A path is the list of components of a clean absolute path; a node is
  a file with its permission bits, a directory or a symbolic link (to a clean absolute path).
  Every call that changes the file system may fail: \<open>faults\<close> says how the calls to come
  turn out, and \<open>trace\<close> records every state the file system went through, which is what
  another process, or this one after a crash, may see.
  Symbolic links are followed in the last component only: a directory on the way is given
  by its real path.  Permissions are recorded, not enforced (a refused call is a fault).
\<close>

type_synonym path = "bytes list"

datatype node = File nat bytes | Dir nat | Link path

type_synonym tree = "path \<rightharpoonup> node"

record os =
  nodes :: tree
  faults :: "(bytes \<times> nat) option list"   \<comment> \<open>error text, and the bytes a failed write still wrote\<close>
  trace :: "tree list"                     \<comment> \<open>newest first\<close>
  random :: "nat \<Rightarrow> nat"
  drawn :: nat
  getenv :: "bytes \<Rightarrow> bytes"                 \<comment> \<open>empty when unset\<close>
  GOOS :: bytes
  zone :: "int \<Rightarrow> int"                       \<comment> \<open>minutes east of UTC at an instant\<close>
  clock :: int                             \<comment> \<open>nanoseconds since 1970\<close>
  cwd :: path

section \<open>Errors and paths\<close>

definition ENOENT :: gerr where "ENOENT = Sentinel ''no such file or directory''"
definition ENOTDIR :: gerr where "ENOTDIR = Sentinel ''not a directory''"
definition EISDIR :: gerr where "EISDIR = Sentinel ''is a directory''"
definition EEXIST :: gerr where "EEXIST = Sentinel ''file exists''"
definition ENOTEMPTY :: gerr where "ENOTEMPTY = Sentinel ''directory not empty''"
definition ELOOP :: gerr where "ELOOP = Sentinel ''too many levels of symbolic links''"
definition errPattern :: gerr where "errPattern = Message ''pattern contains path separator''"

definition IsNotExist :: "gerr \<Rightarrow> bool" where
  "IsNotExist e \<longleftrightarrow> err_is e ENOENT"

text \<open>\<open>filepath.Clean\<close> and \<open>Join\<close>, onto a clean absolute path.\<close>

fun clean_onto :: "path \<Rightarrow> bytes list \<Rightarrow> path" where
  "clean_onto acc [] = acc"
| "clean_onto acc (c # cs) =
     (if c = [] \<or> c = ''.'' then clean_onto acc cs
      else if c = ''..'' then clean_onto (butlast acc) cs
      else clean_onto (acc @ [c]) cs)"

definition abs_path :: "path \<Rightarrow> bytes \<Rightarrow> path" where
  "abs_path wd p = clean_onto (if prefix ''/'' p then [] else wd) (split_on (CHR ''/'') p)"

definition join_path :: "path \<Rightarrow> bytes \<Rightarrow> path" where
  "join_path d name = clean_onto d (split_on (CHR ''/'') name)"

definition path_text :: "path \<Rightarrow> bytes" where
  "path_text p = ''/'' @ join ''/'' p"

text \<open>A name that is one component is appended.\<close>

lemma split_on_none: "c \<notin> set s \<Longrightarrow> split_on c s = [s]"
  by (induction s) auto

lemma join_path_name:
  "CHR ''/'' \<notin> set name \<Longrightarrow> name \<noteq> [] \<Longrightarrow> name \<noteq> ''.'' \<Longrightarrow> name \<noteq> ''..'' \<Longrightarrow> join_path d name = d @ [name]"
  by (simp add: join_path_def split_on_none)

abbreviation mode_0600 :: nat where "mode_0600 \<equiv> 6 * 64"
abbreviation mode_0700 :: nat where "mode_0700 \<equiv> 7 * 64"

section \<open>Looking\<close>

definition is_dir :: "tree \<Rightarrow> path \<Rightarrow> bool" where
  "is_dir ns p \<longleftrightarrow> (case ns p of Some (Dir m) \<Rightarrow> True | _ \<Rightarrow> False)"

definition is_file :: "tree \<Rightarrow> path \<Rightarrow> bool" where
  "is_file ns p \<longleftrightarrow> (case ns p of Some (File m d) \<Rightarrow> True | _ \<Rightarrow> False)"

definition absent :: "tree \<Rightarrow> path \<Rightarrow> gerr" where
  "absent ns p = (if list_ex (is_file ns) (butlast (prefixes p)) then ENOTDIR else ENOENT)"

fun follow :: "nat \<Rightarrow> tree \<Rightarrow> path \<Rightarrow> path option" where
  "follow 0 ns p = None"
| "follow (Suc n) ns p = (case ns p of Some (Link t) \<Rightarrow> follow n ns t | _ \<Rightarrow> Some p)"

text \<open>Links followed before giving up: what \<open>EvalSymlinks\<close> allows, taken for the kernel's limit too.\<close>

definition max_links :: nat where "max_links = 255"

definition read_node :: "tree \<Rightarrow> path \<Rightarrow> gerr + node" where
  "read_node ns p =
     (case follow (Suc max_links) ns p of
        None \<Rightarrow> Inl ELOOP
      | Some t \<Rightarrow> (case ns t of None \<Rightarrow> Inl (absent ns t) | Some x \<Rightarrow> Inr x))"

definition ReadFile :: "path \<Rightarrow> 'z os_scheme \<Rightarrow> gerr + bytes" where
  "ReadFile p w =
     (case read_node (nodes w) p of
        Inr (File m d) \<Rightarrow> Inr d
      | Inr _ \<Rightarrow> Inl (Wrap (''read '' @ path_text p @ '': '') EISDIR [])
      | Inl e \<Rightarrow> Inl (Wrap (''open '' @ path_text p @ '': '') e []))"

definition eval_symlinks :: "tree \<Rightarrow> path \<Rightarrow> path option" where
  "eval_symlinks ns p = (case follow (Suc max_links) ns p of None \<Rightarrow> None | Some t \<Rightarrow> if ns t = None then None else Some t)"

text \<open>\<open>os.Stat\<close>, as far as the permission bits go.\<close>

definition stat_perm :: "tree \<Rightarrow> path \<Rightarrow> nat option" where
  "stat_perm ns p =
     (case read_node ns p of Inr (File m d) \<Rightarrow> Some m | Inr (Dir m) \<Rightarrow> Some m | _ \<Rightarrow> None)"

section \<open>Changing\<close>

definition next_fault :: "'z os_scheme \<Rightarrow> (bytes \<times> nat) option \<times> 'z os_scheme" where
  "next_fault w = (case faults w of [] \<Rightarrow> (None, w) | f # fs \<Rightarrow> (f, w\<lparr>faults := fs\<rparr>))"

definition set_nodes :: "tree \<Rightarrow> 'z os_scheme \<Rightarrow> 'z os_scheme" where
  "set_nodes ns w = w\<lparr>nodes := ns, trace := ns # trace w\<rparr>"

text \<open>A system call: a fault, a refusal for a reason visible in the tree, or the change.\<close>

definition sys :: "(tree \<Rightarrow> gerr option) \<Rightarrow> (tree \<Rightarrow> tree) \<Rightarrow> 'z os_scheme \<Rightarrow> gerr option \<times> 'z os_scheme" where
  "sys refuse change w =
     (case next_fault w of
        (Some (e, _), w1) \<Rightarrow> (Some (Message e), w1)
      | (None, w1) \<Rightarrow>
          (case refuse (nodes w1) of
             Some e \<Rightarrow> (Some e, w1)
           | None \<Rightarrow> (None, set_nodes (change (nodes w1)) w1)))"

definition no_parent :: "path \<Rightarrow> tree \<Rightarrow> gerr option" where
  "no_parent p ns = (if p = [] then Some EEXIST else if is_dir ns (butlast p) then None else Some (absent ns p))"

definition sys_mkdir :: "path \<Rightarrow> nat \<Rightarrow> 'z os_scheme \<Rightarrow> gerr option \<times> 'z os_scheme" where
  "sys_mkdir p m =
     sys (\<lambda>ns. if ns p \<noteq> None then Some EEXIST else no_parent p ns) (\<lambda>ns. ns(p \<mapsto> Dir m))"

definition sys_create :: "path \<Rightarrow> nat \<Rightarrow> 'z os_scheme \<Rightarrow> gerr option \<times> 'z os_scheme" where
  "sys_create p m =
     sys (\<lambda>ns. if ns p \<noteq> None then Some EEXIST else no_parent p ns) (\<lambda>ns. ns(p \<mapsto> File m []))"

definition sys_chmod :: "path \<Rightarrow> nat \<Rightarrow> 'z os_scheme \<Rightarrow> gerr option \<times> 'z os_scheme" where
  "sys_chmod p m =
     sys (\<lambda>ns. if is_file ns p then None else Some ENOENT)
       (\<lambda>ns. case ns p of Some (File _ d) \<Rightarrow> ns(p \<mapsto> File m d) | _ \<Rightarrow> ns)"

text \<open>Bytes added at the end of a file (an empty one, or one open for appending): a failed write
  may have written some of them.\<close>

definition append_file :: "path \<Rightarrow> bytes \<Rightarrow> tree \<Rightarrow> tree" where
  "append_file p data ns = (case ns p of Some (File m d) \<Rightarrow> ns(p \<mapsto> File m (d @ data)) | _ \<Rightarrow> ns)"

definition sys_write :: "path \<Rightarrow> bytes \<Rightarrow> 'z os_scheme \<Rightarrow> gerr option \<times> 'z os_scheme" where
  "sys_write p data w =
     (case next_fault w of
        (Some (e, k), w1) \<Rightarrow> (Some (Message e), set_nodes (append_file p (take k data) (nodes w1)) w1)
      | (None, w1) \<Rightarrow> (None, set_nodes (append_file p data (nodes w1)) w1))"

definition sys_truncate :: "path \<Rightarrow> 'z os_scheme \<Rightarrow> gerr option \<times> 'z os_scheme" where
  "sys_truncate p =
     sys (\<lambda>ns. if is_file ns p then None else Some EISDIR)
       (\<lambda>ns. case ns p of Some (File m _) \<Rightarrow> ns(p \<mapsto> File m []) | _ \<Rightarrow> ns)"

definition sys_close :: "'z os_scheme \<Rightarrow> gerr option \<times> 'z os_scheme" where
  "sys_close = sys (\<lambda>_. None) (\<lambda>ns. ns)"

definition sys_rename :: "path \<Rightarrow> path \<Rightarrow> 'z os_scheme \<Rightarrow> gerr option \<times> 'z os_scheme" where
  "sys_rename p q =
     sys (\<lambda>ns. if ns p = None then Some ENOENT else if is_dir ns q then Some EEXIST else no_parent q ns)
       (\<lambda>ns. ns(q := ns p, p := None))"

text \<open>\<open>os.Remove\<close> of a file or a link; the program removes no directories with it.\<close>

definition sys_remove :: "path \<Rightarrow> 'z os_scheme \<Rightarrow> gerr option \<times> 'z os_scheme" where
  "sys_remove p =
     sys (\<lambda>ns. if ns p = None then Some (absent ns p) else if is_dir ns p then Some ENOTEMPTY else None)
       (\<lambda>ns. ns(p := None))"

definition RemoveAll :: "path \<Rightarrow> 'z os_scheme \<Rightarrow> gerr option \<times> 'z os_scheme" where
  "RemoveAll p = sys (\<lambda>_. None) (\<lambda>ns q. if prefix p q then None else ns q)"

text \<open>\<open>os.MkdirAll\<close>, from the root down.\<close>

fun mkdirs :: "path list \<Rightarrow> nat \<Rightarrow> 'z os_scheme \<Rightarrow> gerr option \<times> 'z os_scheme" where
  "mkdirs [] m w = (None, w)"
| "mkdirs (p # ps) m w =
     (if is_dir (nodes w) p then mkdirs ps m w
      else if nodes w p \<noteq> None then (Some (Wrap (''mkdir '' @ path_text p @ '': '') ENOTDIR []), w)
      else
        (case sys_mkdir p m w of
           (Some e, w1) \<Rightarrow> (Some (Wrap (''mkdir '' @ path_text p @ '': '') e []), w1)
         | (None, w1) \<Rightarrow> mkdirs ps m w1))"

definition MkdirAll :: "path \<Rightarrow> nat \<Rightarrow> 'z os_scheme \<Rightarrow> gerr option \<times> 'z os_scheme" where
  "MkdirAll p m w = mkdirs (prefixes p) m w"

text \<open>\<open>os.CreateTemp\<close>: names from the random source until one is free, 10000 at most.\<close>

definition draw :: "'z os_scheme \<Rightarrow> nat \<times> 'z os_scheme" where
  "draw w = (random w (drawn w) mod 2 ^ 32, w\<lparr>drawn := Suc (drawn w)\<rparr>)"

fun temp_loop :: "nat \<Rightarrow> path \<Rightarrow> bytes \<Rightarrow> 'z os_scheme \<Rightarrow> (gerr + path) \<times> 'z os_scheme" where
  "temp_loop 0 dir pre w = (Inl (Wrap (''createtemp '' @ pre @ ''*: '') EEXIST []), w)"
| "temp_loop (Suc n) dir pre w =
     (let (r, w1) = draw w; name = dir @ [pre @ dec_nat r] in
      if nodes w1 name \<noteq> None then temp_loop n dir pre w1
      else
        (case sys_create name mode_0600 w1 of
           (Some e, w2) \<Rightarrow> (Inl (Wrap (''open '' @ path_text name @ '': '') e []), w2)
         | (None, w2) \<Rightarrow> (Inr name, w2)))"

definition CreateTemp :: "path \<Rightarrow> bytes \<Rightarrow> 'z os_scheme \<Rightarrow> (gerr + path) \<times> 'z os_scheme" where
  "CreateTemp dir pre w =
     (if CHR ''/'' \<in> set pre then (Inl errPattern, w) else temp_loop 10000 dir pre w)"

section \<open>Atomic replacement (\<open>pkg/atomicfile\<close>)\<close>

text \<open>\<open>filepath.Base\<close>.\<close>

definition base_name :: "path \<Rightarrow> bytes" where
  "base_name p = (if p = [] then ''/'' else last p)"

text \<open>The steps on the temporary file, each of which may fail.\<close>

definition fill_temp :: "path \<Rightarrow> path \<Rightarrow> bytes \<Rightarrow> nat \<Rightarrow> 'z os_scheme \<Rightarrow> gerr option \<times> 'z os_scheme" where
  "fill_temp tmp path data mode w =
     (case sys_chmod tmp mode w of
        (Some e, w1) \<Rightarrow> let (_, w2) = sys_close w1 in (Some e, w2)
      | (None, w1) \<Rightarrow>
          (case sys_write tmp data w1 of
             (Some e, w2) \<Rightarrow> let (_, w3) = sys_close w2 in (Some e, w3)
           | (None, w2) \<Rightarrow>
               (case sys_close w2 of
                  (Some e, w3) \<Rightarrow> (Some e, w3)
                | (None, w3) \<Rightarrow> sys_rename tmp path w3)))"

definition write_target :: "tree \<Rightarrow> path \<Rightarrow> path" where
  "write_target ns p = (case eval_symlinks ns p of Some t \<Rightarrow> t | None \<Rightarrow> p)"

definition Write :: "path \<Rightarrow> bytes \<Rightarrow> nat \<Rightarrow> 'z os_scheme \<Rightarrow> gerr option \<times> 'z os_scheme" where
  "Write p data mode w =
     (let path = write_target (nodes w) p;
          mode = (case stat_perm (nodes w) path of Some m \<Rightarrow> m | None \<Rightarrow> mode);
          dir = butlast path
      in case MkdirAll dir mode_0700 w of
           (Some e, w1) \<Rightarrow> (Some e, w1)
         | (None, w1) \<Rightarrow>
             (case CreateTemp dir (base_name path @ ''.tmp-'') w1 of
                (Inl e, w2) \<Rightarrow> (Some e, w2)
              | (Inr tmp, w2) \<Rightarrow>
                  let (r, w3) = fill_temp tmp path data mode w2;
                      (_, w4) = sys_remove tmp w3
                  in (r, w4)))"

section \<open>Plain writes\<close>

text \<open>\<open>os.WriteFile\<close>: truncated (or created) first, then written.\<close>

definition WriteFile :: "path \<Rightarrow> bytes \<Rightarrow> nat \<Rightarrow> 'z os_scheme \<Rightarrow> gerr option \<times> 'z os_scheme" where
  "WriteFile p data mode w =
     (case follow (Suc max_links) (nodes w) p of
        None \<Rightarrow> (Some (Wrap (''open '' @ path_text p @ '': '') ELOOP []), w)
      | Some t \<Rightarrow>
          (case (if nodes w t = None then sys_create t mode w else sys_truncate t w) of
             (Some e, w1) \<Rightarrow> (Some (Wrap (''open '' @ path_text p @ '': '') e []), w1)
           | (None, w1) \<Rightarrow>
               (case sys_write t data w1 of
                  (r, w2) \<Rightarrow> let (c, w3) = sys_close w2 in (if r \<noteq> None then r else c, w3))))"

text \<open>A file opened with \<open>O_APPEND|O_CREATE|O_WRONLY\<close>, and one string written.\<close>

definition append_string :: "path \<Rightarrow> bytes \<Rightarrow> nat \<Rightarrow> 'z os_scheme \<Rightarrow> gerr option \<times> 'z os_scheme" where
  "append_string p data mode w =
     (case follow (Suc max_links) (nodes w) p of
        None \<Rightarrow> (Some (Wrap (''open '' @ path_text p @ '': '') ELOOP []), w)
      | Some t \<Rightarrow>
          (case (if nodes w t = None then sys_create t mode w
                 else sys (\<lambda>ns. if is_dir ns t then Some EISDIR else None) (\<lambda>ns. ns) w) of
             (Some e, w1) \<Rightarrow> (Some (Wrap (''open '' @ path_text p @ '': '') e []), w1)
           | (None, w1) \<Rightarrow>
               (case sys_write t data w1 of (r, w2) \<Rightarrow> let (_, w3) = sys_close w2 in (r, w3))))"

section \<open>What an operation leaves alone\<close>

text \<open>\<open>touches A w w'\<close>: in every state on the way from \<open>w\<close> to \<open>w'\<close>, and at the end, only
  paths in \<open>A\<close> differ from what they were.\<close>

definition touches :: "(path \<Rightarrow> bool) \<Rightarrow> 'z os_scheme \<Rightarrow> 'z os_scheme \<Rightarrow> bool" where
  "touches A w w' \<longleftrightarrow>
     (\<exists>new. trace w' = new @ trace w \<and>
        (\<forall>ns \<in> set (nodes w' # new). \<forall>q. \<not> A q \<longrightarrow> ns q = nodes w q))"

lemma touches_refl [simp, intro]: "touches A w w"
  by (simp add: touches_def)

lemma touches_same: "nodes w' = nodes w \<Longrightarrow> trace w' = trace w \<Longrightarrow> touches A w w'"
  by (simp add: touches_def)

lemma touches_nodes: "touches A w w' \<Longrightarrow> \<not> A q \<Longrightarrow> nodes w' q = nodes w q"
  by (auto simp: touches_def)

lemma touches_trans:
  assumes "touches A w w1" "touches A w1 w2"
  shows "touches A w w2"
proof -
  obtain a b where "trace w1 = a @ trace w" "\<forall>ns \<in> set (nodes w1 # a). \<forall>q. \<not> A q \<longrightarrow> ns q = nodes w q"
    "trace w2 = b @ trace w1" "\<forall>ns \<in> set (nodes w2 # b). \<forall>q. \<not> A q \<longrightarrow> ns q = nodes w1 q"
    using assms by (auto simp: touches_def)
  then show ?thesis by (auto simp: touches_def intro!: exI [of _ "b @ a"])
qed

lemma touches_mono: "touches A w w' \<Longrightarrow> (\<And>q. A q \<Longrightarrow> B q) \<Longrightarrow> touches B w w'"
  unfolding touches_def by blast

lemma touches_set_nodes: "(\<And>q. \<not> A q \<Longrightarrow> ns q = nodes w q) \<Longrightarrow> touches A w (set_nodes ns w)"
  by (auto simp: touches_def set_nodes_def intro!: exI [of _ "[ns]"])

lemma next_fault_same:
  "next_fault w = (f, w') \<Longrightarrow> nodes w' = nodes w \<and> trace w' = trace w"
  by (auto simp: next_fault_def split: list.splits)

lemma sys_ok:
  "sys refuse change w = (None, w') \<Longrightarrow>
     refuse (nodes w) = None \<and> nodes w' = change (nodes w) \<and> trace w' = nodes w' # trace w"
  by (auto simp: sys_def set_nodes_def split: prod.splits option.splits dest!: next_fault_same)

lemma sys_fail: "sys refuse change w = (Some e, w') \<Longrightarrow> nodes w' = nodes w \<and> trace w' = trace w"
  by (auto simp: sys_def split: prod.splits option.splits dest!: next_fault_same)

lemma sys_touches:
  assumes "sys refuse change w = (r, w')" "\<And>q. \<not> A q \<Longrightarrow> refuse (nodes w) = None \<Longrightarrow> change (nodes w) q = nodes w q"
  shows "touches A w w'"
proof (cases r)
  case None
  with sys_ok [of refuse change w w'] assms show ?thesis
    by (auto simp: touches_def intro!: exI [of _ "[nodes w']"])
next
  case (Some e)
  with sys_fail [of refuse change w e w'] assms show ?thesis by (simp add: touches_same)
qed

named_theorems calls \<open>definitions of the system calls\<close>

lemmas [calls] = sys_mkdir_def sys_create_def sys_chmod_def sys_truncate_def sys_close_def
  sys_rename_def sys_remove_def

lemma write_ok:
  "sys_write p data w = (None, w') \<Longrightarrow>
     nodes w' = append_file p data (nodes w) \<and> trace w' = nodes w' # trace w"
  by (auto simp: sys_write_def set_nodes_def split: prod.splits option.splits dest!: next_fault_same)

lemma append_file_other: "q \<noteq> p \<Longrightarrow> append_file p data ns q = ns q"
  by (simp add: append_file_def split: option.split node.split)

lemma write_touches: "sys_write p data w = (r, w') \<Longrightarrow> touches (\<lambda>q. q = p) w w'"
  by (auto simp: sys_write_def set_nodes_def touches_def append_file_other
      split: prod.splits option.splits dest!: next_fault_same)

lemma no_parent_None: "no_parent p ns = None \<Longrightarrow> p \<noteq> [] \<and> is_dir ns (butlast p)"
  by (simp add: no_parent_def split: if_splits)

lemma fresh_touches:
  "sys_mkdir p m w = (r, w') \<Longrightarrow> touches (\<lambda>q. q = p \<and> q \<noteq> [] \<and> nodes w q = None) w w'"
  "sys_create p m w = (r, w') \<Longrightarrow> touches (\<lambda>q. q = p \<and> q \<noteq> [] \<and> nodes w q = None) w w'"
  unfolding sys_mkdir_def sys_create_def
  by (erule sys_touches; force dest: no_parent_None split: if_splits)+

text \<open>Directories are only made where nothing was, and never in the place of the root.\<close>

lemma mkdirs_touches:
  "mkdirs ps m w = (r, w') \<Longrightarrow> touches (\<lambda>q. q \<in> set ps \<and> q \<noteq> [] \<and> nodes w q = None) w w'"
proof (induction ps m w arbitrary: r w' rule: mkdirs.induct)
  case (1 m w)
  then show ?case by simp
next
  case (2 p ps m w)
  let ?A = "\<lambda>q. q \<in> set (p # ps) \<and> q \<noteq> [] \<and> nodes w q = None"
  consider "is_dir (nodes w) p" | "\<not> is_dir (nodes w) p" "nodes w p \<noteq> None"
    | "\<not> is_dir (nodes w) p" "nodes w p = None" by blast
  then show ?case
  proof cases
    case 1
    with 2 show ?thesis by (auto intro: touches_mono)
  next
    case 2
    with \<open>mkdirs (p # ps) m w = (r, w')\<close> show ?thesis by auto
  next
    case 3
    obtain x w1 where s: "sys_mkdir p m w = (x, w1)" by (rule prod.exhaust)
    have t1: "touches ?A w w1"
      using fresh_touches(1) [OF s] by (rule touches_mono) simp
    show ?thesis
    proof (cases x)
      case None
      have "touches (\<lambda>q. q \<in> set ps \<and> q \<noteq> [] \<and> nodes w1 q = None) w1 w'"
        using 2 3 s None by (intro "2.IH"(2)) auto
      moreover have "nodes w1 q = None \<Longrightarrow> nodes w q = None" for q
        using sys_ok [of _ _ w w1] s None by (auto simp: sys_mkdir_def split: if_splits)
      ultimately have "touches ?A w1 w'" by (auto intro: touches_mono)
      with t1 show ?thesis by (rule touches_trans)
    next
      case (Some e)
      with t1 2 3 s show ?thesis by simp
    qed
  qed
qed

lemma create_ok:
  "sys_create p m w = (None, w') \<Longrightarrow>
     nodes w p = None \<and> p \<noteq> [] \<and> is_dir (nodes w) (butlast p) \<and>
     nodes w' = (nodes w)(p \<mapsto> File m []) \<and> trace w' = nodes w' # trace w"
  unfolding sys_create_def by (drule sys_ok) (force dest: no_parent_None split: if_splits)

lemma temp_loop_touches:
  "temp_loop n dir pre w = (x, w') \<Longrightarrow> touches (\<lambda>q. q \<noteq> [] \<and> nodes w q = None) w w' \<and>
     (\<forall>tmp. x = Inr tmp \<longrightarrow> (\<exists>k. tmp = dir @ [pre @ k] \<and> list_all is_digit k \<and> k \<noteq> []) \<and> nodes w tmp = None \<and> is_dir (nodes w) dir \<and>
       nodes w' = (nodes w)(tmp \<mapsto> File mode_0600 []) \<and> trace w' = nodes w' # trace w)"
proof (induction n arbitrary: w)
  case 0
  then show ?case by auto
next
  case (Suc n)
  obtain r w1 where d: "draw w = (r, w1)" by (rule prod.exhaust)
  then have same: "nodes w1 = nodes w" "trace w1 = trace w" by (auto simp: draw_def)
  have k: "dec_nat r \<noteq> []" "list_all is_digit (dec_nat r)"
    using dec_nat_digits [of r] by (subst dec_nat.simps, simp, simp add: list_all_iff)
  obtain y w2 where c: "sys_create (dir @ [pre @ dec_nat r]) mode_0600 w1 = (y, w2)" by (rule prod.exhaust)
  show ?case
  proof (cases "nodes w1 (dir @ [pre @ dec_nat r]) = None")
    case True
    have t: "touches (\<lambda>q. q \<noteq> [] \<and> nodes w1 q = None) w1 w2"
      using fresh_touches(2) [OF c] by (rule touches_mono) simp
    then have t': "touches (\<lambda>q. q \<noteq> [] \<and> nodes w q = None) w w2"
      using same by (simp add: touches_def)
    show ?thesis
    proof (cases y)
      case None
      with create_ok [of "dir @ [pre @ dec_nat r]" mode_0600 w1 w2] c have "nodes w2 = (nodes w)(dir @ [pre @ dec_nat r] \<mapsto> File mode_0600 [])"
        "trace w2 = nodes w2 # trace w" "is_dir (nodes w) dir" using same by auto
      then show ?thesis using Suc.prems d c None True t' same k by (auto simp: Let_def)
    next
      case (Some e)
      with Suc.prems d c True t' show ?thesis by (auto simp: Let_def)
    qed
  next
    case False
    then have "temp_loop n dir pre w1 = (x, w')" using Suc.prems d by (simp add: Let_def)
    from Suc.IH [OF this] show ?thesis using same by (simp add: touches_def)
  qed
qed

lemma temp_loop_fail: "temp_loop n dir pre w = (Inl e, w') \<Longrightarrow> nodes w' = nodes w \<and> trace w' = trace w"
proof (induction n arbitrary: w)
  case (Suc n)
  obtain r w1 where d: "draw w = (r, w1)" by (rule prod.exhaust)
  then have same: "nodes w1 = nodes w" "trace w1 = trace w" by (auto simp: draw_def)
  show ?case
  proof (cases "nodes w1 (dir @ [pre @ dec_nat r]) = None")
    case True
    with Suc.prems d same show ?thesis
      by (auto simp: Let_def sys_create_def split: prod.splits option.splits dest!: sys_fail)
  next
    case False
    with Suc.prems d have "temp_loop n dir pre w1 = (Inl e, w')" by (simp add: Let_def)
    with Suc.IH [OF this] same show ?thesis by simp
  qed
qed simp

text \<open>What a temporary file does before the rename stays on the temporary file.\<close>

lemma fill_temp_steps:
  assumes "fill_temp tmp t data m w = (r, w')" "nodes w tmp = Some (File m0 [])" "tmp \<noteq> t"
  shows "(r \<noteq> None \<and> touches (\<lambda>q. q = tmp) w w') \<or>
    (r = None \<and> (\<exists>w1. touches (\<lambda>q. q = tmp) w w1 \<and> nodes w' = (nodes w1)(t \<mapsto> File m data, tmp := None) \<and>
       trace w' = nodes w' # trace w1 \<and> \<not> is_dir (nodes w1) t \<and> is_dir (nodes w1) (butlast t) \<and> t \<noteq> []))"
proof -
  let ?A = "\<lambda>q. q = tmp"
  obtain a w1 where c: "sys_chmod tmp m w = (a, w1)" by (rule prod.exhaust)
  obtain b w2 where d: "sys_write tmp data w1 = (b, w2)" by (rule prod.exhaust)
  obtain e w3 where f: "sys_close w2 = (e, w3)" by (rule prod.exhaust)
  obtain g w4 where h: "sys_rename tmp t w3 = (g, w4)" by (rule prod.exhaust)
  have cl: "sys_close v = (y, v') \<Longrightarrow> touches ?A v v'" for y and v v' :: "'a os_scheme"
    by (erule sys_touches [of "\<lambda>_. None" "\<lambda>ns. ns", folded sys_close_def]) simp
  have t1: "touches ?A w w1"
    using c unfolding sys_chmod_def by (rule sys_touches) (simp split: option.split node.split)
  have t2: "touches ?A w w2" using t1 write_touches [OF d] by (rule touches_trans)
  have t3: "touches ?A w w3" using t2 cl [OF f] by (rule touches_trans)
  show ?thesis
  proof (cases "a = None \<and> b = None \<and> e = None \<and> g = None")
    case True
    have n1: "nodes w1 tmp = Some (File m [])"
      using True c assms(2) by (auto simp: sys_chmod_def dest!: sys_ok)
    have n3: "nodes w3 tmp = Some (File m data)"
      using True n1 write_ok [of tmp data w1 w2] d sys_ok [of "\<lambda>_. None" "\<lambda>ns. ns" w2 w3] f
      by (simp add: append_file_def sys_close_def)
    have "nodes w4 = (nodes w3)(t \<mapsto> File m data, tmp := None)" "trace w4 = nodes w4 # trace w3"
      "\<not> is_dir (nodes w3) t" "is_dir (nodes w3) (butlast t)" "t \<noteq> []"
      using True h n3 unfolding sys_rename_def by (auto dest!: sys_ok no_parent_None split: if_splits)
    moreover have "r = None" "w' = w4" using True assms(1) c d f h by (simp_all add: fill_temp_def)
    ultimately show ?thesis using t3 by blast
  next
    case False
    have r: "g = Some x \<Longrightarrow> touches ?A w w4" for x
      using h t3 unfolding sys_rename_def by (auto dest!: sys_fail simp: touches_def)
    obtain y v where z1: "sys_close w1 = (y, v)" by (rule prod.exhaust)
    have s1: "touches ?A w v" using t1 cl [OF z1] by (rule touches_trans)
    show ?thesis using False assms(1) c d f h z1 s1 t3 r
      by (cases a; cases b; cases e; cases g; simp add: fill_temp_def; blast)
  qed
qed

lemma mkdirs_adds_dirs:
  "mkdirs ps m w = (r, w') \<Longrightarrow> nodes w' q \<noteq> nodes w q \<Longrightarrow> is_dir (nodes w') q"
proof (induction ps m w arbitrary: r w' rule: mkdirs.induct)
  case (2 p ps m w)
  obtain x w1 where s: "sys_mkdir p m w = (x, w1)" by (rule prod.exhaust)
  show ?case
  proof (cases "\<not> is_dir (nodes w) p \<and> nodes w p = None \<and> x = None")
    case new: True
    then have n: "nodes w1 = (nodes w)(p \<mapsto> Dir m)"
      using s by (auto simp: sys_mkdir_def dest!: sys_ok)
    have m: "mkdirs ps m w1 = (r, w')" using 2(3) s new by simp
    show ?thesis
    proof (cases "nodes w' q = nodes w1 q")
      case True
      with 2(4) n show ?thesis by (auto simp: is_dir_def split: if_splits)
    next
      case False
      with 2(2) [OF _ _ s [symmetric]] new m show ?thesis by blast
    qed
  next
    case False
    with 2 s sys_fail [of _ _ w _ w1] show ?thesis
      by (auto simp: sys_mkdir_def split: if_splits option.splits)
  qed
qed simp

text \<open>The mode a file ends with: its own when there was one.\<close>

definition write_mode :: "tree \<Rightarrow> path \<Rightarrow> nat \<Rightarrow> nat" where
  "write_mode ns p mode = (case stat_perm ns (write_target ns p) of Some m \<Rightarrow> m | None \<Rightarrow> mode)"

text \<open>A call of \<open>Write\<close> ends before there is a temporary file, or its steps are those on it.\<close>

lemma Write_cases:
  fixes w w' :: "'z os_scheme"
  assumes "Write p data mode w = (r, w')"
  defines "t \<equiv> write_target (nodes w) p"
  obtains (early) a w1 where "mkdirs (prefixes (butlast t)) mode_0700 w = (a, w1)" "r \<noteq> None"
      "nodes w' = nodes w1" "trace w' = trace w1"
  | (staged) w1 tmp k w2 w3 z where "mkdirs (prefixes (butlast t)) mode_0700 w = (None, w1)"
      "temp_loop 10000 (butlast t) (base_name t @ ''.tmp-'') w1 = (Inr tmp, w2)"
      "tmp = butlast t @ [base_name t @ ''.tmp-'' @ k]" "list_all is_digit k" "k \<noteq> []" "tmp \<noteq> t" "t \<noteq> []"
      "nodes w1 tmp = None" "nodes w tmp = None" "nodes w2 = (nodes w1)(tmp \<mapsto> File mode_0600 [])"
      "trace w2 = nodes w2 # trace w1" "nodes w2 tmp = Some (File mode_0600 [])"
      "fill_temp tmp t data (write_mode (nodes w) p mode) w2 = (r, w3)" "sys_remove tmp w3 = (z, w')"
proof -
  obtain a w1 where mk: "mkdirs (prefixes (butlast t)) mode_0700 w = (a, w1)" by (rule prod.exhaust)
  obtain x w2 where ct: "CreateTemp (butlast t) (base_name t @ ''.tmp-'') w1 = (x, w2)" by (rule prod.exhaust)
  show thesis
  proof (cases "\<exists>tmp. a = None \<and> x = Inr tmp")
    case False
    have "nodes w2 = nodes w1 \<and> trace w2 = trace w1" if "x = Inl e" for e
      using ct that by (auto simp: CreateTemp_def dest!: temp_loop_fail split: if_splits)
    then have "r \<noteq> None \<and> nodes w' = nodes w1 \<and> trace w' = trace w1"
      using False assms(1) mk ct by (cases a; cases x) (auto simp: Write_def MkdirAll_def t_def Let_def)
    with early [OF mk] show thesis by blast
  next
    case True
    then obtain tmp where x: "a = None" "x = Inr tmp" by blast
    have no: "CHR ''/'' \<notin> set (base_name t @ ''.tmp-'')" using ct x by (auto simp: CreateTemp_def)
    then have loop: "temp_loop 10000 (butlast t) (base_name t @ ''.tmp-'') w1 = (Inr tmp, w2)"
      using ct x by (simp add: CreateTemp_def)
    obtain k where tmp: "tmp = butlast t @ [base_name t @ ''.tmp-'' @ k]" "list_all is_digit k" "k \<noteq> []"
        "nodes w1 tmp = None" "nodes w2 = (nodes w1)(tmp \<mapsto> File mode_0600 [])" "trace w2 = nodes w2 # trace w1"
      using temp_loop_touches [OF loop] by auto
    have t0: "t \<noteq> []" using no by (auto simp: base_name_def)
    have ne: "tmp \<noteq> t"
    proof
      assume "tmp = t"
      then have "last t = base_name t @ ''.tmp-'' @ k" using tmp(1) by (metis last_snoc)
      with t0 show False by (simp add: base_name_def)
    qed
    have "nodes w tmp = None" using touches_nodes [OF mkdirs_touches [OF mk], of tmp] tmp(4) by metis
    moreover obtain y w3 where f: "fill_temp tmp t data (write_mode (nodes w) p mode) w2 = (y, w3)" by (rule prod.exhaust)
    moreover obtain z w4 where rm: "sys_remove tmp w3 = (z, w4)" by (rule prod.exhaust)
    moreover have "r = y" "w' = w4"
      using assms(1) mk x ct f rm by (simp_all add: Write_def MkdirAll_def t_def write_mode_def Let_def)
    ultimately show thesis using staged mk x loop tmp ne t0 by simp
  qed
qed

lemma mkdirs_fresh:
  assumes "mkdirs (prefixes (butlast t)) m w = (a, w1)"
  shows "touches (\<lambda>q. q \<noteq> t \<and> nodes w q = None) w w1"
  using mkdirs_touches [OF assms] by (rule touches_mono) (cases t rule: rev_cases; auto dest!: prefix_length_le)

lemma remove_touches:
  assumes "sys_remove p w = (z, w')"
  shows "touches (\<lambda>q. q = p) w w'"
  using assms unfolding sys_remove_def by (rule sys_touches) simp

text \<open>After the rename the removal of the temporary file finds nothing.\<close>

lemma renamed_steps:
  assumes "touches A w v" "nodes w3 = (nodes v)(t \<mapsto> x, tmp := None)" "trace w3 = nodes w3 # trace v"
    "sys_remove tmp w3 = (z, w')" "nodes w tmp = None" "tmp \<noteq> t"
  defines "u \<equiv> v\<lparr>nodes := (nodes v)(tmp := None)\<rparr>"
  shows "touches A w u" "nodes w' = (nodes u)(t \<mapsto> x)" "trace w' = nodes w' # trace u"
proof -
  have w4: "nodes w' = nodes w3" "trace w' = trace w3"
    using assms(2,4) by (cases z; auto simp: sys_remove_def dest!: sys_ok sys_fail)+
  show "touches A w u" using assms(1,5) by (auto simp: touches_def u_def)
  show "nodes w' = (nodes u)(t \<mapsto> x)" using w4 assms(2,6) by (auto simp: u_def)
  show "trace w' = nodes w' # trace u" using w4 assms(3) by (simp add: u_def)
qed

lemma Write_steps:
  fixes w w' :: "'z os_scheme"
  assumes "Write p data mode w = (r, w')"
  defines "t \<equiv> write_target (nodes w) p"
  shows "(r \<noteq> None \<and> touches (\<lambda>q. q \<noteq> t \<and> nodes w q = None) w w') \<or>
    (r = None \<and> (\<exists>w1. touches (\<lambda>q. q \<noteq> t \<and> nodes w q = None) w w1 \<and>
       nodes w' = (nodes w1)(t \<mapsto> File (write_mode (nodes w) p mode) data) \<and> trace w' = nodes w' # trace w1 \<and>
       (\<forall>q. nodes w1 q \<noteq> nodes w q \<longrightarrow> is_dir (nodes w1) q) \<and> is_dir (nodes w1) (butlast t) \<and> t \<noteq> []))"
proof (cases rule: Write_cases [OF assms(1), folded t_def, case_names early staged])
  case (early a w1)
  with mkdirs_fresh [OF early(1)] show ?thesis by (auto simp: touches_def)
next
  case (staged w1 tmp k w2 w3 z)
  let ?A = "\<lambda>q. q \<noteq> t \<and> nodes w q = None" and ?m = "write_mode (nodes w) p mode"
  have sub: "touches (\<lambda>q. q = tmp) v v' \<Longrightarrow> touches ?A v v'" for v v' :: "'z os_scheme"
    using staged(6,9) by (auto intro: touches_mono)
  have "touches (\<lambda>q. q = tmp) w1 w2"
    using staged(10,11) by (auto simp: touches_def intro!: exI [of _ "[nodes w2]"])
  then have t2: "touches ?A w w2" using mkdirs_fresh [OF staged(1)] sub by (blast intro: touches_trans)
  from fill_temp_steps [OF staged(13,12,6)] show ?thesis
  proof
    assume bad: "r \<noteq> None \<and> touches (\<lambda>q. q = tmp) w2 w3"
    with t2 sub remove_touches [OF staged(14)] have "touches ?A w w'" by (blast intro: touches_trans)
    with bad show ?thesis by simp
  next
    assume "r = None \<and> (\<exists>v. touches (\<lambda>q. q = tmp) w2 v \<and> nodes w3 = (nodes v)(t \<mapsto> File ?m data, tmp := None) \<and>
      trace w3 = nodes w3 # trace v \<and> \<not> is_dir (nodes v) t \<and> is_dir (nodes v) (butlast t) \<and> t \<noteq> [])"
    then obtain v where v: "r = None" "touches (\<lambda>q. q = tmp) w2 v" "nodes w3 = (nodes v)(t \<mapsto> File ?m data, tmp := None)"
      "trace w3 = nodes w3 # trace v" "is_dir (nodes v) (butlast t)" by blast
    let ?v = "v\<lparr>nodes := (nodes v)(tmp := None)\<rparr>"
    note end' = renamed_steps [OF touches_trans [OF t2 sub [OF v(2)]] v(3,4) staged(14,9,6)]
    have "is_dir (nodes ?v) q" if "nodes ?v q \<noteq> nodes w q" for q
    proof (cases "q = tmp")
      case False
      then have "nodes ?v q = nodes w1 q" using touches_nodes [OF v(2)] staged(10) by simp
      with mkdirs_adds_dirs [OF staged(1), of q] that show ?thesis by (simp add: is_dir_def)
    qed (use that staged(9) in simp)
    moreover have "is_dir (nodes ?v) (butlast t)" using v(5) staged(3) by (auto simp: is_dir_def)
    ultimately show ?thesis using end' v(1) staged(7) by blast
  qed
qed

text \<open>What is different at the end: the file itself on success, directories made on the way, or a
  temporary file that could not be removed.\<close>

definition temp_name :: "path \<Rightarrow> path \<Rightarrow> bool" where
  "temp_name t q \<longleftrightarrow> (\<exists>k. q = butlast t @ [base_name t @ ''.tmp-'' @ k] \<and> list_all is_digit k \<and> k \<noteq> [])"

lemma Write_changes:
  assumes "Write p data mode w = (r, w')" "nodes w' q \<noteq> nodes w q"
  defines "t \<equiv> write_target (nodes w) p"
  shows "q = t \<and> r = None \<or>
    nodes w q = None \<and> prefix q (butlast t) \<and> is_dir (nodes w') q \<or>
    nodes w q = None \<and> r \<noteq> None \<and> temp_name t q"
proof -
  have made: "nodes w q = None \<and> prefix q (butlast t) \<and> is_dir (nodes w1) q"
    if "mkdirs (prefixes (butlast t)) mode_0700 w = (a, w1)" "nodes w1 q \<noteq> nodes w q" for a w1
    using touches_nodes [OF mkdirs_touches [OF that(1)], of q] mkdirs_adds_dirs [OF that(1), of q] that(2)
    by (metis in_set_prefixes)
  show ?thesis
  proof (cases rule: Write_cases [OF assms(1), folded t_def, case_names early staged])
    case (early a w1)
    with made [OF early(1)] assms(2) show ?thesis by simp
  next
    case (staged w1 tmp k w2 w3 z)
    have n4: "nodes w' = nodes w3 \<or> nodes w' = (nodes w3)(tmp := None)"
      using staged(14) by (cases z) (auto simp: sys_remove_def dest!: sys_ok sys_fail)
    have filled: "nodes w3 x = nodes w2 x" if "x \<noteq> tmp" "x \<noteq> t \<or> r \<noteq> None" for x
      using fill_temp_steps [OF staged(13,12,6)] that by (auto dest: touches_nodes [where q = x])
    have same: "nodes w' x = nodes w1 x" if "x \<noteq> tmp" "x \<noteq> t \<or> r \<noteq> None" for x
      using n4 filled [OF that] staged(10) that(1) by auto
    show ?thesis
    proof (cases "q = tmp")
      case True
      have "temp_name t tmp" unfolding temp_name_def using staged(3-5) by blast
      moreover have "r = None \<Longrightarrow> nodes w' tmp = None"
        using fill_temp_steps [OF staged(13,12,6)] n4 by auto
      ultimately show ?thesis using True staged(9) assms(2) by auto
    next
      case False
      with made [OF staged(1)] same [of q] assms(2) show ?thesis by (cases "q = t \<and> r = None") (auto simp: is_dir_def)
    qed
  qed
qed

text \<open>C10: replacing a file is all or nothing: whatever step fails, in every state another process
  can see the file is as it was or holds exactly the new data, and it holds the new data at the
  end if and only if no error is reported; every other existing file is left alone, and success
  leaves nothing new behind but directories.\<close>

theorem write_atomic:
  fixes w :: "'z os_scheme"
  shows "case Write p data mode w of (r, w') \<Rightarrow>
    let t = write_target (nodes w) p; new = Some (File (write_mode (nodes w) p mode) data) in
    (\<exists>states. trace w' = states @ trace w \<and>
       list_all (\<lambda>ns. (ns t = nodes w t \<or> ns t = new) \<and>
         (\<forall>q. q = t \<or> nodes w q = None \<or> ns q = nodes w q)) states) \<and>
    nodes w' t = (if r = None then new else nodes w t) \<and>
    (if r = None then \<forall>q. q = t \<or> nodes w' q = nodes w q \<or> is_dir (nodes w') q else True)"
proof -
  let ?t = "write_target (nodes w) p" and ?A = "\<lambda>q. q \<noteq> write_target (nodes w) p \<and> nodes w q = None"
  let ?new = "Some (File (write_mode (nodes w) p mode) data)"
  obtain r w' where wr: "Write p data mode w = (r, w')" by (rule prod.exhaust)
  from Write_steps [OF wr] show ?thesis
  proof
    assume "r \<noteq> None \<and> touches ?A w w'"
    then obtain new where "r \<noteq> None" "trace w' = new @ trace w"
        "\<forall>ns \<in> set (nodes w' # new). \<forall>q. \<not> ?A q \<longrightarrow> ns q = nodes w q" by (auto simp: touches_def)
    moreover from this have "list_all (\<lambda>ns. (ns ?t = nodes w ?t \<or> ns ?t = ?new) \<and>
         (\<forall>q. q = ?t \<or> nodes w q = None \<or> ns q = nodes w q)) new"
      unfolding list_all_iff by (metis list.set_intros(2))
    ultimately show ?thesis by (auto simp: wr Let_def)
  next
    assume "r = None \<and> (\<exists>w1. touches ?A w w1 \<and>
      nodes w' = (nodes w1)(?t \<mapsto> File (write_mode (nodes w) p mode) data) \<and> trace w' = nodes w' # trace w1 \<and>
      (\<forall>q. nodes w1 q \<noteq> nodes w q \<longrightarrow> is_dir (nodes w1) q) \<and> is_dir (nodes w1) (butlast ?t) \<and> ?t \<noteq> [])"
    then obtain w1 where r: "r = None" and t1: "touches ?A w w1" and n: "nodes w' = (nodes w1)(?t := ?new)"
        "trace w' = nodes w' # trace w1" and d: "\<And>q. nodes w1 q \<noteq> nodes w q \<Longrightarrow> is_dir (nodes w1) q" by blast
    obtain a where a: "trace w1 = a @ trace w" "\<forall>ns \<in> set (nodes w1 # a). \<forall>q. \<not> ?A q \<longrightarrow> ns q = nodes w q"
      using t1 by (auto simp: touches_def)
    have "trace w' = (nodes w' # a) @ trace w" using n a by simp
    moreover have "list_all (\<lambda>ns. (ns ?t = nodes w ?t \<or> ns ?t = ?new) \<and>
         (\<forall>q. q = ?t \<or> nodes w q = None \<or> ns q = nodes w q)) (nodes w' # a)"
    proof -
      have "list_all (\<lambda>ns. (ns ?t = nodes w ?t \<or> ns ?t = ?new) \<and>
         (\<forall>q. q = ?t \<or> nodes w q = None \<or> ns q = nodes w q)) a"
        using a(2) unfolding list_all_iff by (metis list.set_intros(2))
      moreover have "q = ?t \<or> nodes w q = None \<or> nodes w1 q = nodes w q" for q
        using a(2) by auto
      ultimately show ?thesis using n by auto
    qed
    moreover have "q = ?t \<or> nodes w' q = nodes w q \<or> is_dir (nodes w') q" for q
      using d [of q] n by (auto simp: is_dir_def)
    ultimately show ?thesis using r n by (auto simp: wr Let_def)
  qed
qed

section \<open>Reading what was written\<close>

lemma follow_end: "follow n ns p = Some t \<Longrightarrow> (\<nexists>u. ns t = Some (Link u))"
  by (induction n arbitrary: p) (auto split: option.splits node.splits)

lemma follow_change:
  assumes "follow n ns p = Some t" "\<And>q. q \<noteq> t \<Longrightarrow> ns q \<noteq> None \<Longrightarrow> ns' q = ns q" "\<nexists>u. ns' t = Some (Link u)"
  shows "follow n ns' p = Some t"
  using assms(1)
proof (induction n arbitrary: p)
  case (Suc n)
  show ?case
  proof (cases "\<exists>u. ns p = Some (Link u)")
    case True
    then obtain u where u: "ns p = Some (Link u)" by blast
    with Suc.prems have f: "follow n ns u = Some t" by simp
    have "p \<noteq> t" using u follow_end [OF f] by blast
    with u assms(2) have "ns' p = Some (Link u)" by simp
    with Suc.IH [OF f] show ?thesis by simp
  next
    case False
    with Suc.prems have "p = t" by (auto split: option.splits node.splits)
    with assms(3) show ?thesis by (auto split: option.split node.split)
  qed
qed simp

lemma read_written:
  assumes "Write p data mode w = (None, w')"
  shows "ReadFile p w' = Inr data"
proof -
  let ?t = "write_target (nodes w) p"
  obtain w1 where t1: "touches (\<lambda>q. q \<noteq> ?t \<and> nodes w q = None) w w1"
      and n: "nodes w' = (nodes w1)(?t \<mapsto> File (write_mode (nodes w) p mode) data)"
    using Write_steps [OF assms] by blast
  have same: "nodes w' q = nodes w q" if "q \<noteq> ?t" "nodes w q \<noteq> None" for q
    using touches_nodes [OF t1, of q] n that by simp
  have "follow (Suc max_links) (nodes w') p = Some ?t"
  proof (cases "eval_symlinks (nodes w) p")
    case None
    then show ?thesis using n by (simp add: write_target_def)
  next
    case (Some t)
    then have "follow (Suc max_links) (nodes w) p = Some ?t"
      by (simp add: eval_symlinks_def write_target_def split: option.splits if_splits)
    then show ?thesis by (rule follow_change) (use same n in auto)
  qed
  then show ?thesis using n by (simp add: ReadFile_def read_node_def)
qed

section \<open>What no operation changes\<close>

text \<open>The rest of the machine: the environment, the clock, and whatever extends the record.\<close>

definition same_machine :: "'z os_scheme \<Rightarrow> 'z os_scheme \<Rightarrow> bool" where
  "same_machine w w' \<longleftrightarrow> random w' = random w \<and> getenv w' = getenv w \<and> GOOS w' = GOOS w \<and> zone w' = zone w \<and>
     clock w' = clock w \<and> cwd w' = cwd w \<and> os.more w' = os.more w"

lemma same_machine_refl [simp, intro]: "same_machine w w"
  by (simp add: same_machine_def)

lemma same_machine_trans [trans]: "same_machine a b \<Longrightarrow> same_machine b c \<Longrightarrow> same_machine a c"
  by (simp add: same_machine_def)

lemma same_machine_nodes [simp]: "same_machine a (set_nodes ns b) = same_machine a b"
  by (simp add: same_machine_def set_nodes_def)

lemma fault_machine: "next_fault w = (f, w') \<Longrightarrow> same_machine w w'"
  by (auto simp: next_fault_def same_machine_def split: list.splits)

lemma sys_machine: "sys refuse change w = (r, w') \<Longrightarrow> same_machine w w'"
  by (auto simp: sys_def split: prod.splits option.splits dest!: fault_machine)

lemma write_machine: "sys_write p data w = (r, w') \<Longrightarrow> same_machine w w'"
  by (auto simp: sys_write_def split: prod.splits option.splits dest!: fault_machine)

lemma call_machine:
  "sys_mkdir p m w = (r, w') \<Longrightarrow> same_machine w w'" "sys_create p m w = (r, w') \<Longrightarrow> same_machine w w'"
  "sys_chmod p m w = (r, w') \<Longrightarrow> same_machine w w'" "sys_truncate p w = (r, w') \<Longrightarrow> same_machine w w'"
  "sys_close w = (r, w') \<Longrightarrow> same_machine w w'" "sys_rename p q w = (r, w') \<Longrightarrow> same_machine w w'"
  "sys_remove p w = (r, w') \<Longrightarrow> same_machine w w'" "RemoveAll p w = (r, w') \<Longrightarrow> same_machine w w'"
  unfolding calls RemoveAll_def by (erule sys_machine)+

lemma mkdirs_machine: "mkdirs ps m w = (r, w') \<Longrightarrow> same_machine w w'"
proof (induction ps m w arbitrary: r w' rule: mkdirs.induct)
  case (2 p ps m w)
  obtain x w1 where s: "sys_mkdir p m w = (x, w1)" by (rule prod.exhaust)
  with call_machine(1) [OF s] 2 show ?case
    by (auto split: if_splits option.splits intro: same_machine_trans)
qed simp

lemma temp_machine: "temp_loop n dir pre w = (x, w') \<Longrightarrow> same_machine w w'"
proof (induction n arbitrary: w)
  case (Suc n)
  obtain r w1 where d: "draw w = (r, w1)" by (rule prod.exhaust)
  then have d': "same_machine w w1" by (auto simp: draw_def same_machine_def)
  obtain y w2 where c: "sys_create (dir @ [pre @ dec_nat r]) mode_0600 w1 = (y, w2)" by (rule prod.exhaust)
  show ?case using Suc d d' c call_machine(2) [OF c]
    by (auto simp: Let_def split: if_splits option.splits intro: same_machine_trans)
qed simp

lemma fill_machine:
  assumes "fill_temp tmp t data m w = (r, w')"
  shows "same_machine w w'"
proof -
  obtain a w1 where c: "sys_chmod tmp m w = (a, w1)" by (rule prod.exhaust)
  obtain b w2 where d: "sys_write tmp data w1 = (b, w2)" by (rule prod.exhaust)
  obtain e w3 where f: "sys_close w2 = (e, w3)" by (rule prod.exhaust)
  obtain g w4 where h: "sys_rename tmp t w3 = (g, w4)" by (rule prod.exhaust)
  obtain y v where z: "sys_close w1 = (y, v)" by (rule prod.exhaust)
  note m = call_machine(3) [OF c] write_machine [OF d] call_machine(5) [OF f] call_machine(6) [OF h] call_machine(5) [OF z]
  have "same_machine w w3" "same_machine w w4" "same_machine w v"
    using m by (auto intro: same_machine_trans)
  with assms c d f h z show ?thesis by (cases a; cases b; cases e) (simp_all add: fill_temp_def)
qed

lemma Write_machine:
  assumes "Write p data mode w = (r, w')"
  shows "same_machine w w'"
proof -
  define t where "t = write_target (nodes w) p"
  obtain a w1 where mk: "MkdirAll (butlast t) mode_0700 w = (a, w1)" by (rule prod.exhaust)
  have m1: "same_machine w w1" using mkdirs_machine [OF mk [unfolded MkdirAll_def]] .
  obtain x w2 where ct: "CreateTemp (butlast t) (base_name t @ ''.tmp-'') w1 = (x, w2)" by (rule prod.exhaust)
  have "same_machine w1 w2" using ct by (auto simp: CreateTemp_def dest: temp_machine split: if_splits)
  with m1 have m2: "same_machine w w2" by (rule same_machine_trans)
  show ?thesis
  proof (cases "\<exists>tmp. a = None \<and> x = Inr tmp")
    case True
    then obtain tmp where x: "a = None" "x = Inr tmp" by blast
    obtain y w3 where f: "fill_temp tmp t data (write_mode (nodes w) p mode) w2 = (y, w3)" by (rule prod.exhaust)
    obtain z w4 where rm: "sys_remove tmp w3 = (z, w4)" by (rule prod.exhaust)
    have "w' = w4" using assms mk x ct f rm by (simp add: Write_def t_def write_mode_def Let_def)
    with same_machine_trans [OF same_machine_trans [OF m2 fill_machine [OF f]] call_machine(7) [OF rm]] show ?thesis by simp
  next
    case False
    with assms mk ct m1 m2 show ?thesis by (cases a; cases x) (auto simp: Write_def t_def Let_def)
  qed
qed

section \<open>Invariants of the tree\<close>

text \<open>A property of the tree that every single change keeps is kept by every operation.\<close>

locale tree_invariant =
  fixes I :: "tree \<Rightarrow> bool"
  assumes on_mkdir: "I ns \<Longrightarrow> ns p = None \<Longrightarrow> p \<noteq> [] \<Longrightarrow> is_dir ns (butlast p) \<Longrightarrow> I (ns(p \<mapsto> Dir m))"
    and on_create: "I ns \<Longrightarrow> ns p = None \<Longrightarrow> p \<noteq> [] \<Longrightarrow> is_dir ns (butlast p) \<Longrightarrow> I (ns(p \<mapsto> File m []))"
    and on_update: "I ns \<Longrightarrow> ns p = Some (File m d) \<Longrightarrow> I (ns(p \<mapsto> File m' d'))"
    and on_rename: "I ns \<Longrightarrow> ns p = Some (File m d) \<Longrightarrow> \<not> is_dir ns q \<Longrightarrow> q \<noteq> [] \<Longrightarrow> is_dir ns (butlast q)
      \<Longrightarrow> I (ns(q \<mapsto> File m d, p := None))"
    and on_remove: "I ns \<Longrightarrow> ns p \<noteq> None \<Longrightarrow> \<not> is_dir ns p \<Longrightarrow> I (ns(p := None))"
begin

lemma sys_keeps:
  assumes "sys refuse change w = (r, w')" "I (nodes w)" "refuse (nodes w) = None \<Longrightarrow> I (change (nodes w))"
  shows "I (nodes w')"
  using assms sys_ok [of refuse change w w'] sys_fail [of refuse change w _ w'] by (cases r) auto

lemma mkdir_keeps: "sys_mkdir p m w = (r, w') \<Longrightarrow> I (nodes w) \<Longrightarrow> I (nodes w')"
  unfolding sys_mkdir_def by (erule sys_keeps) (auto dest: no_parent_None intro: on_mkdir split: if_splits)

lemma create_keeps: "sys_create p m w = (r, w') \<Longrightarrow> I (nodes w) \<Longrightarrow> I (nodes w')"
  unfolding sys_create_def by (erule sys_keeps) (auto dest: no_parent_None intro: on_create split: if_splits)

lemma chmod_keeps: "sys_chmod p m w = (r, w') \<Longrightarrow> I (nodes w) \<Longrightarrow> I (nodes w')"
  unfolding sys_chmod_def by (erule sys_keeps) (auto intro: on_update split: option.splits node.splits)

lemma truncate_keeps: "sys_truncate p w = (r, w') \<Longrightarrow> I (nodes w) \<Longrightarrow> I (nodes w')"
  unfolding sys_truncate_def by (erule sys_keeps) (auto intro: on_update split: option.splits node.splits)

lemma remove_keeps: "sys_remove p w = (r, w') \<Longrightarrow> I (nodes w) \<Longrightarrow> I (nodes w')"
  unfolding sys_remove_def by (erule sys_keeps) (auto intro: on_remove split: if_splits)

lemma idle_keeps: "sys refuse (\<lambda>ns. ns) w = (r, w') \<Longrightarrow> I (nodes w) \<Longrightarrow> I (nodes w')"
  by (erule sys_keeps) auto

lemma append_keeps: "I ns \<Longrightarrow> I (append_file p data ns)"
  by (auto simp: append_file_def intro: on_update split: option.split node.split)

lemma write_keeps: "sys_write p data w = (r, w') \<Longrightarrow> I (nodes w) \<Longrightarrow> I (nodes w')"
  by (auto simp: sys_write_def set_nodes_def append_keeps split: prod.splits option.splits dest!: next_fault_same)

lemma mkdirs_keep: "mkdirs ps m w = (r, w') \<Longrightarrow> I (nodes w) \<Longrightarrow> I (nodes w')"
proof (induction ps m w arbitrary: r w' rule: mkdirs.induct)
  case (2 p ps m w)
  obtain x w1 where s: "sys_mkdir p m w = (x, w1)" by (rule prod.exhaust)
  with mkdir_keeps [OF s] 2 show ?case by (auto split: if_splits option.splits)
qed simp

lemma temp_keeps: "temp_loop n dir pre w = (x, w') \<Longrightarrow> I (nodes w) \<Longrightarrow> I (nodes w')"
proof (induction n arbitrary: w)
  case (Suc n)
  obtain r w1 where d: "draw w = (r, w1)" by (rule prod.exhaust)
  then have same: "nodes w1 = nodes w" by (auto simp: draw_def)
  obtain y w2 where c: "sys_create (dir @ [pre @ dec_nat r]) mode_0600 w1 = (y, w2)" by (rule prod.exhaust)
  show ?case using Suc d c same create_keeps [OF c] by (auto simp: Let_def split: if_splits option.splits)
qed simp

lemma fill_keeps:
  assumes "fill_temp tmp t data m w = (r, w')" "nodes w tmp = Some (File m0 d0)" "I (nodes w)"
  shows "I (nodes w')"
proof -
  obtain a w1 where c: "sys_chmod tmp m w = (a, w1)" by (rule prod.exhaust)
  obtain b w2 where d: "sys_write tmp data w1 = (b, w2)" by (rule prod.exhaust)
  obtain e w3 where f: "sys_close w2 = (e, w3)" by (rule prod.exhaust)
  obtain g w4 where h: "sys_rename tmp t w3 = (g, w4)" by (rule prod.exhaust)
  obtain y v where z: "sys_close w1 = (y, v)" by (rule prod.exhaust)
  have i1: "I (nodes w1)" using chmod_keeps [OF c assms(3)] .
  have i2: "I (nodes w2)" using write_keeps [OF d i1] .
  have i3: "I (nodes w3)" using idle_keeps [OF f [unfolded sys_close_def] i2] .
  have iv: "I (nodes v)" using idle_keeps [OF z [unfolded sys_close_def] i1] .
  have "I (nodes w4)" if ok: "a = None" "b = None" "e = None"
  proof -
    obtain m1 d1 where "nodes w1 tmp = Some (File m1 d1)"
      using ok c assms(2) by (auto simp: sys_chmod_def dest!: sys_ok)
    then have "nodes w2 tmp = Some (File m1 (d1 @ data))"
      using ok write_ok [of tmp data w1 w2] d by (simp add: append_file_def)
    moreover have "nodes w3 = nodes w2"
      using ok f sys_ok [of "\<lambda>_. None" "\<lambda>ns. ns" w2 w3] by (simp add: sys_close_def)
    ultimately have n: "nodes w3 tmp = Some (File m1 (d1 @ data))" by simp
    show ?thesis using h [unfolded sys_rename_def] i3
      by (rule sys_keeps) (use n on_rename [OF i3 n] in \<open>auto dest!: no_parent_None split: if_splits\<close>)
  qed
  with i2 i3 iv assms(1) c d f h z show ?thesis
    by (cases a; cases b; cases e) (simp_all add: fill_temp_def)
qed

lemma Write_keeps:
  assumes "Write p data mode w = (r, w')" "I (nodes w)"
  shows "I (nodes w')"
  using assms(1)
proof (cases rule: Write_cases)
  case (early a w1)
  with mkdirs_keep [OF early(1) assms(2)] show ?thesis by simp
next
  case (staged w1 tmp k w2 w3 z)
  have "I (nodes w2)" using temp_keeps [OF staged(2) mkdirs_keep [OF staged(1) assms(2)]] .
  from remove_keeps [OF staged(14) fill_keeps [OF staged(13,12) this]] show ?thesis .
qed

lemma WriteFile_keeps: "WriteFile p data mode w = (r, w') \<Longrightarrow> I (nodes w) \<Longrightarrow> I (nodes w')"
  by (auto simp: WriteFile_def sys_close_def Let_def split: option.splits prod.splits if_splits
      dest: create_keeps truncate_keeps write_keeps idle_keeps)

lemma append_string_keeps: "append_string p data mode w = (r, w') \<Longrightarrow> I (nodes w) \<Longrightarrow> I (nodes w')"
  by (auto simp: append_string_def sys_close_def Let_def split: option.splits prod.splits if_splits
      dest: create_keeps write_keeps idle_keeps)

end

text \<open>Everything there is stands in a directory.\<close>

definition tree_ok :: "tree \<Rightarrow> bool" where
  "tree_ok ns \<longleftrightarrow> (\<forall>q p. ns q \<noteq> None \<longrightarrow> strict_prefix p q \<longrightarrow> is_dir ns p)"

lemma tree_ok_add:
  assumes "tree_ok ns" "is_dir ns (butlast p)" "p \<noteq> []" "\<not> is_dir ns p"
  shows "tree_ok (ns(p \<mapsto> x))"
proof -
  have "is_dir (ns(p \<mapsto> x)) p'" if q: "(ns(p \<mapsto> x)) q \<noteq> None" "strict_prefix p' q" for q p'
  proof -
    have "is_dir ns p'"
    proof (cases "q = p")
      case True
      have "prefix p' (butlast p)" using q(2) True assms(3)
        by (metis append_butlast_last_id prefix_order.dual_order.strict_iff_order prefix_snoc strict_prefix_def)
      moreover have "ns (butlast p) \<noteq> None" using assms(2) by (auto simp: is_dir_def split: option.splits)
      ultimately show ?thesis using assms(1,2) unfolding tree_ok_def strict_prefix_def by metis
    next
      case False
      with q assms(1) show ?thesis by (auto simp: tree_ok_def)
    qed
    with assms(4) show ?thesis by (cases "p' = p") (auto simp: is_dir_def)
  qed
  then show ?thesis by (simp add: tree_ok_def)
qed

lemma tree_ok_remove: "tree_ok ns \<Longrightarrow> \<not> is_dir ns p \<Longrightarrow> tree_ok (ns(p := None))"
  by (simp add: tree_ok_def) (metis (no_types, lifting) fun_upd_apply is_dir_def)

lemma tree_ok_update: "tree_ok ns \<Longrightarrow> ns p = Some (File m d) \<Longrightarrow> tree_ok (ns(p \<mapsto> File m' d'))"
proof -
  assume ok: "tree_ok ns" and f: "ns p = Some (File m d)"
  have "is_dir (ns(p \<mapsto> File m' d')) p'" if "(ns(p \<mapsto> File m' d')) q \<noteq> None" "strict_prefix p' q" for q p'
  proof -
    have "ns q \<noteq> None" using that(1) f by (auto split: if_splits)
    with ok that(2) have "is_dir ns p'" unfolding tree_ok_def by blast
    with f show ?thesis by (cases "p' = p") (simp_all add: is_dir_def)
  qed
  then show ?thesis by (simp add: tree_ok_def)
qed

interpretation tree: tree_invariant tree_ok
proof
  fix ns p q m m' d d'
  assume ok: "tree_ok ns"
  show "ns p = None \<Longrightarrow> p \<noteq> [] \<Longrightarrow> is_dir ns (butlast p) \<Longrightarrow> tree_ok (ns(p \<mapsto> Dir m))"
    "ns p = None \<Longrightarrow> p \<noteq> [] \<Longrightarrow> is_dir ns (butlast p) \<Longrightarrow> tree_ok (ns(p \<mapsto> File m []))"
    using ok by (auto intro!: tree_ok_add simp: is_dir_def)
  show "ns p = Some (File m d) \<Longrightarrow> tree_ok (ns(p \<mapsto> File m' d'))"
    using ok by (rule tree_ok_update)
  show "ns p \<noteq> None \<Longrightarrow> \<not> is_dir ns p \<Longrightarrow> tree_ok (ns(p := None))"
    using ok by (rule tree_ok_remove)
  assume f: "ns p = Some (File m d)" and q: "\<not> is_dir ns q" "q \<noteq> []" "is_dir ns (butlast q)"
  have "tree_ok (ns(q \<mapsto> File m d))" using ok q by (intro tree_ok_add)
  moreover have "\<not> is_dir (ns(q \<mapsto> File m d)) p" using f by (simp add: is_dir_def)
  ultimately show "tree_ok (ns(q \<mapsto> File m d, p := None))" by (rule tree_ok_remove)
qed

text \<open>No symbolic links below a directory.\<close>

definition no_links :: "path \<Rightarrow> tree \<Rightarrow> bool" where
  "no_links dir ns \<longleftrightarrow> (\<forall>q u. prefix dir q \<longrightarrow> ns q \<noteq> Some (Link u))"

interpretation plain: tree_invariant "no_links dir" for dir
  by unfold_locales (auto simp: no_links_def)

section \<open>When nothing fails\<close>

text \<open>Without a fault a call that the tree does not refuse succeeds, and leaves the machine quiet.\<close>

definition quiet :: "'z os_scheme \<Rightarrow> 'z os_scheme \<Rightarrow> bool" where
  "quiet w w' \<longleftrightarrow> faults w' = [] \<and> random w' = random w \<and> drawn w' = drawn w"

lemma sys_quiet:
  assumes "faults w = []" "refuse (nodes w) = None"
  shows "\<exists>w'. sys refuse change w = (None, w') \<and> nodes w' = change (nodes w) \<and> quiet w w'"
  using assms by (simp add: sys_def next_fault_def set_nodes_def quiet_def)

lemma mkdirs_append:
  "mkdirs (ps @ qs) m w = (case mkdirs ps m w of (Some e, w1) \<Rightarrow> (Some e, w1) | (None, w1) \<Rightarrow> mkdirs qs m w1)"
  by (induction ps m w rule: mkdirs.induct) (auto split: prod.splits option.splits)

lemma mkdirs_quiet:
  assumes "faults w = []" "is_dir (nodes w) []"
  shows "(\<And>q. prefix q p \<Longrightarrow> nodes w q = None \<or> is_dir (nodes w) q) \<Longrightarrow>
    \<exists>w'. mkdirs (prefixes p) m w = (None, w') \<and> quiet w w' \<and> is_dir (nodes w') p"
proof (induction p rule: rev_induct)
  case Nil
  with assms show ?case by (simp add: quiet_def)
next
  case (snoc c p)
  obtain w1 where w1: "mkdirs (prefixes p) m w = (None, w1)" "quiet w w1" "is_dir (nodes w1) p"
    using snoc by auto
  have "nodes w1 (p @ [c]) = nodes w (p @ [c])"
    using touches_nodes [OF mkdirs_touches [OF w1(1)], of "p @ [c]"] by (auto dest: prefix_length_le)
  with snoc.prems [of "p @ [c]"] consider "is_dir (nodes w1) (p @ [c])" | "nodes w1 (p @ [c]) = None"
    by (auto simp: is_dir_def)
  then show ?case
  proof cases
    case 1
    with w1 show ?thesis by (auto simp: prefixes_snoc mkdirs_append)
  next
    case 2
    have "\<exists>w2. sys_mkdir (p @ [c]) m w1 = (None, w2) \<and> nodes w2 = (nodes w1)(p @ [c] \<mapsto> Dir m) \<and> quiet w1 w2"
      unfolding sys_mkdir_def using w1 2 by (intro sys_quiet) (simp_all add: quiet_def no_parent_def)
    with w1 2 show ?thesis by (auto simp: prefixes_snoc mkdirs_append is_dir_def quiet_def)
  qed
qed

definition first_temp :: "path \<Rightarrow> 'z os_scheme \<Rightarrow> path" where
  "first_temp t w = butlast t @ [(base_name t @ ''.tmp-'') @ dec_nat (random w (drawn w) mod 2 ^ 32)]"

lemma temp_quiet:
  assumes "faults w = []" "nodes w (first_temp t w) = None" "is_dir (nodes w) (butlast t)"
  shows "\<exists>w'. temp_loop 10000 (butlast t) (base_name t @ ''.tmp-'') w = (Inr (first_temp t w), w') \<and>
    nodes w' = (nodes w)(first_temp t w \<mapsto> File mode_0600 []) \<and> faults w' = [] \<and>
    random w' = random w \<and> drawn w' = Suc (drawn w)"
proof -
  have loop: "temp_loop 10000 d pre v = temp_loop (Suc 9999) d pre v" for d pre and v :: "'a os_scheme"
    by simp
  let ?v = "w\<lparr>drawn := Suc (drawn w)\<rparr>"
  have "\<exists>w'. sys_create (first_temp t w) mode_0600 ?v = (None, w') \<and>
      nodes w' = (nodes ?v)(first_temp t w \<mapsto> File mode_0600 []) \<and> quiet ?v w'"
    unfolding sys_create_def by (rule sys_quiet) (use assms in \<open>simp_all add: no_parent_def first_temp_def\<close>)
  with assms show ?thesis
    unfolding loop temp_loop.simps by (auto simp: draw_def Let_def quiet_def first_temp_def)
qed

lemma fill_quiet:
  assumes "faults w = []" "nodes w tmp = Some (File m0 [])" "tmp \<noteq> t" "t \<noteq> []" "\<not> is_dir (nodes w) t"
    "is_dir (nodes w) (butlast t)"
  shows "\<exists>w'. fill_temp tmp t data m w = (None, w') \<and> quiet w w'"
proof -
  obtain w1 where c: "sys_chmod tmp m w = (None, w1)" "nodes w1 = (nodes w)(tmp \<mapsto> File m [])" "quiet w w1"
    unfolding sys_chmod_def using sys_quiet [OF assms(1), of "\<lambda>ns. if is_file ns tmp then None else Some ENOENT"] assms(2)
    by (force simp: is_file_def)
  define w2 where "w2 = set_nodes (append_file tmp data (nodes w1)) w1"
  have d: "sys_write tmp data w1 = (None, w2)" using c(3) by (simp add: sys_write_def next_fault_def quiet_def w2_def)
  have n2: "nodes w2 = (nodes w)(tmp \<mapsto> File m data)" "faults w2 = []"
    using c by (simp_all add: w2_def set_nodes_def append_file_def quiet_def)
  obtain w3 where f: "sys_close w2 = (None, w3)" "nodes w3 = nodes w2" "quiet w2 w3"
    unfolding sys_close_def using sys_quiet [OF n2(2), of "\<lambda>_. None" "\<lambda>ns. ns"] by auto
  have "butlast t \<noteq> tmp" using assms(2,6) by (auto simp: is_dir_def)
  then have "\<exists>w4. sys_rename tmp t w3 = (None, w4) \<and>
      nodes w4 = (nodes w3)(t := nodes w3 tmp, tmp := None) \<and> quiet w3 w4"
    unfolding sys_rename_def using f n2 assms
    by (intro sys_quiet) (simp_all add: no_parent_def quiet_def is_dir_def)
  moreover have "quiet w1 w2"
    using c(3) by (simp add: w2_def quiet_def set_nodes_def)
  ultimately show ?thesis using c d f by (auto simp: fill_temp_def quiet_def)
qed

lemma write_runs:
  fixes p w
  defines "t \<equiv> write_target (nodes w) p"
  assumes "faults w = []" "is_dir (nodes w) []" "\<not> is_dir (nodes w) t"
    and "\<And>q. prefix q (butlast t) \<Longrightarrow> nodes w q = None \<or> is_dir (nodes w) q"
    and "nodes w (first_temp t w) = None" "CHR ''/'' \<notin> set (base_name t)"
  shows "\<exists>w'. Write p data mode w = (None, w') \<and> faults w' = [] \<and> random w' = random w \<and> drawn w' = Suc (drawn w)"
proof -
  have t0: "t \<noteq> []" using assms(3,4) by auto
  obtain w1 where mk: "mkdirs (prefixes (butlast t)) mode_0700 w = (None, w1)" "quiet w w1"
      "is_dir (nodes w1) (butlast t)"
    using mkdirs_quiet [of w "butlast t" mode_0700] assms(2,3,5) by blast
  have long: "\<not> prefix q (butlast t)" if "length q = length t" for q
    using that t0 prefix_length_le [of q "butlast t"] by (cases t) auto
  have same: "nodes w1 q = nodes w q" if "length q = length t" for q
    using touches_nodes [OF mkdirs_touches [OF mk(1)], of q] long [OF that] by auto
  have ft: "first_temp t w1 = first_temp t w" using mk(2) by (simp add: first_temp_def quiet_def)
  have len: "length (first_temp t w) = length t" using t0 by (cases t) (simp_all add: first_temp_def)
  have ne: "first_temp t w \<noteq> t"
  proof
    assume "first_temp t w = t"
    then have "last t = (base_name t @ ''.tmp-'') @ dec_nat (random w (drawn w) mod 2 ^ 32)"
      unfolding first_temp_def by (metis last_snoc)
    with t0 show False by (simp add: base_name_def)
  qed
  obtain w2 where ct: "temp_loop 10000 (butlast t) (base_name t @ ''.tmp-'') w1 = (Inr (first_temp t w), w2)"
      "nodes w2 = (nodes w1)(first_temp t w \<mapsto> File mode_0600 [])" "faults w2 = []"
      "random w2 = random w" "drawn w2 = Suc (drawn w)"
    using temp_quiet [of w1 t] mk assms(6) same [OF len] ft by (auto simp: quiet_def)
  have "\<exists>w3. fill_temp (first_temp t w) t data (write_mode (nodes w) p mode) w2 = (None, w3) \<and> quiet w2 w3"
  proof (rule fill_quiet [OF ct(3) _ ne t0])
    show "nodes w2 (first_temp t w) = Some (File mode_0600 [])" using ct(2) by simp
    show "\<not> is_dir (nodes w2) t" using ct(2) ne same [of t] assms(4) by (simp add: is_dir_def)
    have "first_temp t w \<noteq> butlast t" using len t0 by (cases t) auto
    then show "is_dir (nodes w2) (butlast t)" using ct(2) mk(3) by (simp add: is_dir_def)
  qed
  then obtain w3 where f: "fill_temp (first_temp t w) t data (write_mode (nodes w) p mode) w2 = (None, w3)" "quiet w2 w3"
    by blast
  obtain x w4 where rm: "sys_remove (first_temp t w) w3 = (x, w4)" by (rule prod.exhaust)
  have "quiet w3 w4" using rm f(2) by (auto simp: sys_remove_def sys_def next_fault_def quiet_def set_nodes_def split: option.splits)
  have "CreateTemp (butlast t) (base_name t @ ''.tmp-'') w1 = (Inr (first_temp t w), w2)"
    using ct(1) assms(7) by (simp add: CreateTemp_def)
  with mk f rm have "Write p data mode w = (None, w4)"
    by (simp add: Write_def MkdirAll_def write_mode_def t_def [symmetric] Let_def)
  with f(2) ct(3-5) \<open>quiet w3 w4\<close> show ?thesis by (simp add: quiet_def)
qed

lemma write_quiet:
  fixes p w
  defines "t \<equiv> write_target (nodes w) p"
  assumes "faults w = []" "is_dir (nodes w) []" "\<not> is_dir (nodes w) t"
    and "\<And>q. prefix q (butlast t) \<Longrightarrow> nodes w q = None \<or> is_dir (nodes w) q"
    and "nodes w (first_temp t w) = None" "CHR ''/'' \<notin> set (base_name t)"
  shows "\<exists>w'. Write p data mode w = (None, w') \<and> ReadFile p w' = Inr data"
proof -
  have "\<exists>w'. Write p data mode w = (None, w') \<and> faults w' = [] \<and> random w' = random w \<and> drawn w' = Suc (drawn w)"
    using assms(2-) unfolding t_def by (intro write_runs) auto
  then show ?thesis using read_written by blast
qed

text \<open>A plain write, when nothing fails.\<close>

lemma write_file_runs:
  assumes "faults w = []" "\<nexists>u. nodes w p = Some (Link u)" "\<not> is_dir (nodes w) p" "is_dir (nodes w) (butlast p)" "p \<noteq> []"
  shows "\<exists>w' m. WriteFile p data mode w = (None, w') \<and> nodes w' = (nodes w)(p \<mapsto> File m data) \<and> quiet w w'"
proof -
  have f: "follow (Suc max_links) (nodes w) p = Some p" using assms(2) by (auto split: option.split node.split)
  have "\<exists>w1 m. (if nodes w p = None then sys_create p mode w else sys_truncate p w) = (None, w1) \<and>
      nodes w1 = (nodes w)(p \<mapsto> File m []) \<and> quiet w w1"
  proof (cases "nodes w p")
    case None
    with sys_quiet [OF assms(1), of "\<lambda>ns. if ns p \<noteq> None then Some EEXIST else no_parent p ns" "\<lambda>ns. ns(p \<mapsto> File mode [])"]
      assms(4,5) show ?thesis by (auto simp: sys_create_def no_parent_def)
  next
    case (Some x)
    then obtain m d where x: "nodes w p = Some (File m d)" using assms(2,3) by (cases x) (auto simp: is_dir_def)
    with sys_quiet [OF assms(1), of "\<lambda>ns. if is_file ns p then None else Some EISDIR"
        "\<lambda>ns. case ns p of Some (File m _) \<Rightarrow> ns(p \<mapsto> File m []) | _ \<Rightarrow> ns"]
    show ?thesis by (auto simp: sys_truncate_def is_file_def)
  qed
  then obtain w1 m where w1: "(if nodes w p = None then sys_create p mode w else sys_truncate p w) = (None, w1)"
      "nodes w1 = (nodes w)(p \<mapsto> File m [])" "quiet w w1" by blast
  define w2 where "w2 = set_nodes (append_file p data (nodes w1)) w1"
  have d: "sys_write p data w1 = (None, w2)" using w1(3) by (simp add: sys_write_def next_fault_def quiet_def w2_def)
  have n2: "nodes w2 = (nodes w)(p \<mapsto> File m data)" "faults w2 = []" "quiet w w2"
    using w1 by (simp_all add: w2_def set_nodes_def append_file_def quiet_def)
  obtain w3 where c: "sys_close w2 = (None, w3)" "nodes w3 = nodes w2" "quiet w2 w3"
    unfolding sys_close_def using sys_quiet [OF n2(2), of "\<lambda>_. None" "\<lambda>ns. ns"] by auto
  have "WriteFile p data mode w = (None, w3)"
    unfolding WriteFile_def f option.case w1(1) prod.case d c(1) Let_def by simp
  with c n2 show ?thesis by (auto simp: quiet_def)
qed

text \<open>on a file system where no call fails, where the path is no directory, what is on the way to it
  are directories, and the first temporary name is free, a write succeeds and reads back.\<close>

theorem write_succeeds:
  fixes p w
  defines "t \<equiv> write_target (nodes w) p"
  assumes "faults w = []" "is_dir (nodes w) []" "\<not> is_dir (nodes w) t"
    and "\<And>q. prefix q (butlast t) \<Longrightarrow> nodes w q = None \<or> is_dir (nodes w) q"
    and "nodes w (first_temp t w) = None" "CHR ''/'' \<notin> set (base_name t)"
  shows "\<exists>w'. Write p data mode w = (None, w') \<and> ReadFile p w' = Inr data"
  using assms write_quiet [of w p data mode] by blast

text \<open>A concrete disk: only the root.\<close>

definition empty_disk :: os where
  "empty_disk = \<lparr>nodes = [[] \<mapsto> Dir mode_0700], faults = [], trace = [], random = (\<lambda>n. n), drawn = 0,
     getenv = (\<lambda>_. []), GOOS = ''linux'', zone = (\<lambda>_. 0), clock = 0, cwd = []\<rparr>"

lemma empty_disk_target: "p \<noteq> [] \<Longrightarrow> write_target (nodes empty_disk) p = p"
  by (simp add: write_target_def eval_symlinks_def empty_disk_def)

theorem write_succeeds_witness:
  "\<exists>w'. Write [''t'', ''k.json''] ''data'' mode_0600 empty_disk = (None, w') \<and>
    ReadFile [''t'', ''k.json''] w' = Inr ''data''"
  by (rule write_succeeds)
    (auto simp: empty_disk_target first_temp_def base_name_def, auto simp: empty_disk_def is_dir_def)

end
