(* ===== verification/JsonCodec.thy ===== *)
theory JsonCodec
  imports JsonValue
begin

text \<open>
  Encoding a value with \<open>encoding/json\<close> (\<open>Marshal\<close> and \<open>MarshalIndent\<close> over the program's
  own data) and the round trip: what the encoder writes is valid for the scanner, and parsing
  it gives the value back, with every byte that starts no rune replaced by U+FFFD.
\<close>

section \<open>Valid UTF-8\<close>

text \<open>\<open>utf8.Valid\<close>.\<close>

function valid_utf8 :: "bytes \<Rightarrow> bool" where
  "valid_utf8 s =
     (if s = [] then True else if rune_width s = 0 then False
      else valid_utf8 (drop (rune_width s) s))"
  by pat_completeness auto
termination by (relation "measure length") auto

declare valid_utf8.simps [simp del]

lemma valid_utf8_Nil [simp]: "valid_utf8 []"
  by (simp add: valid_utf8.simps)

lemma valid_utf8_rune:
  "rune_width s \<noteq> 0 \<Longrightarrow> valid_utf8 s \<longleftrightarrow> valid_utf8 (drop (rune_width s) s)"
  using valid_utf8.simps [of s] by (cases "s = []") auto

lemma rune_width_ascii: "byte c < (0x80 :: nat) \<Longrightarrow> rune_width (c # s) = 1"
  by (simp add: Let_def)

text \<open>A rune is recognised by its own bytes, whatever follows.\<close>

lemma rune_width_append: "rune_width s \<noteq> 0 \<Longrightarrow> rune_width (s @ t) = rune_width s"
proof (cases s)
  case (Cons c cs)
  assume "rune_width s \<noteq> 0"
  with Cons show ?thesis
    by (simp add: Let_def del: second_ok.simps split: if_splits list.splits)
qed simp

lemma rune_width_take_only: "rune_width s \<noteq> 0 \<Longrightarrow> rune_width (take (rune_width s) s) = rune_width s"
proof (cases s)
  case (Cons c cs)
  assume "rune_width s \<noteq> 0"
  with Cons show ?thesis
    by (simp add: Let_def numeral_eq_Suc del: second_ok.simps split: if_splits list.splits)
qed simp

lemma rune_width_take: "rune_width s \<noteq> 0 \<Longrightarrow> rune_width (take (rune_width s) s @ t) = rune_width s"
  using rune_width_take_only [of s] rune_width_append [of "take (rune_width s) s" t] by simp

definition rune :: "bytes \<Rightarrow> bool" where
  "rune r \<longleftrightarrow> r \<noteq> [] \<and> rune_width r = length r"

lemma rune_take: "rune_width s \<noteq> 0 \<Longrightarrow> rune (take (rune_width s) s)"
  using rune_width_take [of s "[]"] rune_width_le [of s]
  by (auto simp: rune_def)

lemma rune_append: "rune r \<Longrightarrow> rune_width (r @ t) = length r"
  using rune_width_append [of r t] by (simp add: rune_def)

lemma valid_utf8_append_rune: "rune r \<Longrightarrow> valid_utf8 (r @ t) \<longleftrightarrow> valid_utf8 t"
  using rune_append [of r t] valid_utf8_rune [of "r @ t"] by (auto simp: rune_def)

lemma subst_invalid_append_rune: "rune r \<Longrightarrow> subst_invalid x (r @ t) = r @ subst_invalid x t"
  using rune_append [of r t] subst_invalid_rune [of "r @ t" x] by (auto simp: rune_def)

lemma subst_invalid_valid: "valid_utf8 s \<Longrightarrow> subst_invalid x s = s"
proof (induction s rule: valid_utf8.induct)
  case (1 s)
  show ?case
  proof (cases "s = []")
    case False
    with 1 have w: "rune_width s \<noteq> 0" "valid_utf8 (drop (rune_width s) s)"
      using valid_utf8.simps [of s] by (auto split: if_splits)
    with 1 False have "subst_invalid x (drop (rune_width s) s) = drop (rune_width s) s" by auto
    with w show ?thesis using subst_invalid_rune [of s x] by simp
  qed simp
qed

text \<open>The decoder's replacement leaves valid text.\<close>

lemma rune_error_rune: "rune rune_error"
  by (simp add: rune_def rune_error_def cont_byte_def)

definition repair :: "bytes \<Rightarrow> bytes" where
  "repair s = subst_invalid rune_error s"

lemma valid_repair: "valid_utf8 (repair s)"
proof (induction s rule: length_induct)
  case (1 s)
  consider "s = []" | "s \<noteq> []" "rune_width s = 0" | "s \<noteq> []" "rune_width s \<noteq> 0" by blast
  then show ?case
  proof cases
    case 1
    then show ?thesis by (simp add: repair_def)
  next
    case 2
    with 1 show ?thesis
      by (cases s) (auto simp: repair_def subst_invalid_junk valid_utf8_append_rune [OF rune_error_rune])
  next
    case 3
    with 1 show ?thesis
      using rune_take [of s] by (auto simp: repair_def subst_invalid_rune valid_utf8_append_rune)
  qed
qed

lemma repair_valid: "valid_utf8 s \<Longrightarrow> repair s = s"
  by (simp add: repair_def subst_invalid_valid)

lemma repair_repair [simp]: "repair (repair s) = repair s"
  by (simp add: repair_valid valid_repair)

lemma repair_ascii: "is_ascii s \<Longrightarrow> repair s = s"
  by (simp add: repair_def subst_invalid_ascii)

lemma repair_Nil [simp]: "repair [] = []"
  by (simp add: repair_def)

section \<open>Strings\<close>

lemma quote_body_Nil [simp]: "quote_body [] = []"
  by (simp add: quote_body.simps)

text \<open>The pieces a quoted string is made of, each with what the decoder makes of it.\<close>

inductive quoted :: "bytes \<Rightarrow> bytes \<Rightarrow> bool" where
  nil: "quoted [] []"
| plain: "byte c < (0x80 :: nat) \<Longrightarrow> 0x20 \<le> (byte c :: nat) \<Longrightarrow> c \<noteq> DQ \<Longrightarrow> c \<noteq> BSL \<Longrightarrow> quoted q s
    \<Longrightarrow> quoted (c # q) (c # s)"
| short: "c \<in> set [BSL, DQ, CHR ''b'', CHR ''f'', CHR ''n'', CHR ''r'', CHR ''t''] \<Longrightarrow> quoted q s
    \<Longrightarrow> quoted (BSL # c # q) (simple_escape c # s)"
| unicode: "list_all hex_digit [x1, x2, x3, x4]
    \<Longrightarrow> u = ((hex_val x1 * 16 + hex_val x2) * 16 + hex_val x3) * 16 + hex_val x4
    \<Longrightarrow> u < 0xD800 \<or> 0xE000 \<le> u \<Longrightarrow> quoted q s
    \<Longrightarrow> quoted (BSL # CHR ''u'' # x1 # x2 # x3 # x4 # q) (encode_rune u @ s)"
| multi: "rune r \<Longrightarrow> \<forall>c \<in> set r. 0x80 \<le> (byte c :: nat) \<Longrightarrow> quoted q s \<Longrightarrow> quoted (r @ q) (r @ s)"

lemma rune_bytes_high:
  assumes "rune r" "0x80 \<le> (byte (hd r) :: nat)"
  shows "\<forall>c \<in> set r. 0x80 \<le> (byte c :: nat)"
proof (cases r)
  case (Cons c cs)
  with assms show ?thesis
    by (auto simp: rune_def Let_def cont_byte_def split: if_splits list.splits)
qed simp

lemma hex_char_digit: "n < 16 \<Longrightarrow> hex_digit (hex_char n) \<and> hex_val (hex_char n) = n"
  by (auto simp: hex_char_def hex_digit_def hex_val_def is_digit_def)

lemma encode_runes:
  "encode_rune 0x2028 = [CHR 0xE2, CHR 0x80, CHR 0xA8]"
  "encode_rune 0x2029 = [CHR 0xE2, CHR 0x80, CHR 0xA9]"
  "encode_rune 0xFFFD = rune_error"
  by (simp_all add: encode_rune_def rune_error_def char_of_eq_iff)

lemma quoted_u_escape:
  assumes "byte c < (0x80 :: nat)" "quoted q s"
  shows "quoted (u_escape (byte c) @ q) (c # s)"
proof -
  let ?b = "byte c :: nat"
  have h: "hex_digit (hex_char (?b div 16))" "hex_val (hex_char (?b div 16)) = ?b div 16"
    "hex_digit (hex_char (?b mod 16))" "hex_val (hex_char (?b mod 16)) = ?b mod 16"
    using assms(1) by (simp_all add: hex_char_digit)
  have z: "hex_digit (CHR ''0'')" "hex_val (CHR ''0'') = 0" by code_simp+
  have "quoted (BSL # CHR ''u'' # CHR ''0'' # CHR ''0'' # hex_char (?b div 16) # hex_char (?b mod 16) # q)
      (encode_rune ?b @ s)"
    using h z assms by (intro quoted.unicode) simp_all
  moreover have "encode_rune ?b = [c]" using assms(1) by (simp add: encode_rune_def)
  ultimately show ?thesis by (simp add: u_escape_def)
qed

lemma quoted_ascii:
  assumes "byte c < (0x80 :: nat)" "quoted q s"
  shows "quoted (quote_ascii c @ q) (c # s)"
proof -
  have short: "quoted (BSL # d # q) (c # s)"
    if "d \<in> set [BSL, DQ, CHR ''b'', CHR ''f'', CHR ''n'', CHR ''r'', CHR ''t'']" "simple_escape d = c" for d
    using quoted.short [OF that(1) assms(2)] that(2) by simp
  consider "c \<in> {BSL, DQ, CHR 0x08, CHR 0x0C, LF, CR, CHR 0x09}"
    | "c \<notin> {BSL, DQ, CHR 0x08, CHR 0x0C, LF, CR, CHR 0x09}" "byte c < (0x20 :: nat) \<or> html_char c"
    | "c \<notin> {BSL, DQ, CHR 0x08, CHR 0x0C, LF, CR, CHR 0x09}" "\<not> byte c < (0x20 :: nat)" "\<not> html_char c"
    by blast
  then show ?thesis
  proof cases
    case 1
    then show ?thesis
      using short [of c] short [of "CHR ''b''"] short [of "CHR ''f''"] short [of "CHR ''n''"]
        short [of "CHR ''r''"] short [of "CHR ''t''"]
      by (elim insertE emptyE; hypsubst) (simp_all add: quote_ascii_def simple_escape_def)
  next
    case 2
    then have "quote_ascii c = u_escape (byte c)" by (simp add: quote_ascii_def)
    with quoted_u_escape [OF assms] show ?thesis by simp
  next
    case 3
    then have "quote_ascii c = [c]" by (simp add: quote_ascii_def)
    with 3 assms show ?thesis by (simp add: quoted.plain)
  qed
qed

lemma line_sep_split:
  "line_sep s \<Longrightarrow> \<exists>x t. s = [CHR 0xE2, CHR 0x80, x] @ t \<and> (x = CHR 0xA8 \<or> x = CHR 0xA9)"
  by (auto simp: line_sep_def prefix_def)

lemma quoted_line_sep:
  assumes "x = CHR 0xA8 \<or> x = CHR 0xA9" "quoted q s"
  shows "quoted (BSL # ''u202'' @ [hex_char (byte x mod 16)] @ q) ([CHR 0xE2, CHR 0x80, x] @ s)"
proof -
  define u :: nat where "u = (if x = CHR 0xA8 then 0x2028 else 0x2029)"
  have h: "list_all hex_digit [CHR ''2'', CHR ''0'', CHR ''2'', hex_char (byte x mod 16)]"
    "u = ((hex_val (CHR ''2'') * 16 + hex_val (CHR ''0'')) * 16 + hex_val (CHR ''2'')) * 16
       + hex_val (hex_char (byte x mod 16))"
    using assms(1) by (auto simp: u_def hex_char_def hex_digit_def hex_val_def is_digit_def)
  have "encode_rune u = [CHR 0xE2, CHR 0x80, x]"
    using assms(1) encode_runes(1,2) by (auto simp: u_def)
  with quoted.unicode [OF h _ assms(2)] show ?thesis by (simp add: u_def)
qed

lemma quoted_error: "quoted q s \<Longrightarrow> quoted (BSL # ''ufffd'' @ q) (rune_error @ s)"
proof -
  assume q: "quoted q s"
  have h: "list_all hex_digit ''fffd''"
    "0xFFFD = ((hex_val (CHR ''f'') * 16 + hex_val (CHR ''f'')) * 16 + hex_val (CHR ''f'')) * 16 + hex_val (CHR ''d'')"
    by (simp_all add: hex_digit_def hex_val_def is_digit_def)
  show ?thesis using quoted.unicode [OF h _ q] encode_runes(3) by simp
qed

lemma quoted_body: "quoted (quote_body s) (repair s)"
proof (induction s rule: length_induct)
  case (1 s)
  then have IH: "length t < length s \<Longrightarrow> quoted (quote_body t) (repair t)" for t by blast
  consider "s = []" | "s \<noteq> []" "byte (hd s) < (0x80 :: nat)"
    | "s \<noteq> []" "\<not> byte (hd s) < (0x80 :: nat)" "rune_width s = 0"
    | "s \<noteq> []" "\<not> byte (hd s) < (0x80 :: nat)" "rune_width s \<noteq> 0" "line_sep s"
    | "s \<noteq> []" "\<not> byte (hd s) < (0x80 :: nat)" "rune_width s \<noteq> 0" "\<not> line_sep s" by blast
  then show ?case
  proof cases
    case 1
    then show ?thesis by (simp add: quoted.nil)
  next
    case 2
    then obtain c cs where s: "s = c # cs" by (cases s) auto
    with 2 have "repair s = c # repair cs"
      using subst_invalid_rune [of s rune_error] rune_width_ascii [of c cs] by (simp add: repair_def)
    moreover have "quote_body s = quote_ascii c @ quote_body cs" using 2 s by (subst quote_body.simps) simp
    ultimately show ?thesis using 2 s quoted_ascii [OF _ IH [of cs], of c] by simp
  next
    case 3
    then obtain c cs where s: "s = c # cs" by (cases s) auto
    with 3 have "repair s = rune_error @ repair cs" by (simp add: repair_def subst_invalid_junk)
    moreover have "quote_body s = BSL # ''ufffd'' @ quote_body cs" using 3 s by (subst quote_body.simps) simp
    ultimately show ?thesis using quoted_error [OF IH [of cs]] s by simp
  next
    case 4
    obtain x t where s: "s = [CHR 0xE2, CHR 0x80, x] @ t" "x = CHR 0xA8 \<or> x = CHR 0xA9"
      using line_sep_split [OF 4(4)] by blast
    then have "rune [CHR 0xE2, CHR 0x80, x]" by (auto simp: rune_def cont_byte_def)
    with s have "repair s = [CHR 0xE2, CHR 0x80, x] @ repair t"
      using subst_invalid_append_rune [of "[CHR 0xE2, CHR 0x80, x]" rune_error t] by (simp add: repair_def)
    moreover have "quote_body s = BSL # ''u202'' @ [hex_char (byte x mod 16)] @ quote_body t"
      using 4 s by (subst quote_body.simps) simp
    ultimately show ?thesis using quoted_line_sep [OF s(2) IH [of t]] s by simp
  next
    case 5
    let ?r = "take (rune_width s) s" and ?t = "drop (rune_width s) s"
    have r: "rune ?r" by (rule rune_take [OF 5(3)])
    moreover have "hd ?r = hd s" using 5 by (cases s) auto
    ultimately have "\<forall>c \<in> set ?r. 0x80 \<le> (byte c :: nat)" using 5 by (intro rune_bytes_high) simp_all
    moreover have "repair s = ?r @ repair ?t" using 5 by (simp add: repair_def subst_invalid_rune)
    moreover have "quote_body s = ?r @ quote_body ?t" using 5 by (subst quote_body.simps) simp
    ultimately show ?thesis using r IH [of ?t] 5 by (auto intro: quoted.multi)
  qed
qed

lemma getu4_other: "c \<noteq> CHR ''u'' \<Longrightarrow> getu4 (b # c # q) = None"
  by (cases "b # c # q" rule: getu4.cases) auto

lemma unquote_Nil [simp]: "unquote [] = []"
  by (simp add: unquote.simps)

lemma unquote_rune:
  "s = c # cs \<Longrightarrow> c \<noteq> BSL \<Longrightarrow> rune_width s \<noteq> 0 \<Longrightarrow>
     unquote s = take (rune_width s) s @ unquote (drop (rune_width s) s)"
  by (subst unquote.simps) (simp del: rune_width.simps)

lemma unquote_quoted: "quoted q s \<Longrightarrow> unquote q = s"
proof (induction rule: quoted.induct)
  case (plain c q s)
  then show ?case using rune_width_ascii [of c q] by (simp add: unquote.simps [of "c # q"])
next
  case (short c q s)
  then have "getu4 (BSL # c # q) = None" by (intro getu4_other) auto
  moreover have "escape_char c" using short(1) by (auto simp: escape_char_def)
  ultimately show ?case using short(3) by (simp add: unquote.simps [of "BSL # c # q"])
next
  case (unicode x1 x2 x3 x4 u q s)
  let ?t = "BSL # CHR ''u'' # x1 # x2 # x3 # x4 # q"
  have "getu4 ?t = Some u" using unicode(1,2) by simp
  moreover have "unquote q = s" by fact
  moreover have "\<not> (0xD800 \<le> u \<and> u < 0xDC00)" using unicode(3) by linarith
  ultimately show ?case
    by (subst unquote.simps) (simp del: getu4.simps split: option.split, linarith)
next
  case (multi r q s)
  then obtain c cs where r: "r = c # cs" by (cases r) (auto simp: rune_def)
  with multi have "c \<noteq> BSL" by auto
  with multi r rune_append [OF multi(1), of q] show ?case
    using unquote_rune [of "r @ q" c "cs @ q"] by (simp del: rune_width.simps)
qed simp

lemma string_body_high: "\<forall>c \<in> set r. 0x80 \<le> (byte c :: nat) \<Longrightarrow>
    string_body (r @ t) = map_option (\<lambda>(a, u). (r @ a, u)) (string_body t)"
proof (induction r)
  case (Cons c r)
  then have "c \<noteq> DQ" "c \<noteq> BSL" by auto
  with Cons show ?case by (simp add: option.map_comp comp_def case_prod_beta)
qed (simp add: case_prod_beta option.map_id)

lemma string_body_quoted: "quoted q s \<Longrightarrow> string_body (q @ DQ # r) = Some (q, r)"
proof (induction rule: quoted.induct)
  case (unicode x1 x2 x3 x4 u q s)
  have h: "hex_digit x \<Longrightarrow> x \<noteq> DQ \<and> x \<noteq> BSL" for x
    by (auto simp: hex_digit_def is_digit_def)
  have "string_body (q @ DQ # r) = Some (q, r)" by fact
  with unicode(1) h [of x1] h [of x2] h [of x3] h [of x4] show ?case by simp
qed (simp_all add: string_body_high)

section \<open>Values\<close>

text \<open>The encoder over its output format: \<open>P\<close> is what it writes before an element at a given
  depth (nothing for \<open>Marshal\<close>, a line feed and the indentation for \<open>MarshalIndent\<close>),
  \<open>gap\<close> what follows a colon.  Empty composites are written without padding.\<close>

fun json_print :: "(nat \<Rightarrow> bytes) \<Rightarrow> bytes \<Rightarrow> nat \<Rightarrow> json \<Rightarrow> bytes"
  and print_elems :: "(nat \<Rightarrow> bytes) \<Rightarrow> bytes \<Rightarrow> nat \<Rightarrow> json list \<Rightarrow> bytes"
  and print_members :: "(nat \<Rightarrow> bytes) \<Rightarrow> bytes \<Rightarrow> nat \<Rightarrow> (bytes \<times> bytes \<times> json) list \<Rightarrow> bytes" where
  "json_print P gap d JNull = ''null''"
| "json_print P gap d (JBool b) = (if b then ''true'' else ''false'')"
| "json_print P gap d (JNum w) = w"
| "json_print P gap d (JStr s) = json_string s"
| "json_print P gap d (JArr vs) =
     (case vs of [] \<Rightarrow> ''[]''
      | v # ws \<Rightarrow> ''['' @ P (Suc d) @ json_print P gap (Suc d) v @ print_elems P gap (Suc d) ws @ P d @ '']'')"
| "json_print P gap d (JObj ms) =
     (case ms of [] \<Rightarrow> ''{}''
      | (k, raw, v) # ns \<Rightarrow> ''{'' @ P (Suc d) @ json_string k @ '':'' @ gap @ json_print P gap (Suc d) v @
          print_members P gap (Suc d) ns @ P d @ ''}'')"
| "print_elems P gap d [] = []"
| "print_elems P gap d (v # vs) = '','' @ P d @ json_print P gap d v @ print_elems P gap d vs"
| "print_members P gap d [] = []"
| "print_members P gap d ((k, raw, v) # ms) =
     '','' @ P d @ json_string k @ '':'' @ gap @ json_print P gap d v @ print_members P gap d ms"

text \<open>Number literals, by the number states of the scanner.\<close>

definition num_next :: "scan_step \<Rightarrow> char \<Rightarrow> scan_step option" where
  "num_next st c =
     (let digit = (\<lambda>n. if is_digit c then Some n else None);
          frac = (if c = CHR ''.'' then Some Dot else if c = CHR ''e'' \<or> c = CHR ''E'' then Some Exp else None)
      in case st of
        BeginValue \<Rightarrow> if c = CHR ''-'' then Some Neg else if c = CHR ''0'' then Some Num0 else digit Num1
      | Neg \<Rightarrow> if c = CHR ''0'' then Some Num0 else digit Num1
      | Num0 \<Rightarrow> frac
      | Num1 \<Rightarrow> if is_digit c then Some Num1 else frac
      | Dot \<Rightarrow> digit Dot0
      | Dot0 \<Rightarrow> if is_digit c then Some Dot0 else if c = CHR ''e'' \<or> c = CHR ''E'' then Some Exp else None
      | Exp \<Rightarrow> if c = CHR ''+'' \<or> c = CHR ''-'' then Some ExpSign else digit Exp0
      | ExpSign \<Rightarrow> digit Exp0
      | Exp0 \<Rightarrow> digit Exp0
      | _ \<Rightarrow> None)"

fun num_run :: "scan_step \<Rightarrow> bytes \<Rightarrow> bool" where
  "num_run st [] \<longleftrightarrow> st = Num0 \<or> st = Num1 \<or> st = Dot0 \<or> st = Exp0"
| "num_run st (c # cs) \<longleftrightarrow> (case num_next st c of None \<Rightarrow> False | Some st' \<Rightarrow> num_run st' cs)"

text \<open>A value whose numbers are literals and which nests at most \<open>k\<close> deep.\<close>

fun fits :: "nat \<Rightarrow> json \<Rightarrow> bool" and fits_elems :: "nat \<Rightarrow> json list \<Rightarrow> bool"
  and fits_members :: "nat \<Rightarrow> (bytes \<times> bytes \<times> json) list \<Rightarrow> bool" where
  "fits k (JNum w) \<longleftrightarrow> num_run BeginValue w"
| "fits k (JArr vs) \<longleftrightarrow> 0 < k \<and> fits_elems (k - 1) vs"
| "fits k (JObj ms) \<longleftrightarrow> 0 < k \<and> fits_members (k - 1) ms"
| "fits k JNull \<longleftrightarrow> True"
| "fits k (JBool b) \<longleftrightarrow> True"
| "fits k (JStr s) \<longleftrightarrow> True"
| "fits_elems k [] \<longleftrightarrow> True"
| "fits_elems k (v # vs) \<longleftrightarrow> fits k v \<and> fits_elems k vs"
| "fits_members k [] \<longleftrightarrow> True"
| "fits_members k ((key, raw, v) # ms) \<longleftrightarrow> fits k v \<and> fits_members k ms"

text \<open>What parsing the encoder's output gives: strings repaired, raw texts the ones written.\<close>

fun reread :: "(nat \<Rightarrow> bytes) \<Rightarrow> bytes \<Rightarrow> nat \<Rightarrow> json \<Rightarrow> json"
  and reread_elems :: "(nat \<Rightarrow> bytes) \<Rightarrow> bytes \<Rightarrow> nat \<Rightarrow> json list \<Rightarrow> json list"
  and reread_members :: "(nat \<Rightarrow> bytes) \<Rightarrow> bytes \<Rightarrow> nat \<Rightarrow> (bytes \<times> bytes \<times> json) list
    \<Rightarrow> (bytes \<times> bytes \<times> json) list" where
  "reread P gap d (JStr s) = JStr (repair s)"
| "reread P gap d (JArr vs) = JArr (reread_elems P gap (Suc d) vs)"
| "reread P gap d (JObj ms) = JObj (reread_members P gap (Suc d) ms)"
| "reread P gap d JNull = JNull"
| "reread P gap d (JBool b) = JBool b"
| "reread P gap d (JNum w) = JNum w"
| "reread_elems P gap d [] = []"
| "reread_elems P gap d (v # vs) = reread P gap d v # reread_elems P gap d vs"
| "reread_members P gap d [] = []"
| "reread_members P gap d ((k, raw, v) # ms) =
     (repair k, json_print P gap d v, reread P gap d v) # reread_members P gap d ms"

subsection \<open>The scanner accepts what is printed\<close>

fun scan_all :: "scanner \<Rightarrow> bytes \<Rightarrow> scanner option" where
  "scan_all s [] = Some s"
| "scan_all s (c # cs) = (case scan s c of (code, s') \<Rightarrow> if code = ScanError then None else scan_all s' cs)"

lemma scan_all_append: "scan_all s (a @ b) = (case scan_all s a of None \<Rightarrow> None | Some t \<Rightarrow> scan_all t b)"
  by (induction a arbitrary: s) (simp_all split: prod.split)

lemma check_valid_append:
  "scan_all s a = Some t \<Longrightarrow> check_valid s (a @ b) = check_valid t b"
  by (induction a arbitrary: s) (simp_all split: prod.splits if_splits)

lemma scan_all_high: "sc_step s = InString \<Longrightarrow> \<forall>c \<in> set r. 0x80 \<le> (byte c :: nat) \<Longrightarrow> scan_all s r = Some s"
proof (induction r)
  case (Cons c r)
  then have "c \<noteq> DQ" "c \<noteq> BSL" by auto
  with Cons show ?case by (simp add: scan_def)
qed simp

lemma same_step: "sc_step s = x \<Longrightarrow> s\<lparr>sc_step := x\<rparr> = s"
  by simp

lemma scan_escape:
  "sc_step s = InStringEsc \<Longrightarrow> c \<in> set [BSL, DQ, CHR ''b'', CHR ''f'', CHR ''n'', CHR ''r'', CHR ''t'']
     \<Longrightarrow> scan s c = (ScanContinue, s\<lparr>sc_step := InString\<rparr>)"
  by (simp add: scan_def) blast

lemma scan_hex: "hex_digit c \<Longrightarrow>
  (sc_step s = InStringEscU \<longrightarrow> scan s c = (ScanContinue, s\<lparr>sc_step := InStringEscU1\<rparr>)) \<and>
  (sc_step s = InStringEscU1 \<longrightarrow> scan s c = (ScanContinue, s\<lparr>sc_step := InStringEscU12\<rparr>)) \<and>
  (sc_step s = InStringEscU12 \<longrightarrow> scan s c = (ScanContinue, s\<lparr>sc_step := InStringEscU123\<rparr>)) \<and>
  (sc_step s = InStringEscU123 \<longrightarrow> scan s c = (ScanContinue, s\<lparr>sc_step := InString\<rparr>))"
  by (simp add: scan_def expect_def)

lemma scan_in_string:
  "sc_step s = InString \<Longrightarrow> scan s BSL = (ScanContinue, s\<lparr>sc_step := InStringEsc\<rparr>)"
  "sc_step s = InString \<Longrightarrow> scan s DQ = (ScanContinue, s\<lparr>sc_step := EndValue\<rparr>)"
  "sc_step s = InString \<Longrightarrow> c \<noteq> DQ \<Longrightarrow> c \<noteq> BSL \<Longrightarrow> 0x20 \<le> (byte c :: nat) \<Longrightarrow> scan s c = (ScanContinue, s)"
  "sc_step s = InStringEsc \<Longrightarrow> scan s (CHR ''u'') = (ScanContinue, s\<lparr>sc_step := InStringEscU\<rparr>)"
  by (simp_all add: scan_def)

lemma scan_all_quoted: "quoted q x \<Longrightarrow> sc_step s = InString \<Longrightarrow> scan_all s q = Some s"
proof (induction rule: quoted.induct)
  case (multi r q x)
  then show ?case by (simp add: scan_all_append scan_all_high)
next
  case (short c q x)
  then show ?case by (simp add: scan_in_string scan_escape same_step del: list.set)
next
  case (unicode x1 x2 x3 x4 u q x)
  then show ?case by (simp add: scan_in_string scan_hex same_step)
qed (simp_all add: scan_in_string)

definition begin_step :: "scan_step \<Rightarrow> bool" where
  "begin_step st \<longleftrightarrow> st = BeginValue \<or> st = BeginValueOrEmpty"

definition key_step :: "scan_step \<Rightarrow> bool" where
  "key_step st \<longleftrightarrow> st = BeginString \<or> st = BeginStringOrEmpty"

lemma scan_begin:
  "begin_step (sc_step s) \<or> key_step (sc_step s) \<Longrightarrow> scan s DQ = (ScanBeginLiteral, s\<lparr>sc_step := InString\<rparr>)"
  "begin_step (sc_step s) \<or> key_step (sc_step s) \<Longrightarrow> json_space c \<Longrightarrow> scan s c = (ScanSkipSpace, s)"
  by (elim disjE; simp add: begin_step_def key_step_def; elim disjE;
      simp add: scan_def begin_value_def begin_string_def; simp add: json_space_def)+

lemma scan_all_string:
  "begin_step (sc_step s) \<or> key_step (sc_step s) \<Longrightarrow>
     scan_all s (json_string x) = Some (s\<lparr>sc_step := EndValue\<rparr>)"
  using scan_all_quoted [OF quoted_body, of "s\<lparr>sc_step := InString\<rparr>" x]
  by (simp add: json_string_def scan_begin scan_all_append scan_in_string)

lemma scan_all_space:
  "begin_step (sc_step s) \<or> key_step (sc_step s) \<Longrightarrow> list_all json_space w \<Longrightarrow> scan_all s w = Some s"
  by (induction w) (simp_all add: scan_begin)

text \<open>A value has been read on top of \<open>s\<close>: what follows it is seen by \<open>end_value\<close>.\<close>

definition ended :: "scanner \<Rightarrow> scanner \<Rightarrow> bool" where
  "ended s t \<longleftrightarrow> \<not> sc_err t \<and> (\<forall>c. \<not> literal_char c \<longrightarrow> scan t c = end_value s c)"

lemma ended_step [simp]: "ended (s\<lparr>sc_step := st\<rparr>) t = ended s t"
  by (simp add: ended_def)

lemma ended_end_value:
  "\<not> sc_err s \<Longrightarrow> ended s (s\<lparr>sc_step := EndValue\<rparr>)"
  by (simp add: ended_def scan_def)

lemma pop_state_step [simp]: "pop_state (s\<lparr>sc_step := st\<rparr>) = pop_state s"
  by (simp add: pop_state_def Let_def)

lemma ended_pop:
  assumes "\<not> sc_err s" "parseState u = p # parseState s" "sc_err u = sc_err s" "endTop u = endTop s"
  shows "ended s (pop_state u)"
proof -
  have u: "u = s\<lparr>parseState := p # parseState s, sc_step := sc_step u\<rparr>" using assms by simp
  show ?thesis
  proof (cases "parseState s")
    case Nil
    then have "pop_state u = s\<lparr>sc_step := EndTop, endTop := True\<rparr>"
      by (subst u) (simp add: pop_state_def)
    with assms(1) Nil show ?thesis by (simp add: ended_def scan_def end_value_def)
  next
    case (Cons q ps)
    then have "pop_state u = s\<lparr>sc_step := EndValue\<rparr>"
      by (subst u) (simp add: pop_state_def)
    with ended_end_value [OF assms(1)] show ?thesis by simp
  qed
qed

lemma space_not_literal: "json_space c \<Longrightarrow> \<not> literal_char c"
  by (simp add: literal_char_def)

lemma end_value_space:
  "parseState s \<noteq> [] \<Longrightarrow> json_space c \<Longrightarrow> end_value s c = (ScanSkipSpace, s\<lparr>sc_step := EndValue\<rparr>)"
  by (cases "parseState s") (simp_all add: end_value_def)

lemma scan_end_value_spaces:
  "parseState s \<noteq> [] \<Longrightarrow> list_all json_space w \<Longrightarrow> sc_step s = EndValue \<Longrightarrow> scan_all s w = Some s"
  by (induction w) (simp_all add: scan_def end_value_space same_step)

lemma scan_all_ended:
  assumes "ended s t" "parseState s \<noteq> []" "list_all json_space w" "\<not> literal_char c"
  shows "scan_all t (w @ c # r) =
    (case end_value s c of (code, s') \<Rightarrow> if code = ScanError then None else scan_all s' r)"
proof (cases w)
  case Nil
  then show ?thesis using assms by (simp add: ended_def)
next
  case (Cons x w')
  then have x: "json_space x" "list_all json_space w'" using assms by auto
  have "scan t x = (ScanSkipSpace, s\<lparr>sc_step := EndValue\<rparr>)"
    using assms x by (simp add: ended_def space_not_literal end_value_space)
  then show ?thesis
    using Cons x assms(2) scan_end_value_spaces [of "s\<lparr>sc_step := EndValue\<rparr>" w']
    by (simp add: scan_all_append scan_def)
qed

lemma digit_not:
  "is_digit c \<Longrightarrow> \<not> json_space c \<and> c \<noteq> CHR ''{'' \<and> c \<noteq> CHR ''['' \<and> c \<noteq> DQ \<and> c \<noteq> CHR ''t'' \<and> c \<noteq> CHR ''f'' \<and>
     c \<noteq> CHR ''n'' \<and> c \<noteq> CHR ''-'' \<and> c \<noteq> CHR '','' \<and> c \<noteq> CHR ''}'' \<and> c \<noteq> CHR '']''"
  by (auto simp: is_digit_def json_space_def)

lemma scan_num_next:
  "num_next (sc_step s) c = Some st \<Longrightarrow> scan s c = (code, s') \<Longrightarrow>
     code \<noteq> ScanError \<and> s' = s\<lparr>sc_step := st\<rparr>"
proof (cases "sc_step s = BeginValue")
  case True
  have "\<not> json_space (CHR ''-'')" "\<not> json_space (CHR ''0'')" by (simp_all add: json_space_def)
  with True digit_not [of c] show "num_next (sc_step s) c = Some st \<Longrightarrow> scan s c = (code, s') \<Longrightarrow> ?thesis"
    by (simp add: num_next_def scan_def begin_value_def Let_def split: if_splits)
next
  case False
  then show "num_next (sc_step s) c = Some st \<Longrightarrow> scan s c = (code, s') \<Longrightarrow> ?thesis"
    by (cases "sc_step s") (simp_all add: num_next_def scan_def num0_def exp_sign_def Let_def
      same_step split: if_splits)
qed

lemma literal_chars:
  "is_digit c \<Longrightarrow> literal_char c" "literal_char (CHR ''.'')" "literal_char (CHR ''e'')" "literal_char (CHR ''E'')"
  "literal_char (CHR ''+'')" "literal_char (CHR ''-'')"
  using digit_not [of c] by (simp_all add: literal_char_def json_space_def)

lemma not_literal: "\<not> literal_char c \<Longrightarrow>
  \<not> is_digit c \<and> c \<noteq> CHR ''.'' \<and> c \<noteq> CHR ''e'' \<and> c \<noteq> CHR ''E'' \<and> c \<noteq> CHR ''+'' \<and> c \<noteq> CHR ''-''"
  using literal_chars by metis

lemma num_final_ended:
  assumes "\<not> sc_err t" "sc_step t = Num0 \<or> sc_step t = Num1 \<or> sc_step t = Dot0 \<or> sc_step t = Exp0"
  shows "ended t t"
proof -
  have "scan t c = end_value t c" if "\<not> literal_char c" for c
    using assms(2) not_literal [OF that] by (elim disjE) (simp_all add: scan_def num0_def)
  with assms(1) show ?thesis by (simp add: ended_def)
qed

lemma scan_all_num:
  "num_run (sc_step s) w \<Longrightarrow> \<not> sc_err s \<Longrightarrow> \<exists>t. scan_all s w = Some t \<and> ended s t"
proof (induction w arbitrary: s)
  case Nil
  then show ?case by (simp add: num_final_ended)
next
  case (Cons c w)
  then obtain st where st: "num_next (sc_step s) c = Some st" "num_run st w" by (auto split: option.splits)
  obtain code s' where sc: "scan s c = (code, s')" by (rule prod.exhaust)
  from scan_num_next [OF st(1) sc] have s': "code \<noteq> ScanError" "s' = s\<lparr>sc_step := st\<rparr>" by auto
  from Cons.IH [of s'] s' st Cons.prems sc show ?case by auto
qed

text \<open>The padding of both output formats is white space.\<close>

definition spaces :: "(nat \<Rightarrow> bytes) \<Rightarrow> bytes \<Rightarrow> bool" where
  "spaces P gap \<longleftrightarrow> (\<forall>d. list_all json_space (P d)) \<and> list_all json_space gap"

definition reads :: "scanner \<Rightarrow> bytes \<Rightarrow> scanner \<Rightarrow> bool" where
  "reads s cs t \<longleftrightarrow> scan_all s cs = Some t"

lemma reads_append: "reads s a t \<Longrightarrow> reads t b u \<Longrightarrow> reads s (a @ b) u"
  by (simp add: reads_def scan_all_append)

lemma reads_Cons: "scan s c = (code, t) \<Longrightarrow> code \<noteq> ScanError \<Longrightarrow> reads t cs u \<Longrightarrow> reads s (c # cs) u"
  by (simp add: reads_def)

lemma reads_space: "begin_step (sc_step s) \<or> key_step (sc_step s) \<Longrightarrow> list_all json_space w \<Longrightarrow> reads s w s"
  by (simp add: reads_def scan_all_space)

lemma reads_string:
  "begin_step (sc_step s) \<or> key_step (sc_step s) \<Longrightarrow> reads s (json_string x) (s\<lparr>sc_step := EndValue\<rparr>)"
  by (simp add: reads_def scan_all_string)

lemma reads_ended:
  assumes "ended s t" "parseState s \<noteq> []" "list_all json_space w" "\<not> literal_char c"
    "end_value s c = (code, u)" "code \<noteq> ScanError"
  shows "reads t (w @ [c]) u"
  using scan_all_ended [OF assms(1-4), of "[]"] assms(5,6) by (simp add: reads_def)

lemma literal_word:
  assumes "begin_step (sc_step s)" "\<not> sc_err s" "w = ''null'' \<or> w = ''true'' \<or> w = ''false''"
  shows "reads s w (s\<lparr>sc_step := EndValue\<rparr>)"
  using assms by (elim disjE; simp add: begin_step_def; elim disjE;
      simp add: reads_def scan_def begin_value_def json_space_def expect_def)

lemma end_value_codes:
  "parseState s = ParseArrayValue # ps \<Longrightarrow> end_value s (CHR '','') = (ScanArrayValue, s\<lparr>sc_step := BeginValue\<rparr>)"
  "parseState s = ParseArrayValue # ps \<Longrightarrow> end_value s (CHR '']'') = (ScanEndArray, pop_state s)"
  "parseState s = ParseObjectValue # ps \<Longrightarrow>
     end_value s (CHR '','') = (ScanObjectValue, s\<lparr>parseState := ParseObjectKey # ps, sc_step := BeginString\<rparr>)"
  "parseState s = ParseObjectValue # ps \<Longrightarrow> end_value s (CHR ''}'') = (ScanEndObject, pop_state s)"
  "parseState s = ParseObjectKey # ps \<Longrightarrow>
     end_value s (CHR '':'') = (ScanObjectKey, s\<lparr>parseState := ParseObjectValue # ps, sc_step := BeginValue\<rparr>)"
  by (simp_all add: end_value_def json_space_def)

lemma delims_not_literal:
  "\<not> literal_char (CHR '','')" "\<not> literal_char (CHR '']'')" "\<not> literal_char (CHR ''}'')"
  by (simp_all add: literal_char_def)

text \<open>Opening a composite, and closing an empty one.\<close>

lemma scan_open:
  assumes "begin_step (sc_step s)" "Suc (length (parseState s)) \<le> max_nesting_depth"
  shows "scan s (CHR ''['') = (ScanBeginArray, s\<lparr>parseState := ParseArrayValue # parseState s, sc_step := BeginValueOrEmpty\<rparr>)"
    "scan s (CHR ''{'') = (ScanBeginObject, s\<lparr>parseState := ParseObjectKey # parseState s, sc_step := BeginStringOrEmpty\<rparr>)"
  using assms by (auto simp: begin_step_def scan_def begin_value_def push_state_def json_space_def Let_def)

lemma scan_close_empty:
  assumes "\<not> sc_err s"
  shows "sc_step s = BeginValueOrEmpty \<Longrightarrow> parseState s = ParseArrayValue # ps \<Longrightarrow> scan s (CHR '']'') = (ScanEndArray, pop_state s)"
    "sc_step s = BeginStringOrEmpty \<Longrightarrow> parseState s = ParseObjectKey # ps \<Longrightarrow>
       scan s (CHR ''}'') = (ScanEndObject, pop_state (s\<lparr>parseState := ParseObjectValue # ps\<rparr>))"
  by (simp_all add: scan_def json_space_def end_value_codes)

text \<open>A key and the colon.\<close>

lemma reads_key:
  assumes "key_step (sc_step s)" "parseState s = ParseObjectKey # ps" "list_all json_space w" "list_all json_space g"
  shows "reads s (w @ json_string k @ '':'' @ g) (s\<lparr>parseState := ParseObjectValue # ps, sc_step := BeginValue\<rparr>)"
proof -
  let ?v = "s\<lparr>parseState := ParseObjectValue # ps, sc_step := BeginValue\<rparr>"
  have "scan (s\<lparr>sc_step := EndValue\<rparr>) (CHR '':'') = (ScanObjectKey, ?v)"
    using assms(2) by (simp add: scan_def end_value_codes)
  then have "reads (s\<lparr>sc_step := EndValue\<rparr>) '':'' ?v" by (simp add: reads_def)
  moreover have "reads ?v g ?v" using assms(4) by (intro reads_space) (simp_all add: begin_step_def)
  moreover have "reads s w s" using assms(1,3) by (intro reads_space) simp_all
  moreover have "reads s (json_string k) (s\<lparr>sc_step := EndValue\<rparr>)" using assms(1) by (intro reads_string) simp
  ultimately show ?thesis by (meson reads_append)
qed

text \<open>What the scanner does on a printed value, on the rest of an array and on the rest of an object, with
  \<open>k\<close> more levels of nesting allowed.\<close>

definition value_read :: "(nat \<Rightarrow> bytes) \<Rightarrow> bytes \<Rightarrow> nat \<Rightarrow> nat \<Rightarrow> json \<Rightarrow> bool" where
  "value_read P gap d k v \<longleftrightarrow>
     (\<forall>s. \<not> sc_err s \<longrightarrow> begin_step (sc_step s) \<longrightarrow> length (parseState s) + k \<le> max_nesting_depth \<longrightarrow>
        (\<exists>t. reads s (json_print P gap d v) t \<and> ended s t))"

definition elems_read :: "(nat \<Rightarrow> bytes) \<Rightarrow> bytes \<Rightarrow> nat \<Rightarrow> nat \<Rightarrow> json list \<Rightarrow> bool" where
  "elems_read P gap d k vs \<longleftrightarrow>
     (\<forall>s t ps. ended s t \<longrightarrow> \<not> sc_err s \<longrightarrow> parseState s = ParseArrayValue # ps \<longrightarrow>
        length (parseState s) + k \<le> max_nesting_depth \<longrightarrow> (\<exists>u. reads t (print_elems P gap d vs) u \<and> ended s u))"

definition members_read :: "(nat \<Rightarrow> bytes) \<Rightarrow> bytes \<Rightarrow> nat \<Rightarrow> nat \<Rightarrow> (bytes \<times> bytes \<times> json) list \<Rightarrow> bool" where
  "members_read P gap d k ms \<longleftrightarrow>
     (\<forall>s t ps. ended s t \<longrightarrow> \<not> sc_err s \<longrightarrow> parseState s = ParseObjectValue # ps \<longrightarrow>
        length (parseState s) + k \<le> max_nesting_depth \<longrightarrow> (\<exists>u. reads t (print_members P gap d ms) u \<and> ended s u))"

lemmas value_readD = value_read_def [THEN iffD1, rule_format]
lemmas elems_readD = elems_read_def [THEN iffD1, rule_format]
lemmas members_readD = members_read_def [THEN iffD1, rule_format]

lemma number_read:
  assumes "num_run BeginValue w"
  shows "value_read P gap d k (JNum w)"
  unfolding value_read_def
proof (intro allI impI)
  fix s :: scanner assume s: "\<not> sc_err s" "begin_step (sc_step s)"
  have "\<exists>t. scan_all (s\<lparr>sc_step := BeginValue\<rparr>) w = Some t \<and> ended (s\<lparr>sc_step := BeginValue\<rparr>) t"
    using assms s by (intro scan_all_num) auto
  then obtain t where t: "scan_all (s\<lparr>sc_step := BeginValue\<rparr>) w = Some t" "ended s t" by auto
  obtain c cs where w: "w = c # cs" using assms by (cases w) auto
  then obtain st where "num_next BeginValue c = Some st" using assms by (auto split: option.splits)
  then have c: "c = CHR ''-'' \<or> is_digit c"
    by (auto simp: num_next_def is_digit_def split: if_splits)
  have "scan (s\<lparr>sc_step := BeginValue\<rparr>) c = scan s c"
  proof (cases "sc_step s = BeginValue")
    case False
    then have "sc_step s = BeginValueOrEmpty" using s(2) by (simp add: begin_step_def)
    with c digit_not [of c] show ?thesis by (elim disjE) (simp_all add: scan_def begin_value_def json_space_def)
  qed (simp add: same_step)
  with w t have "scan_all s w = Some t" by simp
  with t show "\<exists>t. reads s (json_print P gap d (JNum w)) t \<and> ended s t" by (auto simp: reads_def)
qed

lemma array_read:
  assumes "spaces P gap" "0 < k" "vs = [] \<or> value_read P gap (Suc d) (k - 1) (hd vs) \<and> elems_read P gap (Suc d) (k - 1) (tl vs)"
  shows "value_read P gap d k (JArr vs)"
  unfolding value_read_def
proof (intro allI impI)
  fix s :: scanner assume s: "\<not> sc_err s" "begin_step (sc_step s)" and k: "length (parseState s) + k \<le> max_nesting_depth"
  let ?s = "s\<lparr>parseState := ParseArrayValue # parseState s, sc_step := BeginValueOrEmpty\<rparr>"
  have op: "scan s (CHR ''['') = (ScanBeginArray, ?s)" using s k assms(2) by (intro scan_open) simp_all
  have e: "ended s (pop_state ?s)" using s by (intro ended_pop) simp_all
  show "\<exists>t. reads s (json_print P gap d (JArr vs)) t \<and> ended s t"
  proof (cases vs)
    case Nil
    have "scan ?s (CHR '']'') = (ScanEndArray, pop_state ?s)" using s by (intro scan_close_empty) simp_all
    then have "reads s ''[]'' (pop_state ?s)" using op by (simp add: reads_def)
    with e Nil show ?thesis by auto
  next
    case (Cons v ws)
    have l: "length (parseState ?s) + (k - 1) \<le> max_nesting_depth" using assms(2) k by simp
    have p: "list_all json_space (P d)" for d using assms(1) by (simp add: spaces_def)
    obtain t where t: "reads ?s (json_print P gap (Suc d) v) t" "ended ?s t"
      using value_readD [of P gap "Suc d" "k - 1" v, OF _ _ _ l] assms(3) Cons s by (auto simp: begin_step_def)
    obtain u where u: "reads t (print_elems P gap (Suc d) ws) u" "ended ?s u"
      using elems_readD [of P gap "Suc d" "k - 1" ws, OF _ t(2) _ _ l] assms(3) Cons s by auto
    have "reads s [CHR ''[''] ?s" using op by (simp add: reads_def)
    moreover have "reads ?s (P (Suc d)) ?s" using p by (intro reads_space) (simp_all add: begin_step_def)
    moreover have "reads u (P d @ '']'') (pop_state ?s)"
      using u p by (intro reads_ended [where s = "?s" and code = ScanEndArray]) (simp_all add: delims_not_literal end_value_codes)
    ultimately have "reads s ([CHR ''[''] @ P (Suc d) @ json_print P gap (Suc d) v @ print_elems P gap (Suc d) ws @
        P d @ '']'') (pop_state ?s)"
      using t(1) u(1) by (meson reads_append)
    with e Cons show ?thesis by auto
  qed
qed

lemma empty_object_read: "0 < k \<Longrightarrow> value_read P gap d k (JObj [])"
  unfolding value_read_def
proof (intro allI impI)
  fix s :: scanner assume "0 < k" and s: "\<not> sc_err s" "begin_step (sc_step s)" and k: "length (parseState s) + k \<le> max_nesting_depth"
  let ?s = "s\<lparr>parseState := ParseObjectKey # parseState s, sc_step := BeginStringOrEmpty\<rparr>"
  let ?v = "?s\<lparr>parseState := ParseObjectValue # parseState s\<rparr>"
  have "scan s (CHR ''{'') = (ScanBeginObject, ?s)" using s k \<open>0 < k\<close> by (intro scan_open) simp_all
  moreover have "scan ?s (CHR ''}'') = (ScanEndObject, pop_state ?v)" using s by (intro scan_close_empty) simp_all
  ultimately have "reads s ''{}'' (pop_state ?v)" by (simp add: reads_def)
  moreover have "ended s (pop_state ?v)" using s by (intro ended_pop) simp_all
  ultimately show "\<exists>t. reads s (json_print P gap d (JObj [])) t \<and> ended s t" by auto
qed

lemma object_read:
  assumes "spaces P gap" "0 < k" "value_read P gap (Suc d) (k - 1) v" "members_read P gap (Suc d) (k - 1) ns"
  shows "value_read P gap d k (JObj ((key, raw, v) # ns))"
  unfolding value_read_def
proof (intro allI impI)
  fix s :: scanner assume s: "\<not> sc_err s" "begin_step (sc_step s)" and k: "length (parseState s) + k \<le> max_nesting_depth"
  let ?s = "s\<lparr>parseState := ParseObjectKey # parseState s, sc_step := BeginStringOrEmpty\<rparr>"
  let ?v = "?s\<lparr>parseState := ParseObjectValue # parseState s, sc_step := BeginValue\<rparr>"
  have op: "scan s (CHR ''{'') = (ScanBeginObject, ?s)" using s k assms(2) by (intro scan_open) simp_all
  have l: "length (parseState ?v) + (k - 1) \<le> max_nesting_depth" using assms(2) k by simp
  have p: "list_all json_space (P d)" "list_all json_space gap" for d using assms(1) by (simp_all add: spaces_def)
  obtain t where t: "reads ?v (json_print P gap (Suc d) v) t" "ended ?v t"
    using value_readD [OF assms(3) _ _ l] s by (auto simp: begin_step_def)
  obtain u where u: "reads t (print_members P gap (Suc d) ns) u" "ended ?v u"
    using members_readD [OF assms(4) t(2) _ _ l] s by auto
  have "reads s [CHR ''{''] ?s" using op by (simp add: reads_def)
  moreover have "reads ?s (P (Suc d) @ json_string key @ '':'' @ gap) ?v"
    using p by (intro reads_key) (simp_all add: key_step_def)
  moreover have "reads u (P d @ ''}'') (pop_state ?v)"
    using u p by (intro reads_ended [where s = "?v" and code = ScanEndObject]) (simp_all add: delims_not_literal end_value_codes)
  ultimately have "reads s ([CHR ''{''] @ (P (Suc d) @ json_string key @ '':'' @ gap) @
      json_print P gap (Suc d) v @ print_members P gap (Suc d) ns @ P d @ ''}'') (pop_state ?v)"
    using t(1) u(1) by (meson reads_append)
  moreover have "ended s (pop_state ?v)" using s by (intro ended_pop) simp_all
  ultimately show "\<exists>t. reads s (json_print P gap d (JObj ((key, raw, v) # ns))) t \<and> ended s t" by auto
qed

lemma elem_read:
  assumes "spaces P gap" "value_read P gap d k v" "elems_read P gap d k vs"
  shows "elems_read P gap d k (v # vs)"
  unfolding elems_read_def
proof (intro allI impI)
  fix s t :: scanner and ps
  assume s: "ended s t" "\<not> sc_err s" "parseState s = ParseArrayValue # ps" "length (parseState s) + k \<le> max_nesting_depth"
  let ?v = "s\<lparr>sc_step := BeginValue\<rparr>"
  have p: "list_all json_space (P d)" using assms(1) by (simp add: spaces_def)
  obtain t' where t': "reads ?v (json_print P gap d v) t'" "ended s t'"
    using value_readD [OF assms(2), of ?v] s by (auto simp: begin_step_def)
  obtain u where u: "reads t' (print_elems P gap d vs) u" "ended s u"
    using elems_readD [OF assms(3) t'(2) s(2-4)] by auto
  have "reads t ([] @ '','') ?v"
    using s by (intro reads_ended [where s = s and code = ScanArrayValue]) (simp_all add: delims_not_literal end_value_codes)
  moreover have "reads ?v (P d) ?v" using p by (intro reads_space) (simp_all add: begin_step_def)
  ultimately have "reads t (([] @ '','') @ P d @ json_print P gap d v @ print_elems P gap d vs) u"
    using t'(1) u(1) by (meson reads_append)
  with u(2) show "\<exists>u. reads t (print_elems P gap d (v # vs)) u \<and> ended s u" by auto
qed

lemma member_read:
  assumes "spaces P gap" "value_read P gap d k v" "members_read P gap d k ms"
  shows "members_read P gap d k ((key, raw, v) # ms)"
  unfolding members_read_def
proof (intro allI impI)
  fix s t :: scanner and ps
  assume s: "ended s t" "\<not> sc_err s" "parseState s = ParseObjectValue # ps" "length (parseState s) + k \<le> max_nesting_depth"
  let ?k = "s\<lparr>parseState := ParseObjectKey # ps, sc_step := BeginString\<rparr>"
  let ?v = "s\<lparr>sc_step := BeginValue\<rparr>"
  have p: "list_all json_space (P d)" "list_all json_space gap" using assms(1) by (simp_all add: spaces_def)
  obtain t' where t': "reads ?v (json_print P gap d v) t'" "ended s t'"
    using value_readD [OF assms(2), of ?v] s by (auto simp: begin_step_def)
  obtain u where u: "reads t' (print_members P gap d ms) u" "ended s u"
    using members_readD [OF assms(3) t'(2) s(2-4)] by auto
  have "reads t ([] @ '','') ?k"
    using s by (intro reads_ended [where s = s and code = ScanObjectValue]) (simp_all add: delims_not_literal end_value_codes)
  moreover have "reads ?k (P d @ json_string key @ '':'' @ gap) ?v"
  proof -
    have "s\<lparr>parseState := ParseObjectValue # ps\<rparr> = s" using s(3) by simp
    then have "s\<lparr>parseState := ParseObjectValue # ps, sc_step := BeginValue\<rparr> = ?v" by simp
    with reads_key [of ?k ps "P d" gap key] p show ?thesis by (simp add: key_step_def)
  qed
  ultimately have "reads t (([] @ '','') @ (P d @ json_string key @ '':'' @ gap) @
      json_print P gap d v @ print_members P gap d ms) u"
    using t'(1) u(1) by (meson reads_append)
  with u(2) show "\<exists>u. reads t (print_members P gap d ((key, raw, v) # ms)) u \<and> ended s u" by auto
qed

lemma reads_print:
  shows "\<And>k. spaces P gap \<Longrightarrow> fits k v \<Longrightarrow> value_read P gap d k v"
    and "\<And>k. spaces P gap \<Longrightarrow> fits_elems k vs \<Longrightarrow> elems_read P gap d k vs"
    and "\<And>k. spaces P gap \<Longrightarrow> fits_members k ms \<Longrightarrow> members_read P gap d k ms"
proof (induction P gap d v and P gap d vs and P gap d ms rule: json_print_print_elems_print_members.induct)
  case (1 P gap d)
  then show ?case using literal_word [of _ "''null''"] ended_end_value by (fastforce simp: value_read_def)
next
  case (2 P gap d b)
  then show ?case
    using literal_word [of _ "''true''"] literal_word [of _ "''false''"] ended_end_value by (fastforce simp: value_read_def)
next
  case (4 P gap d x)
  then show ?case using reads_string [of _ x] ended_end_value by (fastforce simp: value_read_def)
next
  case (5 P gap d vs)
  then show ?case by (cases vs) (auto intro!: array_read)
next
  case (6 P gap d ms)
  then show ?case by (cases ms) (auto intro!: object_read empty_object_read)
next
  case (7 P gap d)
  then show ?case by (auto simp: elems_read_def reads_def)
next
  case (9 P gap d)
  then show ?case by (auto simp: members_read_def reads_def)
qed (auto intro: number_read elem_read member_read)

lemma print_scanned:
  "spaces P gap \<Longrightarrow> fits max_nesting_depth v \<Longrightarrow>
     \<exists>t. scan_all scan_reset (json_print P gap d v) = Some t \<and> ended scan_reset t"
  using value_readD [OF reads_print(1), of P gap max_nesting_depth v scan_reset d]
  by (auto simp: scan_reset_def begin_step_def reads_def)

text \<open>The scanner accepts what the encoder prints.\<close>

lemma json_print_valid:
  assumes "spaces P gap" "fits max_nesting_depth v"
  shows "json_valid (json_print P gap d v)"
proof -
  obtain t where t: "scan_all scan_reset (json_print P gap d v) = Some t" "ended scan_reset t"
    using print_scanned [OF assms] by blast
  have "scan t (CHR '' '') = end_value scan_reset (CHR '' '')"
    using t(2) by (simp add: ended_def literal_char_def json_space_def)
  then have "scan_eof t"
    using t(2) by (simp add: scan_eof_def ended_def end_value_def end_top_def scan_reset_def json_space_def)
  with check_valid_append [OF t(1), of "[]"] show ?thesis by (simp add: json_valid_def)
qed

subsection \<open>The parser reads the value back\<close>

fun jcost :: "json \<Rightarrow> nat" and jcost_elems :: "json list \<Rightarrow> nat"
  and jcost_members :: "(bytes \<times> bytes \<times> json) list \<Rightarrow> nat" where
  "jcost (JArr vs) = Suc (jcost_elems vs)"
| "jcost (JObj ms) = Suc (jcost_members ms)"
| "jcost JNull = 1"
| "jcost (JBool b) = 1"
| "jcost (JNum w) = 1"
| "jcost (JStr s) = 1"
| "jcost_elems [] = 0"
| "jcost_elems (v # vs) = Suc (jcost v + jcost_elems vs)"
| "jcost_members [] = 0"
| "jcost_members ((k, raw, v) # ms) = Suc (jcost v + jcost_members ms)"

definition stop :: "bytes \<Rightarrow> bool" where
  "stop r \<longleftrightarrow> r = [] \<or> \<not> literal_char (hd r)"

lemma stop_pad: "list_all json_space w \<Longrightarrow> \<not> literal_char c \<Longrightarrow> stop (w @ c # r)"
  by (cases w) (simp_all add: stop_def space_not_literal)

lemma skip_space_append [simp]: "list_all json_space w \<Longrightarrow> skip_space (w @ s) = skip_space s"
  by (induction w) simp_all

lemma next_char_space [simp]: "list_all json_space w \<Longrightarrow> next_char (w @ s) = next_char s"
  by (simp add: next_char_def)

lemma next_char_Cons [simp]: "\<not> json_space c \<Longrightarrow> next_char (c # s) = Some (c, s)"
  by (simp add: next_char_def)

lemma parse_value_space: "list_all json_space w \<Longrightarrow> parse_value n (w @ s) = parse_value n s"
  by (cases n) simp_all

lemma parse_elems_space: "list_all json_space w \<Longrightarrow> parse_elems n (w @ s) = parse_elems n s"
  by (cases n) (simp_all add: parse_value_space)

lemma parse_members_space: "list_all json_space w \<Longrightarrow> parse_members n (w @ s) = parse_members n s"
  by (cases n) simp_all

lemma num_next_literal: "num_next st c = Some st' \<Longrightarrow> literal_char c"
  using literal_chars digit_not [of c]
  by (auto simp: num_next_def Let_def split: scan_step.splits if_splits) (simp_all add: is_digit_def)

lemma num_run_literal: "num_run st w \<Longrightarrow> list_all literal_char w"
  by (induction w arbitrary: st) (auto split: option.splits dest: num_next_literal)

lemma num_run_head: "num_run BeginValue (c # cs) \<Longrightarrow> c = CHR ''-'' \<or> is_digit c"
  by (auto simp: num_next_def is_digit_def split: option.splits if_splits)

lemma num_run_value: "num_run BeginValue w \<Longrightarrow> literal_value w = JNum w"
proof -
  assume r: "num_run BeginValue w"
  then obtain c cs where w: "w = c # cs" by (cases w) simp_all
  from num_run_head [OF r [unfolded w]] digit_not [of c]
  have "c \<noteq> CHR ''n''" "c \<noteq> CHR ''t''" "c \<noteq> CHR ''f''" by auto
  then show ?thesis by (simp add: w literal_value_def)
qed

lemma takeWhile_stop_literal: "list_all literal_char w \<Longrightarrow> stop r \<Longrightarrow>
  takeWhile literal_char (w @ r) = w \<and> dropWhile literal_char (w @ r) = r"
  by (induction w) (cases r; simp add: stop_def)+

text \<open>What a printed value starts with.\<close>

lemma print_head:
  "fits k v \<Longrightarrow> \<exists>c cs. json_print P gap d v = c # cs \<and> \<not> json_space c \<and> c \<noteq> CHR '']'' \<and> c \<noteq> CHR ''}''"
proof (cases v)
  case (JNum w)
  assume "fits k v"
  with JNum have r: "num_run BeginValue w" by simp
  then obtain c cs where w: "w = c # cs" by (cases w) simp_all
  have "\<not> json_space c \<and> c \<noteq> CHR '']'' \<and> c \<noteq> CHR ''}''"
  proof (cases "is_digit c")
    case False
    with num_run_head [OF r [unfolded w]] show ?thesis by (simp add: json_space_def)
  qed (use digit_not in simp)
  with JNum w show ?thesis by simp
qed (auto simp: json_space_def json_string_def split: list.split)

definition parses :: "(nat \<Rightarrow> bytes) \<Rightarrow> bytes \<Rightarrow> nat \<Rightarrow> json \<Rightarrow> bool" where
  "parses P gap d v \<longleftrightarrow> (\<forall>n r. jcost v \<le> n \<longrightarrow> stop r \<longrightarrow>
     parse_value n (json_print P gap d v @ r) = Some (reread P gap d v, r))"

lemma parses_D: "parses P gap d v \<Longrightarrow> jcost v \<le> n \<Longrightarrow> stop r \<Longrightarrow>
    parse_value n (json_print P gap d v @ r) = Some (reread P gap d v, r)"
  by (simp add: parses_def)

lemma string_parses:
  "string_body (quote_body k @ DQ # r) = Some (quote_body k, r)" "unquote (quote_body k) = repair k"
  by (simp_all add: string_body_quoted [OF quoted_body] unquote_quoted [OF quoted_body])

lemma parse_elem_step:
  assumes "parses P gap d v" "list_all json_space w" "\<not> literal_char c" "\<not> json_space c" "jcost v \<le> n"
  shows "parse_value n (json_print P gap d v @ w @ c # r) = Some (reread P gap d v, w @ c # r)"
    "next_char (w @ c # r) = Some (c, r)"
  using assms by (simp_all add: parses_D stop_pad)

lemma parse_literal:
  assumes "list_all literal_char w" "w = c # cs" "c \<noteq> DQ" "c \<noteq> CHR ''{''" "c \<noteq> CHR ''[''" "stop r" "1 \<le> n"
  shows "parse_value n (w @ r) = Some (literal_value w, r)"
proof -
  obtain m where n: "n = Suc m" using assms(7) by (cases n) auto
  have c: "literal_char c" "\<not> json_space c" "list_all literal_char cs"
    using assms(1,2) by (auto simp: literal_char_def)
  have "takeWhile literal_char (c # cs @ r) = w" "dropWhile literal_char (cs @ r) = r"
    using takeWhile_stop_literal [OF assms(1,6)] takeWhile_stop_literal [OF c(3) assms(6)] assms(2) by simp_all
  then show ?thesis using c assms(2-5) by (simp add: n del: takeWhile.simps dropWhile.simps)
qed

lemma parse_member_step:
  assumes "parses P gap d v" "fits k v" "list_all json_space gap" "list_all json_space w" "list_all json_space w'"
    "c = CHR ''}'' \<or> c = CHR '',''" "jcost v \<le> m"
  shows "parse_members (Suc m) (w @ json_string key @ '':'' @ gap @ json_print P gap d v @ w' @ c # r) =
    (if c = CHR ''}'' then Some ([(repair key, json_print P gap d v, reread P gap d v)], r)
     else map_option (\<lambda>(ms, r'). ((repair key, json_print P gap d v, reread P gap d v) # ms, r')) (parse_members m r))"
proof -
  obtain h cs where h: "json_print P gap d v = h # cs" "\<not> json_space h"
    using print_head [OF assms(2), of P gap d] by blast
  have c: "\<not> literal_char c" "\<not> json_space c" using assms(6) by (auto simp: literal_char_def json_space_def)
  note v = parse_elem_step [OF assms(1,5) c assms(7), of r]
  have "skip_space (gap @ json_print P gap d v @ w' @ c # r) = json_print P gap d v @ w' @ c # r"
    using assms(3) h by simp
  with v assms(4,6) show ?thesis
    by (elim disjE; simp add: json_string_def string_parses json_space_def map_option_case split: option.split)
qed

text \<open>What the parser does on the rest of an array and of an object after its first value.\<close>

definition elems_parse :: "(nat \<Rightarrow> bytes) \<Rightarrow> bytes \<Rightarrow> nat \<Rightarrow> json list \<Rightarrow> bool" where
  "elems_parse P gap d vs \<longleftrightarrow>
     (\<forall>v n w w' r. parses P gap d v \<longrightarrow> list_all json_space w \<longrightarrow> list_all json_space w' \<longrightarrow> jcost_elems (v # vs) \<le> n \<longrightarrow>
        parse_elems n (w @ json_print P gap d v @ print_elems P gap d vs @ w' @ CHR '']'' # r) =
          Some (reread P gap d v # reread_elems P gap d vs, r))"

definition members_parse :: "(nat \<Rightarrow> bytes) \<Rightarrow> bytes \<Rightarrow> nat \<Rightarrow> nat \<Rightarrow> (bytes \<times> bytes \<times> json) list \<Rightarrow> bool" where
  "members_parse P gap d k ms \<longleftrightarrow>
     (\<forall>key raw v n w w' r. parses P gap d v \<longrightarrow> fits k v \<longrightarrow> list_all json_space w \<longrightarrow> list_all json_space w' \<longrightarrow>
        jcost_members ((key, raw, v) # ms) \<le> n \<longrightarrow>
        parse_members n (w @ json_string key @ '':'' @ gap @ json_print P gap d v @
            print_members P gap d ms @ w' @ CHR ''}'' # r) =
          Some ((repair key, json_print P gap d v, reread P gap d v) # reread_members P gap d ms, r))"

lemmas elems_parseD = elems_parse_def [THEN iffD1, rule_format]
lemmas members_parseD = members_parse_def [THEN iffD1, rule_format]

lemma number_parses:
  assumes "num_run BeginValue w"
  shows "parses P gap d (JNum w)"
proof -
  obtain c cs where w: "w = c # cs" using assms by (cases w) simp_all
  have c: "c \<noteq> DQ" "c \<noteq> CHR ''{''" "c \<noteq> CHR ''[''"
    using num_run_head [OF assms [unfolded w]] digit_not [of c] by auto
  show ?thesis
    using parse_literal [OF num_run_literal [OF assms] w c] num_run_value [OF assms] by (simp add: parses_def)
qed

lemma array_parses:
  assumes "spaces P gap" "fits k v" "parses P gap (Suc d) v" "elems_parse P gap (Suc d) ws"
  shows "parses P gap d (JArr (v # ws))"
  unfolding parses_def
proof (intro allI impI)
  fix n r assume n: "jcost (JArr (v # ws)) \<le> n"
  then obtain m where m: "n = Suc m" by (cases n) auto
  have sp: "list_all json_space (P e)" for e using assms(1) by (simp add: spaces_def)
  obtain c cs where c: "json_print P gap (Suc d) v = c # cs" "\<not> json_space c" "c \<noteq> CHR '']''"
    using print_head [OF assms(2), of P gap "Suc d"] by blast
  have "parse_elems m ([] @ json_print P gap (Suc d) v @ print_elems P gap (Suc d) ws @ P d @ CHR '']'' # r) =
      Some (reread P gap (Suc d) v # reread_elems P gap (Suc d) ws, r)"
    using elems_parseD [OF assms(4,3), of "[]" "P d" m r] sp n m by simp
  then have "parse_elems m (c # cs @ print_elems P gap (Suc d) ws @ P d @ CHR '']'' # r) =
      Some (reread P gap (Suc d) v # reread_elems P gap (Suc d) ws, r)"
    using c by simp
  with c sp show "parse_value n (json_print P gap d (JArr (v # ws)) @ r) = Some (reread P gap d (JArr (v # ws)), r)"
    by (simp add: m json_space_def)
qed

lemma object_parses:
  assumes "spaces P gap" "fits k v" "parses P gap (Suc d) v" "members_parse P gap (Suc d) k ns"
  shows "parses P gap d (JObj ((key, raw, v) # ns))"
  unfolding parses_def
proof (intro allI impI)
  fix n r assume n: "jcost (JObj ((key, raw, v) # ns)) \<le> n"
  then obtain m where m: "n = Suc m" by (cases n) auto
  have sp: "list_all json_space (P e)" for e using assms(1) by (simp add: spaces_def)
  have "parse_members m ([] @ json_string key @ '':'' @ gap @ json_print P gap (Suc d) v @
        print_members P gap (Suc d) ns @ P d @ CHR ''}'' # r) =
      Some (reread_members P gap (Suc d) ((key, raw, v) # ns), r)"
    using members_parseD [OF assms(4,3,2), of "[]" "P d" key raw m r] sp n m by simp
  then show "parse_value n (json_print P gap d (JObj ((key, raw, v) # ns)) @ r) =
      Some (reread P gap d (JObj ((key, raw, v) # ns)), r)"
    using sp by (simp add: m json_space_def json_string_def)
qed

lemma last_elem_parse: "elems_parse P gap d []"
  unfolding elems_parse_def
proof (intro allI impI)
  fix v n w w' r
  assume a: "parses P gap d v" "list_all json_space w" "list_all json_space w'" "jcost_elems [v] \<le> n"
  then obtain m where n: "n = Suc m" by (cases n) auto
  have "parse_value m (json_print P gap d v @ w' @ CHR '']'' # r) = Some (reread P gap d v, w' @ CHR '']'' # r)"
    "next_char (w' @ CHR '']'' # r) = Some (CHR '']'', r)"
    using parse_elem_step [OF a(1,3), of "CHR '']''" m r] a(4) n by (simp_all add: delims_not_literal json_space_def)
  then show "parse_elems n (w @ json_print P gap d v @ print_elems P gap d [] @ w' @ CHR '']'' # r) =
      Some (reread P gap d v # reread_elems P gap d [], r)"
    using a(2) by (simp add: n parse_value_space)
qed

lemma elem_parse:
  assumes "spaces P gap" "parses P gap d x" "elems_parse P gap d vs"
  shows "elems_parse P gap d (x # vs)"
  unfolding elems_parse_def
proof (intro allI impI)
  fix v n w w' r
  assume a: "parses P gap d v" "list_all json_space w" "list_all json_space w'" "jcost_elems (v # x # vs) \<le> n"
  then obtain m where n: "n = Suc m" by (cases n) auto
  have sp: "list_all json_space (P d)" using assms(1) by (simp add: spaces_def)
  let ?r = "P d @ json_print P gap d x @ print_elems P gap d vs @ w' @ CHR '']'' # r"
  have "parse_elems m ?r = Some (reread P gap d x # reread_elems P gap d vs, r)"
    using elems_parseD [OF assms(3,2) sp a(3), of m r] a(4) n by simp
  moreover have "parse_value m (json_print P gap d v @ [] @ CHR '','' # ?r) = Some (reread P gap d v, [] @ CHR '','' # ?r)"
    "next_char ([] @ CHR '','' # ?r) = Some (CHR '','', ?r)"
    using parse_elem_step [OF a(1), of "[]" "CHR '',''" m ?r] a(4) n by (simp_all add: delims_not_literal json_space_def)
  ultimately show "parse_elems n (w @ json_print P gap d v @ print_elems P gap d (x # vs) @ w' @ CHR '']'' # r) =
      Some (reread P gap d v # reread_elems P gap d (x # vs), r)"
    using a(2) by (simp add: n parse_value_space)
qed

lemma last_member_parse: "spaces P gap \<Longrightarrow> members_parse P gap d k []"
  unfolding members_parse_def
proof (intro allI impI)
  fix key raw v n w w' r
  assume sp: "spaces P gap" and a: "parses P gap d v" "fits k v" "list_all json_space w" "list_all json_space w'"
    "jcost_members [(key, raw :: bytes, v)] \<le> n"
  obtain m where n: "n = Suc m" using a(5) by (cases n) auto
  have "list_all json_space gap" using sp by (simp add: spaces_def)
  from parse_member_step [OF a(1,2) this a(3,4), of "CHR ''}''" m key r] a(5) n
  show "parse_members n (w @ json_string key @ '':'' @ gap @ json_print P gap d v @ print_members P gap d [] @ w' @ CHR ''}'' # r) =
      Some ((repair key, json_print P gap d v, reread P gap d v) # reread_members P gap d [], r)" by simp
qed

lemma member_parse:
  assumes "spaces P gap" "parses P gap d x" "fits k x" "members_parse P gap d k ms"
  shows "members_parse P gap d k ((y, raw2, x) # ms)"
  unfolding members_parse_def
proof (intro allI impI)
  fix key raw v n w w' r
  assume a: "parses P gap d v" "fits k v" "list_all json_space w" "list_all json_space w'"
    "jcost_members ((key, raw :: bytes, v) # (y, raw2, x) # ms) \<le> n"
  obtain m where n: "n = Suc m" using a(5) by (cases n) auto
  have sp: "list_all json_space (P d)" "list_all json_space gap" using assms(1) by (simp_all add: spaces_def)
  let ?r = "P d @ json_string y @ '':'' @ gap @ json_print P gap d x @ print_members P gap d ms @ w' @ CHR ''}'' # r"
  have "parse_members m ?r = Some ((repair y, json_print P gap d x, reread P gap d x) # reread_members P gap d ms, r)"
    using members_parseD [OF assms(4,2,3) sp(1) a(4), of y raw2 m r] a(5) n by simp
  then show "parse_members n (w @ json_string key @ '':'' @ gap @ json_print P gap d v @
        print_members P gap d ((y, raw2, x) # ms) @ w' @ CHR ''}'' # r) =
      Some ((repair key, json_print P gap d v, reread P gap d v) # reread_members P gap d ((y, raw2, x) # ms), r)"
    using parse_member_step [OF a(1,2) sp(2) a(3), of "[]" "CHR '',''" m key ?r] a(5) n by simp
qed

lemma parse_print:
  shows "\<And>k. spaces P gap \<Longrightarrow> fits k v \<Longrightarrow> parses P gap d v"
    and "\<And>k. spaces P gap \<Longrightarrow> fits_elems k vs \<Longrightarrow> elems_parse P gap d vs"
    and "\<And>k. spaces P gap \<Longrightarrow> fits_members k ms \<Longrightarrow> members_parse P gap d k ms"
proof (induction P gap d v and P gap d vs and P gap d ms rule: json_print_print_elems_print_members.induct)
  case (1 P gap d)
  have "list_all literal_char ''null''" by (simp add: literal_char_def json_space_def)
  then show ?case by (simp add: parses_def parse_literal [of "''null''", simplified] literal_value_def)
next
  case (2 P gap d b)
  have "list_all literal_char ''true''" "list_all literal_char ''false''"
    by (simp_all add: literal_char_def json_space_def)
  then show ?case
    by (simp add: parses_def parse_literal [of "''true''", simplified] parse_literal [of "''false''", simplified]
        literal_value_def)
next
  case (4 P gap d x)
  have "parse_value n (json_string x @ r) = Some (JStr (repair x), r)" if "1 \<le> n" for n r
    using that by (cases n) (simp_all add: json_string_def string_parses json_space_def)
  then show ?case by (simp add: parses_def)
next
  case (5 P gap d vs)
  have "parse_value n (''[]'' @ r) = Some (JArr [], r)" if "1 \<le> n" for n r
    using that by (cases n) (simp_all add: json_space_def)
  then show ?case using 5 by (cases vs) (auto simp: parses_def [of _ _ _ "JArr []"] intro: array_parses)
next
  case (6 P gap d ms)
  have "parse_value n (''{}'' @ r) = Some (JObj [], r)" if "1 \<le> n" for n r
    using that by (cases n) (simp_all add: json_space_def)
  then have empty: "parses P gap d (JObj [])" by (simp add: parses_def)
  show ?case
  proof (cases ms)
    case (Cons e ns)
    obtain key raw v where e: "e = (key, raw, v)" by (rule prod_cases3)
    note ms = Cons [unfolded e]
    have f: "fits (k - 1) v" "fits_members (k - 1) ns" using 6(4) ms by auto
    show ?thesis unfolding ms
      by (rule object_parses [OF 6(3) f(1) 6(1) [OF ms refl refl 6(3) f(1)] 6(2) [OF ms refl refl 6(3) f(2)]])
  qed (use empty in simp)
qed (auto intro: number_parses last_elem_parse elem_parse last_member_parse member_parse)

text \<open>The round trip, in both output formats.\<close>

lemma json_parse_print:
  assumes "spaces P gap" "fits max_nesting_depth v"
  shows "json_parse (json_print P gap d v) = Some (reread P gap d v)"
proof -
  let ?s = "json_print P gap d v"
  have "parse_value (2 * length ?s + 2 + jcost v) (?s @ []) = Some (reread P gap d v, [])"
    by (rule parses_D [OF parse_print(1) [OF assms]]) (simp_all add: stop_def)
  then have "parse_value (2 * length ?s + 2) ?s = Some (reread P gap d v, [])"
    using parse_fuel_enough [of ?s "jcost v"] by simp
  with json_print_valid [OF assms, of d] show ?thesis by (simp add: json_parse_def)
qed

definition marshal :: "json \<Rightarrow> bytes" where
  "marshal v = json_print (\<lambda>_. []) [] 0 v"

definition marshal_indent :: "json \<Rightarrow> bytes" where
  "marshal_indent v = json_print (\<lambda>d. LF # replicate (2 * d) (CHR '' '')) '' '' 0 v"

lemma marshal_spaces: "spaces (\<lambda>_. []) []"
  by (simp add: spaces_def)

lemma marshal_indent_spaces: "spaces (\<lambda>d. LF # replicate (2 * d) (CHR '' '')) '' ''"
  by (simp add: spaces_def json_space_def list_all_iff)

lemma json_parse_marshal:
  "fits max_nesting_depth v \<Longrightarrow> json_parse (marshal v) = Some (reread (\<lambda>_. []) [] 0 v)"
  by (simp add: marshal_def json_parse_print marshal_spaces)

lemma json_parse_marshal_indent:
  "fits max_nesting_depth v \<Longrightarrow>
     json_parse (marshal_indent v) = Some (reread (\<lambda>d. LF # replicate (2 * d) (CHR '' '')) '' '' 0 v)"
  by (simp add: marshal_indent_def json_parse_print marshal_indent_spaces)

text \<open>Text that needs no escape is written as it is.\<close>

definition plain_char :: "char \<Rightarrow> bool" where
  "plain_char c \<longleftrightarrow> 0x20 \<le> (byte c :: nat) \<and> byte c < (0x80 :: nat) \<and> c \<noteq> DQ \<and> c \<noteq> BSL \<and> \<not> html_char c"

lemma plain_quote: "plain_char c \<Longrightarrow> quote_ascii c = [c]"
  by (auto simp: plain_char_def quote_ascii_def)

lemma plain_quote_body: "list_all plain_char s \<Longrightarrow> quote_body s = s"
proof (induction s)
  case (Cons c s)
  then have "byte c < (0x80 :: nat)" by (simp add: plain_char_def)
  with Cons show ?case by (subst quote_body.simps) (simp add: plain_quote)
qed simp

lemma plain_repair: "list_all plain_char s \<Longrightarrow> repair s = s"
  by (rule repair_ascii) (auto simp: is_ascii_def plain_char_def list_all_iff)

section \<open>Decoded text is valid UTF-8\<close>

lemma digits3: "r = 4096 * (r div 4096) + 64 * (r div 64 mod 64) + r mod (64 :: nat)"
proof -
  have "r div 4096 = r div 64 div 64" by (simp add: div_mult2_eq [symmetric])
  then have "r div 64 = 64 * (r div 4096) + r div 64 mod 64" by simp
  moreover have "r = 64 * (r div 64) + r mod 64" by simp
  ultimately show ?thesis by linarith
qed

lemma digits4: "r = 262144 * (r div 262144) + 4096 * (r div 4096 mod 64) + 64 * (r div 64 mod 64) + r mod (64 :: nat)"
proof -
  have "r div 262144 = r div 4096 div 64" by (simp add: div_mult2_eq [symmetric])
  then have "r div 4096 = 64 * (r div 262144) + r div 4096 mod 64" by simp
  with digits3 [of r] show ?thesis by linarith
qed

lemma encode_rune_rune: "rune (encode_rune r)"
proof -
  consider "r < 0x80" | "0x80 \<le> r" "r < 0x800" | "0x800 \<le> r" "r < 0x10000" "r < 0xD800 \<or> 0xE000 \<le> r"
    | "0x10000 \<le> r" "r \<le> 0x10FFFF" | "(0xD800 \<le> r \<and> r < 0xE000) \<or> 0x10FFFF < r"
    by linarith
  then show ?thesis
  proof cases
    case 1
    then show ?thesis by (simp add: encode_rune_def rune_def)
  next
    case 2
    then have "2 \<le> r div 64" "r div 64 < 32" by (simp_all add: less_mult_imp_div_less)
    with 2 show ?thesis by (simp add: encode_rune_def rune_def Let_def)
  next
    case 3
    define a b c where "a = r div 4096" "b = r div 64 mod 64" "c = r mod 64"
    have r: "r = 4096 * a + 64 * b + c" and s: "a < 16" "b < 64" "c < 64"
      using 3 by (simp_all add: a_b_c_def less_mult_imp_div_less) (metis (no_types) digits3)
    have "a = 0 \<Longrightarrow> 32 \<le> b" "a = 13 \<Longrightarrow> b < 32" using 3 r s by linarith+
    then have "second_ok (224 + a) (128 + b)" using s by (cases "a = 0"; cases "a = 13") auto
    moreover have "encode_rune r = [char_of (224 + a), char_of (128 + b), char_of (128 + c)]"
      using 3 by (auto simp: encode_rune_def a_b_c_def)
    ultimately show ?thesis using s by (simp add: rune_def Let_def cont_byte_def)
  next
    case 4
    define a b c d where "a = r div 262144" "b = r div 4096 mod 64" "c = r div 64 mod 64" "d = r mod 64"
    have r: "r = 262144 * a + 4096 * b + 64 * c + d" and s: "a < 5" "b < 64" "c < 64" "d < 64"
      using 4 by (simp_all add: a_b_c_d_def less_mult_imp_div_less) (metis (no_types) digits4)
    have "a = 0 \<Longrightarrow> 16 \<le> b" "a = 4 \<Longrightarrow> b < 16" using 4 r s by linarith+
    then have "second_ok (240 + a) (128 + b)" using s by (cases "a = 0"; cases "a = 4") auto
    moreover have "encode_rune r = [char_of (240 + a), char_of (128 + b), char_of (128 + c), char_of (128 + d)]"
      using 4 by (simp add: encode_rune_def a_b_c_d_def)
    ultimately show ?thesis using s by (simp add: rune_def Let_def cont_byte_def)
  next
    case 5
    then have "encode_rune r = rune_error" by (auto simp: encode_rune_def)
    with rune_error_rune show ?thesis by simp
  qed
qed

lemma simple_escape_ascii: "escape_char c \<Longrightarrow> byte (simple_escape c) < (0x80 :: nat)"
  by (simp add: escape_char_def) (elim disjE; simp add: simple_escape_def)

lemma valid_utf8_ascii: "byte c < (0x80 :: nat) \<Longrightarrow> valid_utf8 (c # s) \<longleftrightarrow> valid_utf8 s"
  using rune_width_ascii [of c s] by (subst valid_utf8.simps) simp

lemma valid_unquote: "valid_utf8 (unquote s)"
proof (induction s rule: length_induct)
  case (1 s)
  then have IH: "length t < length s \<Longrightarrow> valid_utf8 (unquote t)" for t by blast
  note app = valid_utf8_append_rune [OF encode_rune_rune] valid_utf8_append_rune [OF rune_error_rune]
  show ?case
  proof (cases s)
    case (Cons c cs)
    consider "c \<noteq> BSL" "rune_width s = 0" | "c \<noteq> BSL" "rune_width s \<noteq> 0" | "c = BSL" by blast
    then show ?thesis
    proof cases
      case 1
      with Cons IH [of cs] show ?thesis by (subst unquote.simps) (simp add: app del: rune_width.simps)
    next
      case 2
      with Cons IH [of "drop (rune_width s) s"] show ?thesis
        using valid_utf8_append_rune [OF rune_take [OF 2(2)]] unquote_rune [OF Cons 2] by simp
    next
      case 3
      have d: "valid_utf8 (unquote (drop 6 s))" "valid_utf8 (unquote (drop 12 s))"
        using IH [of "drop 6 s"] IH [of "drop 12 s"] Cons by auto
      have e: "cs = x # xs \<Longrightarrow> valid_utf8 (unquote xs)" for x xs using IH [of xs] Cons by simp
      show ?thesis using 3 Cons d e
        by (subst unquote.simps)
          (auto simp: app valid_utf8_ascii simple_escape_ascii simp del: getu4.simps split: option.split list.split)
    qed
  qed simp
qed

text \<open>Every string of a parsed value.\<close>

fun utf8_json :: "json \<Rightarrow> bool" and utf8_elems :: "json list \<Rightarrow> bool"
  and utf8_members :: "(bytes \<times> bytes \<times> json) list \<Rightarrow> bool" where
  "utf8_json (JStr s) \<longleftrightarrow> valid_utf8 s"
| "utf8_json (JArr vs) \<longleftrightarrow> utf8_elems vs"
| "utf8_json (JObj ms) \<longleftrightarrow> utf8_members ms"
| "utf8_json JNull \<longleftrightarrow> True"
| "utf8_json (JBool b) \<longleftrightarrow> True"
| "utf8_json (JNum w) \<longleftrightarrow> True"
| "utf8_elems [] \<longleftrightarrow> True"
| "utf8_elems (v # vs) \<longleftrightarrow> utf8_json v \<and> utf8_elems vs"
| "utf8_members [] \<longleftrightarrow> True"
| "utf8_members ((k, raw, v) # ms) \<longleftrightarrow> valid_utf8 k \<and> utf8_json v \<and> utf8_members ms"

lemma utf8_elems_iff: "utf8_elems vs \<longleftrightarrow> list_all utf8_json vs"
  by (induction vs) auto

lemma literal_utf8: "utf8_json (literal_value w)"
  by (simp add: literal_value_def)

lemma parse_utf8:
  "(parse_value n s = Some (v, r) \<longrightarrow> utf8_json v) \<and>
   (parse_members n s = Some (ms, r) \<longrightarrow> utf8_members ms) \<and>
   (parse_elems n s = Some (vs, r) \<longrightarrow> utf8_elems vs)"
proof (induction n arbitrary: s v ms vs r)
  case 0
  show ?case by simp
next
  case (Suc n)
  have IH: "parse_value n s = Some (v, r) \<Longrightarrow> utf8_json v" "parse_members n s = Some (ms, r) \<Longrightarrow> utf8_members ms"
    "parse_elems n s = Some (vs, r) \<Longrightarrow> utf8_elems vs" for s v ms vs r
    using Suc by blast+
  have "utf8_json v" if "parse_value (Suc n) s = Some (v, r)"
    using that by (auto simp: Option.bind_eq_Some_conv valid_unquote literal_utf8 split: if_splits dest: IH)
  moreover have "utf8_members ms" if "parse_members (Suc n) s = Some (ms, r)"
    using that by (auto simp: Option.bind_eq_Some_conv Let_def valid_unquote split: if_splits dest: IH)
  moreover have "utf8_elems vs" if "parse_elems (Suc n) s = Some (vs, r)"
    using that by (auto simp: Option.bind_eq_Some_conv split: if_splits dest: IH)
  ultimately show ?case by blast
qed

lemma json_parse_utf8: "json_parse data = Some v \<Longrightarrow> utf8_json v"
  using parse_utf8 [of "2 * length data + 2" data]
  by (auto simp: json_parse_def simp del: parse_value.simps split: if_splits)

text \<open>What the field setters keep of valid text, decoding keeps.\<close>

lemma decode_keeps:
  assumes "\<And>name f raw v a. (name, f) \<in> set fs \<Longrightarrow> utf8_json v \<Longrightarrow> P a \<Longrightarrow> P (fst (f raw v a))"
  shows "utf8_members ms \<Longrightarrow> P a \<Longrightarrow> P (fst (decode_members fs ms a))"
proof (induction ms arbitrary: a)
  case (Cons m ms)
  obtain k raw v where m: "m = (k, raw, v)" by (rule prod_cases3)
  have "P (fst (case find_field fs k of Some f \<Rightarrow> f raw v a | None \<Rightarrow> (a, True)))"
  proof (cases "find_field fs k")
    case (Some f)
    then have "\<exists>name. (name, f) \<in> set fs"
      by (auto simp: find_field_def find_Some_iff dest: map_of_SomeD split: option.splits) (metis nth_mem)
    with assms Some Cons.prems m show ?thesis by auto
  qed (use Cons.prems in simp)
  with Cons m show ?case by (simp add: Let_def case_prod_beta)
qed simp

lemma unmarshal_keeps:
  assumes "\<And>name f raw v a. (name, f) \<in> set fs \<Longrightarrow> utf8_json v \<Longrightarrow> P a \<Longrightarrow> P (fst (f raw v a))" "P a"
  shows "P (fst (unmarshal fs data a))"
proof (cases "json_parse data")
  case (Some v)
  have "P (fst (decode_members fs ms a))" if "utf8_members ms" for ms
    by (rule decode_keeps [of fs P]) (use assms that in auto)
  with json_parse_utf8 [OF Some] Some assms(2) show ?thesis
    by (cases v) (auto simp: unmarshal_def decode_struct_def)
qed (use assms in \<open>simp add: unmarshal_def\<close>)

end
