(* ===== verification/TimeText.thy ===== *)
theory TimeText
  imports JsonCodec
begin

text \<open>
  \<open>time.Time\<close> in JSON: an instant (nanoseconds since 1970) written in the local zone as
  RFC 3339 with a trimmed fraction, and the strict reading of it.  Reading what was written
  gives the instant back, whatever the zone.
\<close>

section \<open>The calendar\<close>

definition leap :: "nat \<Rightarrow> bool" where
  "leap y \<longleftrightarrow> y mod 4 = 0 \<and> (y mod 100 \<noteq> 0 \<or> y mod 400 = 0)"

definition year_days :: "nat \<Rightarrow> nat" where
  "year_days y = (if leap y then 366 else 365)"

definition month_days :: "nat \<Rightarrow> nat \<Rightarrow> nat" where
  "month_days y m =
     (if m = 2 then (if leap y then 29 else 28)
      else if m = 4 \<or> m = 6 \<or> m = 9 \<or> m = 11 then 30 else 31)"

text \<open>The year, and the day in it, of a day counted from the first of January of year \<open>y\<close>.\<close>

function year_of :: "nat \<Rightarrow> nat \<Rightarrow> nat \<times> nat" where
  "year_of y d = (if d < year_days y then (y, d) else year_of (Suc y) (d - year_days y))"
  by pat_completeness auto
termination by (relation "measure snd") (auto simp: year_days_def)

declare year_of.simps [simp del]

function month_of :: "nat \<Rightarrow> nat \<Rightarrow> nat \<Rightarrow> nat \<times> nat" where
  "month_of y m d =
     (if 12 \<le> m \<or> d < month_days y m then (m, Suc d) else month_of y (Suc m) (d - month_days y m))"
  by pat_completeness auto
termination by (relation "measure (\<lambda>(y, m, d). 12 - m)") auto

declare month_of.simps [simp del]

text \<open>Days before a year (from year 0) and before a month of it.\<close>

definition days_before :: "nat \<Rightarrow> nat" where
  "days_before y = 365 * y + (y + 3) div 4 + (y + 399) div 400 - (y + 99) div 100"

fun month_start :: "nat \<Rightarrow> nat \<Rightarrow> nat" where
  "month_start y 0 = 0"
| "month_start y (Suc m) = (if m = 0 then 0 else month_start y m + month_days y m)"

lemma div_step: "0 < k \<Longrightarrow> (Suc y + (k - 1)) div k = (y + (k - 1)) div k + (if y mod k = 0 then 1 else 0)"
proof -
  assume k: "0 < k"
  then have "Suc (y + (k - 1)) = y + k" by simp
  then have "Suc (y + (k - 1)) mod k = y mod k" by (simp only: mod_add_self2)
  then show ?thesis using div_Suc [of "y + (k - 1)" k] by simp
qed

lemma leap_step:
  fixes s b e :: nat
  assumes "P400 \<Longrightarrow> P100" "P100 \<Longrightarrow> P4" "s = b + e"
  shows "s + 365 + (if P4 then 1 else 0) + (if P400 then 1 else 0) - (b + (if P100 then 1 else 0)) =
    s - b + (if P4 \<and> (\<not> P100 \<or> P400) then 366 else 365)"
  unfolding assms(3) using assms(1,2) by (cases P4; cases P100; cases P400) simp_all

lemma century_sum: "\<exists>e. 365 * y + (y + 3) div 4 + (y + 399) div 400 = (y + 99) div 100 + (e :: nat)"
proof -
  have "(y + 99) div 100 \<le> 365 * y + (y + 3) div 4 + (y + 399) div 400"
  proof (cases y)
    case (Suc n)
    then have "(y + 99) div 100 \<le> (100 * y) div 100" by (intro div_le_mono) simp
    then show ?thesis by simp
  qed simp
  then show ?thesis by (rule le_Suc_ex)
qed

lemma days_before_Suc: "days_before (Suc y) = days_before y + year_days y"
proof -
  have d: "(Suc y + 3) div 4 = (y + 3) div 4 + (if y mod 4 = 0 then 1 else 0)"
    "(Suc y + 99) div 100 = (y + 99) div 100 + (if y mod 100 = 0 then 1 else 0)"
    "(Suc y + 399) div 400 = (y + 399) div 400 + (if y mod 400 = 0 then 1 else 0)"
    using div_step [of 4 y] div_step [of 100 y] div_step [of 400 y] by simp_all
  have m: "y mod 400 = 0 \<Longrightarrow> y mod 100 = 0" "y mod 100 = 0 \<Longrightarrow> y mod 4 = 0"
    unfolding mod_eq_0_iff_dvd by (rule dvd_trans; simp)+
  obtain e where e: "365 * y + (y + 3) div 4 + (y + 399) div 400 = (y + 99) div 100 + e"
    using century_sum by blast
  have "days_before (Suc y) =
      365 * y + (y + 3) div 4 + (y + 399) div 400 + 365 + (if y mod 4 = 0 then 1 else 0) +
        (if y mod 400 = 0 then 1 else 0) - ((y + 99) div 100 + (if y mod 100 = 0 then 1 else 0))"
    unfolding days_before_def d by (simp only: mult_Suc_right add.assoc add.commute add.left_commute)
  also have "\<dots> = days_before y + year_days y"
    unfolding days_before_def year_days_def leap_def by (rule leap_step [OF m e])
  finally show ?thesis .
qed

lemma cycle_step:
  fixes a b c e k y :: nat
  assumes "365 * y + a + c = b + e"
  shows "365 * (400 * k + y) + (100 * k + a) + (k + c) - (4 * k + b) = 146097 * k + (365 * y + a + c - b)"
proof -
  have "365 * (400 * k + y) + (100 * k + a) + (k + c) = 146101 * k + (365 * y + a + c)" by simp
  then show ?thesis unfolding assms by simp
qed

lemma days_before_cycle: "days_before (400 * k + y) = 146097 * k + days_before y"
proof -
  have "(400 * k + y + 3) div 4 = 100 * k + (y + 3) div 4"
    "(400 * k + y + 99) div 100 = 4 * k + (y + 99) div 100"
    "(400 * k + y + 399) div 400 = k + (y + 399) div 400"
    using div_mult_self2 [of 4 "y + 3" "100 * k"] div_mult_self2 [of 100 "y + 99" "4 * k"]
      div_mult_self2 [of 400 "y + 399" k] by (simp_all add: algebra_simps)
  note parts = this
  obtain e where e: "365 * y + (y + 3) div 4 + (y + 399) div 400 = (y + 99) div 100 + e"
    using century_sum by blast
  show ?thesis unfolding days_before_def parts by (rule cycle_step [OF e])
qed

lemma year_of_days: "year_of y d = (y', r) \<Longrightarrow> days_before y' + r = days_before y + d \<and> r < year_days y'"
  by (induction y d rule: year_of.induct)
    (force simp: days_before_Suc year_of.simps split: if_splits)

lemma month_start_13: "month_start y 13 = year_days y"
  by (simp add: eval_nat_numeral year_days_def month_days_def)

lemma month_of_days:
  "month_of y m d = (m', r) \<Longrightarrow> 1 \<le> m \<Longrightarrow> m \<le> 12 \<Longrightarrow> month_start y m + d < year_days y \<Longrightarrow>
     month_start y m' + r = month_start y m + Suc d \<and> 1 \<le> m' \<and> m' \<le> 12 \<and> 1 \<le> r \<and> r \<le> month_days y m'"
proof (induction y m d rule: month_of.induct)
  case (1 y m d)
  have suc: "month_start y (Suc m) = month_start y m + month_days y m" using 1 by simp
  show ?case
  proof (cases "12 \<le> m \<or> d < month_days y m")
    case True
    then have "m' = m" "r = Suc d" using 1(2) by (simp_all add: month_of.simps [of y m d])
    moreover have "d < month_days y m"
    proof (cases "m = 12")
      case True
      then show ?thesis using 1(5) month_start_13 [of y] suc by (simp add: numeral_eq_Suc)
    qed (use True 1 in auto)
    ultimately show ?thesis using 1 by auto
  next
    case False
    then have "month_of y (Suc m) (d - month_days y m) = (m', r)"
      using 1(2) by (simp add: month_of.simps [of y m d])
    from 1(1) [OF False this] False 1 suc show ?thesis by auto
  qed
qed

text \<open>A day counted from the first of January of year 0, and back.\<close>

definition civil :: "nat \<Rightarrow> nat \<times> nat \<times> nat" where
  "civil n =
     (let (y, r) = year_of (400 * (n div 146097)) (n mod 146097); (m, d) = month_of y 1 r in (y, m, d))"

definition day_number :: "nat \<Rightarrow> nat \<Rightarrow> nat \<Rightarrow> nat" where
  "day_number y m d = days_before y + month_start y m + d - 1"

lemma civil_day_number:
  "civil n = (y, m, d) \<Longrightarrow> day_number y m d = n \<and> 1 \<le> m \<and> m \<le> 12 \<and> 1 \<le> d \<and> d \<le> month_days y m"
proof -
  assume c: "civil n = (y, m, d)"
  obtain y' r where yr: "year_of (400 * (n div 146097)) (n mod 146097) = (y', r)" by (rule prod.exhaust)
  with c have my: "month_of y 1 r = (m, d)" "y' = y" by (auto simp: civil_def split: prod.splits)
  have "days_before (400 * (n div 146097)) = 146097 * (n div 146097)"
    using days_before_cycle [of "n div 146097" 0] by (simp add: days_before_def)
  with year_of_days [OF yr] my have "days_before y + r = n" "r < year_days y" by simp_all
  with month_of_days [OF my(1)] show ?thesis by (auto simp: day_number_def)
qed

section \<open>Digits\<close>

fun dig :: "nat \<Rightarrow> nat \<Rightarrow> bytes" where
  "dig 0 v = []"
| "dig (Suc n) v = dig n (v div 10) @ [char_of (48 + v mod 10)]"

lemma length_dig [simp]: "length (dig n v) = n"
  by (induction n arbitrary: v) simp_all

lemma digit_char: "v < 10 \<Longrightarrow> is_digit (char_of (48 + v)) \<and> byte (char_of (48 + v)) - 48 = v"
  by (simp add: is_digit_def)

lemma dig_digits: "list_all is_digit (dig n v)"
  by (induction n arbitrary: v) (simp_all add: digit_char)

lemma dec_val_append: "dec_val a (s @ t) = (case dec_val a s of None \<Rightarrow> None | Some b \<Rightarrow> dec_val b t)"
  by (induction s arbitrary: a) simp_all

lemma dec_val_dig: "dec_val a (dig n v) = Some (a * 10 ^ n + v mod 10 ^ n)"
proof (induction n arbitrary: v)
  case (Suc n)
  have "v mod (10 * 10 ^ n) = 10 * (v div 10 mod 10 ^ n) + v mod 10"
    by (simp add: mod_mult2_eq)
  with Suc show ?case by (simp add: dec_val_append digit_char algebra_simps)
qed simp

lemma dec_val_dig_small: "v < 10 ^ n \<Longrightarrow> dec_val 0 (dig n v) = Some v"
  by (simp add: dec_val_dig)

section \<open>Writing\<close>

definition nano_day :: int where "nano_day = 86400000000000"

text \<open>The fraction, without its trailing zeros.\<close>

definition frac_digits :: "nat \<Rightarrow> bytes" where
  "frac_digits ns = rev (dropWhile (\<lambda>c. c = CHR ''0'') (rev (dig 9 ns)))"

definition frac_text :: "nat \<Rightarrow> bytes" where
  "frac_text ns = (if ns = 0 then [] else CHR ''.'' # frac_digits ns)"

definition zone_text :: "int \<Rightarrow> bytes" where
  "zone_text off =
     (if off = 0 then ''Z''
      else (if off < 0 then CHR ''-'' else CHR ''+'') #
           dig 2 (nat \<bar>off\<bar> div 60) @ '':'' @ dig 2 (nat \<bar>off\<bar> mod 60))"

text \<open>\<open>Time.MarshalJSON\<close> of an instant in a zone \<open>off\<close> minutes east, without the quotes; \<open>None\<close>
  for a year or a zone RFC 3339 cannot write.\<close>

definition rfc3339 :: "int \<Rightarrow> int \<Rightarrow> bytes option" where
  "rfc3339 off t =
     (let l = t + off * 60000000000; day = l div nano_day + 719528; ns = nat (l mod nano_day);
          (y, m, d) = civil (nat day)
      in if day < 0 \<or> 9999 < y \<or> 1440 \<le> \<bar>off\<bar> then None
         else Some (dig 4 y @ ''-'' @ dig 2 m @ ''-'' @ dig 2 d @ ''T'' @
           dig 2 (ns div 3600000000000) @ '':'' @ dig 2 (ns div 60000000000 mod 60) @ '':'' @
           dig 2 (ns div 1000000000 mod 60) @ frac_text (ns mod 1000000000) @ zone_text off))"

section \<open>Reading\<close>

definition num_at :: "nat \<Rightarrow> nat \<Rightarrow> nat \<Rightarrow> nat \<Rightarrow> bytes \<Rightarrow> nat option" where
  "num_at i n lo hi s =
     (case dec_val 0 (take n (drop i s)) of
        None \<Rightarrow> None | Some v \<Rightarrow> if lo \<le> v \<and> v \<le> hi then Some v else None)"

text \<open>The fraction: nine digits count.\<close>

definition read_frac :: "bytes \<Rightarrow> nat \<times> bytes" where
  "read_frac s =
     (case s of
        c # d # r \<Rightarrow>
          if c = CHR ''.'' \<and> is_digit d then
            (the (dec_val 0 (take 9 (takeWhile is_digit (d # r) @ replicate 9 (CHR ''0'')))),
             dropWhile is_digit (d # r))
          else (0, s)
      | _ \<Rightarrow> (0, s))"

definition read_zone :: "bytes \<Rightarrow> int option" where
  "read_zone s =
     (if s = ''Z'' then Some 0
      else if length s \<noteq> 6 \<or> s ! 3 \<noteq> CHR '':'' then None
      else do {
        h \<leftarrow> num_at 1 2 0 23 s;
        m \<leftarrow> num_at 4 2 0 59 s;
        (if hd s = CHR ''+'' then Some (int (h * 60 + m))
         else if hd s = CHR ''-'' then Some (- int (h * 60 + m)) else None) })"

definition parse_rfc3339 :: "bytes \<Rightarrow> int option" where
  "parse_rfc3339 s =
     (if length s < 19 then None
      else do {
        y \<leftarrow> num_at 0 4 0 9999 s;
        m \<leftarrow> num_at 5 2 1 12 s;
        d \<leftarrow> num_at 8 2 1 (month_days y m) s;
        h \<leftarrow> num_at 11 2 0 23 s;
        mi \<leftarrow> num_at 14 2 0 59 s;
        sec \<leftarrow> num_at 17 2 0 59 s;
        (if s ! 4 = CHR ''-'' \<and> s ! 7 = CHR ''-'' \<and> s ! 10 = CHR ''T'' \<and> s ! 13 = CHR '':'' \<and> s ! 16 = CHR '':''
         then
           (let (ns, r) = read_frac (drop 19 s) in
            map_option (\<lambda>off. (int (day_number y m d) - 719528) * nano_day +
                int (h * 3600 + mi * 60 + sec) * 1000000000 + int ns - off * 60000000000) (read_zone r))
         else None) })"

section \<open>The round trip\<close>

lemma num_at_dig: "lo \<le> v \<Longrightarrow> v \<le> hi \<Longrightarrow> v < 10 ^ n \<Longrightarrow> take n (drop i s) = dig n v \<Longrightarrow> num_at i n lo hi s = Some v"
  by (simp add: num_at_def dec_val_dig_small)

lemma zone_head: "\<exists>c cs. zone_text off = c # cs \<and> \<not> is_digit c \<and> c \<noteq> CHR ''.''"
  by (auto simp: zone_text_def is_digit_def)

lemma dig2: "dig 2 v = [char_of (48 + v div 10 mod 10), char_of (48 + v mod 10)]"
  by (simp add: numeral_2_eq_2)

lemma read_zone_text: "\<bar>off\<bar> < 1440 \<Longrightarrow> read_zone (zone_text off) = Some off"
proof (cases "off = 0")
  case False
  assume "\<bar>off\<bar> < 1440"
  then have "nat \<bar>off\<bar> < 1440" by simp
  then have "nat \<bar>off\<bar> div 60 < 24" by (simp add: less_mult_imp_div_less)
  then have h: "nat \<bar>off\<bar> div 60 \<le> 23" "nat \<bar>off\<bar> div 60 < 10 ^ 2" by simp_all
  have "nat \<bar>off\<bar> mod 60 < 60" by simp
  then have h2: "nat \<bar>off\<bar> mod 60 \<le> 59" "nat \<bar>off\<bar> mod 60 < 10 ^ 2" by simp_all
  let ?s = "zone_text off"
  have tk: "take 2 (drop 1 ?s) = dig 2 (nat \<bar>off\<bar> div 60)" "take 2 (drop 4 ?s) = dig 2 (nat \<bar>off\<bar> mod 60)"
    using False by (simp_all add: zone_text_def)
  note num_at_dig [OF le0 h tk(1)] num_at_dig [OF le0 h2 tk(2)]
  moreover
  have "length ?s = 6" "?s ! 3 = CHR '':''" "?s \<noteq> ''Z''"
    "hd ?s = (if off < 0 then CHR ''-'' else CHR ''+'')"
    using False by (simp_all add: zone_text_def dig2)
  moreover have "nat \<bar>off\<bar> div 60 * 60 + nat \<bar>off\<bar> mod 60 = nat \<bar>off\<bar>" by simp
  ultimately show ?thesis using False by (simp add: read_zone_def)
qed (simp add: zone_text_def read_zone_def)

lemma dropWhile_zeros: "\<exists>k. s = replicate k c @ dropWhile (\<lambda>x. x = c) s"
proof (induction s)
  case (Cons x s)
  then obtain k where k: "replicate k c @ dropWhile (\<lambda>x. x = c) s = s" by metis
  have "x = c \<Longrightarrow> x # s = replicate (Suc k) c @ dropWhile (\<lambda>x. x = c) (x # s)" by (simp add: k)
  moreover have "x \<noteq> c \<Longrightarrow> x # s = replicate 0 c @ dropWhile (\<lambda>x. x = c) (x # s)" by simp
  ultimately show ?case by blast
qed simp

lemma frac_digits_pad: "\<exists>k. dig 9 ns = frac_digits ns @ replicate k (CHR ''0'') \<and> k \<le> 9"
proof -
  obtain k where k: "rev (dig 9 ns) = replicate k (CHR ''0'') @ dropWhile (\<lambda>c. c = CHR ''0'') (rev (dig 9 ns))"
    using dropWhile_zeros [of "rev (dig 9 ns)" "CHR ''0''"] by blast
  have "rev (rev (dig 9 ns)) = rev (dropWhile (\<lambda>c. c = CHR ''0'') (rev (dig 9 ns))) @ rev (replicate k (CHR ''0''))"
    unfolding rev_append [symmetric] using k by (rule arg_cong)
  then have d: "dig 9 ns = frac_digits ns @ replicate k (CHR ''0'')"
    unfolding frac_digits_def rev_replicate rev_rev_ident .
  then have "length (dig 9 ns) = length (frac_digits ns) + k" by simp
  then have "k \<le> 9" by simp
  with d show ?thesis by blast
qed

lemma dec_val_zeros: "dec_val 0 (replicate k (CHR ''0'')) = Some 0"
  by (induction k) (simp_all add: is_digit_def)

lemma read_frac_text:
  assumes "ns < 1000000000"
  shows "read_frac (frac_text ns @ zone_text off) = (ns, zone_text off)"
proof (cases "ns = 0")
  case True
  with zone_head [of off] show ?thesis by (auto simp: frac_text_def read_frac_def split: list.split)
next
  case False
  obtain z zs where z: "zone_text off = z # zs" "\<not> is_digit z" using zone_head [of off] by blast
  obtain k where k: "dig 9 ns = frac_digits ns @ replicate k (CHR ''0'')" "k \<le> 9" using frac_digits_pad by blast
  have v: "dec_val 0 (dig 9 ns) = Some ns" using assms by (intro dec_val_dig_small) simp
  obtain d r where d: "frac_digits ns = d # r"
  proof (cases "frac_digits ns")
    case Nil
    with k v dec_val_zeros [of k] False show ?thesis by simp
  qed blast
  have digits: "list_all is_digit (frac_digits ns)" using dig_digits [of 9 ns] k by simp
  then have tw: "takeWhile is_digit (frac_digits ns @ z # zs) = frac_digits ns"
    "dropWhile is_digit (frac_digits ns @ z # zs) = z # zs"
    using z(2) by (simp_all add: list_all_iff takeWhile_append2 dropWhile_append2)
  have "length (frac_digits ns) + k = 9" using k(1) length_dig [of 9 ns] by (metis length_append length_replicate)
  then have "take 9 (frac_digits ns @ replicate 9 (CHR ''0'')) = dig 9 ns"
    using k by (simp add: min_def)
  then have "take 9 (takeWhile is_digit (frac_digits ns @ z # zs) @ replicate 9 (CHR ''0'')) = dig 9 ns"
    by (simp only: tw)
  moreover have "is_digit d" using digits d by simp
  moreover have "read_frac (CHR ''.'' # x # y) =
      (the (dec_val 0 (take 9 (takeWhile is_digit (x # y) @ replicate 9 (CHR ''0'')))), dropWhile is_digit (x # y))"
    if "is_digit x" for x y using that by (simp add: read_frac_def)
  ultimately have "read_frac (CHR ''.'' # d # (r @ z # zs)) = (ns, z # zs)"
    using tw v unfolding d by (simp only: append_Cons option.sel)
  then show ?thesis using False d z(1) by (simp add: frac_text_def)
qed

lemma clock_parts:
  fixes ns :: nat
  assumes "ns < 86400000000000"
  shows "ns div 3600000000000 \<le> 23"
    "ns div 3600000000000 * 3600 + ns div 60000000000 mod 60 * 60 + ns div 1000000000 mod 60 = ns div 1000000000"
proof -
  let ?q = "ns div 1000000000"
  have q: "ns div 3600000000000 = ?q div 3600" "ns div 60000000000 = ?q div 60"
    by (simp_all add: div_mult2_eq [symmetric])
  have "?q < 86400" using assms by (simp add: less_mult_imp_div_less)
  then show "ns div 3600000000000 \<le> 23" unfolding q by linarith
  let ?u = "?q div 60"
  have "?q div 3600 = ?u div 60" by (simp add: div_mult2_eq [symmetric])
  moreover have "a * 3600 + b * 60 = (a * 60 + b) * (60 :: nat)" for a b by simp
  ultimately show "ns div 3600000000000 * 3600 + ns div 60000000000 mod 60 * 60 + ?q mod 60 = ?q"
    unfolding q by (simp only: div_mult_mod_eq)
qed

lemma parse_rfc3339_text:
  assumes "rfc3339 off t = Some s"
  shows "parse_rfc3339 s = Some t"
proof -
  let ?l = "t + off * 60000000000"
  let ?day = "?l div nano_day + 719528" and ?ns = "nat (?l mod nano_day)"
  obtain y m d where c: "civil (nat ?day) = (y, m, d)" by (rule prod_cases3)
  let ?f = "?ns mod 1000000000"
  have ok: "0 \<le> ?day" "y \<le> 9999" "\<bar>off\<bar> < 1440"
    and s: "s = dig 4 y @ ''-'' @ dig 2 m @ ''-'' @ dig 2 d @ ''T'' @
           dig 2 (?ns div 3600000000000) @ '':'' @ dig 2 (?ns div 60000000000 mod 60) @ '':'' @
           dig 2 (?ns div 1000000000 mod 60) @ frac_text ?f @ zone_text off"
    using assms c by (auto simp: rfc3339_def Let_def split: if_splits)
  note cd = civil_day_number [OF c]
  have md: "month_days y m \<le> 31" by (simp add: month_days_def)
  have ns: "?ns < 86400000000000" by (simp add: nano_day_def nat_less_iff)
  note cl = clock_parts [OF ns]
  have tk: "take 4 (drop 0 s) = dig 4 y" "take 2 (drop 5 s) = dig 2 m" "take 2 (drop 8 s) = dig 2 d"
    "take 2 (drop 11 s) = dig 2 (?ns div 3600000000000)" "take 2 (drop 14 s) = dig 2 (?ns div 60000000000 mod 60)"
    "take 2 (drop 17 s) = dig 2 (?ns div 1000000000 mod 60)"
    unfolding s by simp_all
  have small: "v \<le> 59 \<and> v < 10 ^ 2" if "v < 60" for v :: nat using that by simp
  have n: "num_at 0 4 0 9999 s = Some y" "num_at 5 2 1 12 s = Some m"
    "num_at 8 2 1 (month_days y m) s = Some d"
    "num_at 11 2 0 23 s = Some (?ns div 3600000000000)"
    using ok(2) cd md cl(1) by (auto intro!: num_at_dig tk simp del: One_nat_def)
  have n2: "num_at 14 2 0 59 s = Some (?ns div 60000000000 mod 60)"
    "num_at 17 2 0 59 s = Some (?ns div 1000000000 mod 60)"
    by (rule num_at_dig [OF le0 small [THEN conjunct1] small [THEN conjunct2] tk(5)]
        num_at_dig [OF le0 small [THEN conjunct1] small [THEN conjunct2] tk(6)]; simp)+
  have p: "s ! 4 = CHR ''-''" "s ! 7 = CHR ''-''" "s ! 10 = CHR ''T''" "s ! 13 = CHR '':''" "s ! 16 = CHR '':''"
    "19 \<le> length s" "drop 19 s = frac_text ?f @ zone_text off"
    unfolding s by (simp_all add: nth_append)
  have fr: "read_frac (drop 19 s) = (?f, zone_text off)" unfolding p by (rule read_frac_text) simp
  have zn: "read_zone (zone_text off) = Some off" by (rule read_zone_text [OF ok(3)])
  have "parse_rfc3339 s = Some ((int (day_number y m d) - 719528) * nano_day +
      int (?ns div 3600000000000 * 3600 + ?ns div 60000000000 mod 60 * 60 + ?ns div 1000000000 mod 60) * 1000000000 +
      int ?f - off * 60000000000)"
    using n n2 p fr zn by (simp add: parse_rfc3339_def)
  moreover have "(int (day_number y m d) - 719528) * nano_day +
      int (?ns div 3600000000000 * 3600 + ?ns div 60000000000 mod 60 * 60 + ?ns div 1000000000 mod 60) * 1000000000 +
      int ?f - off * 60000000000 = t"
  proof -
    have "int (day_number y m d) - 719528 = ?l div nano_day" using cd ok(1) by simp
    then have "(int (day_number y m d) - 719528) * nano_day = ?l div nano_day * nano_day" by simp
    moreover have "int (?ns div 1000000000) * 1000000000 + int ?f = ?l mod nano_day"
      by (simp add: nano_day_def zmod_int zdiv_int)
    ultimately show ?thesis unfolding cl(2) using div_mult_mod_eq [of ?l nano_day] by linarith
  qed
  ultimately show ?thesis by simp
qed

end
