(* ===== verification/Store.thy ===== *)
theory Store
  imports Flow Files TimeText
begin

text \<open>
  The stores on disk: tokens (\<open>pkg/oauth/store.go\<close>) and client registrations
  (\<open>pkg/oauth/register.go\<close>) as JSON files replaced atomically.  The file store keeps the
  contract the token ladder relies on, so a token the ladder hands out is on disk.
\<close>

section \<open>Tokens as JSON\<close>

text \<open>The zero \<open>time.Time\<close> (the first of January of year 1).\<close>

definition zero_time :: int where "zero_time = - 62135596800000000000"

definition opt_string :: "bytes \<Rightarrow> bytes \<Rightarrow> (bytes \<times> bytes \<times> json) list" where
  "opt_string name s = (if s = [] then [] else [(name, [], JStr s)])"

definition opt_strings :: "bytes \<Rightarrow> bytes list \<Rightarrow> (bytes \<times> bytes \<times> json) list" where
  "opt_strings name ss = (if ss = [] then [] else [(name, [], JArr (map JStr ss))])"

definition opt_time :: "(int \<Rightarrow> int) \<Rightarrow> bytes \<Rightarrow> int option \<Rightarrow> (bytes \<times> bytes \<times> json) list option" where
  "opt_time zn name e =
     (case e of
        None \<Rightarrow> Some []
      | Some t \<Rightarrow> if t = zero_time then Some []
                  else map_option (\<lambda>s. [(name, [], JStr s)]) (rfc3339 (zn t) t))"

text \<open>\<open>json.Marshal\<close> of a token in the local zone; \<open>None\<close> when the expiry cannot be written.\<close>

definition token_json :: "(int \<Rightarrow> int) \<Rightarrow> token \<Rightarrow> json option" where
  "token_json zn t =
     map_option (\<lambda>ex. JObj ([(''access_token'', [], JStr (AccessToken t))] @
         opt_string ''refresh_token'' (RefreshToken t) @ ex @ opt_string ''issuer'' (tk_Issuer t) @
         opt_string ''client_id'' (tk_ClientID t) @ opt_strings ''scopes'' (tk_Scopes t)))
       (opt_time zn ''expiry'' (Expiry t))"

text \<open>A \<open>time.Time\<close> field: the text between the quotes, unescaped.\<close>

definition time_field :: "(int \<Rightarrow> 'a \<Rightarrow> 'a) \<Rightarrow> 'a setter" where
  "time_field upd raw v a =
     (case v of
        JNull \<Rightarrow> (a, True)
      | JStr _ \<Rightarrow> (case parse_rfc3339 (butlast (tl raw)) of Some t \<Rightarrow> (upd t a, True) | None \<Rightarrow> (a, False))
      | _ \<Rightarrow> (a, False))"

definition token_fields :: "(bytes \<times> token setter) list" where
  "token_fields =
     [(''access_token'', string_field (\<lambda>s t. t\<lparr>AccessToken := s\<rparr>)),
      (''refresh_token'', string_field (\<lambda>s t. t\<lparr>RefreshToken := s\<rparr>)),
      (''expiry'', time_field (\<lambda>e t. t\<lparr>Expiry := (if e = zero_time then None else Some e)\<rparr>)),
      (''issuer'', string_field (\<lambda>s t. t\<lparr>tk_Issuer := s\<rparr>)),
      (''client_id'', string_field (\<lambda>s t. t\<lparr>tk_ClientID := s\<rparr>)),
      (''scopes'', strings_field (\<lambda>ss t. t\<lparr>tk_Scopes := ss\<rparr>))]"

definition empty_token :: token where
  "empty_token = \<lparr>AccessToken = [], RefreshToken = [], Expiry = None, tk_Issuer = [], tk_ClientID = [], tk_Scopes = []\<rparr>"

section \<open>Where the files are\<close>

definition UserHomeDir :: "'z os_scheme \<Rightarrow> gerr + bytes" where
  "UserHomeDir w =
     (if GOOS w = ''windows'' then
        if getenv w ''USERPROFILE'' = [] then Inl (Message ''%userprofile% is not defined'') else Inr (getenv w ''USERPROFILE'')
      else if getenv w ''HOME'' = [] then Inl (Message ''$HOME is not defined'') else Inr (getenv w ''HOME''))"

definition BaseDir :: "'z os_scheme \<Rightarrow> path" where
  "BaseDir w =
     (case UserHomeDir w of
        Inl _ \<Rightarrow> abs_path (cwd w) ''.mcpurl''
      | Inr home \<Rightarrow> abs_path (cwd w) home @ [''.config'', ''mcpurl''])"

definition TokensDir :: "'z os_scheme \<Rightarrow> path" where "TokensDir w = BaseDir w @ [''tokens'']"
definition LockDir :: "'z os_scheme \<Rightarrow> path" where "LockDir w = BaseDir w @ [''locks'']"
definition ClientsDir :: "'z os_scheme \<Rightarrow> path" where "ClientsDir w = BaseDir w @ [''clients'']"

definition WipeFiles :: "'z os_scheme \<Rightarrow> gerr option \<times> 'z os_scheme" where
  "WipeFiles w =
     (let (a, w1) = RemoveAll (TokensDir w) w;
          (b, w2) = RemoveAll (ClientsDir w1) w1
      in (join_errors a b, w2))"

section \<open>The file store\<close>

text \<open>The name of a file: the keys are 16 hexadecimal digits (\<open>Key\<close>), one component of a path.\<close>

definition token_path :: "path \<Rightarrow> bytes \<Rightarrow> path" where
  "token_path dir key = dir @ [key @ ''.json'']"

lemma hex_no_slash: "k < 16 \<Longrightarrow> hex_char k \<noteq> CHR ''/''"
proof -
  assume "k < 16"
  then have "48 \<le> (byte (hex_char k) :: nat)" by (simp add: hex_char_def)
  then show ?thesis by (cases "hex_char k = CHR ''/''") auto
qed

lemma sha256_octets: "b \<in> set (sha256 s) \<Longrightarrow> b < 256"
  by (auto simp: sha256_def big_endian_def Let_def)

lemma Key_no_slash: "CHR ''/'' \<notin> set (Key c i)"
proof -
  have "hex_char (b div 16) \<noteq> CHR ''/'' \<and> hex_char (b mod 16) \<noteq> CHR ''/''" if "b \<in> set (sha256 s)" for b s
    using sha256_octets [OF that] by (simp add: hex_no_slash less_mult_imp_div_less)
  then have "CHR ''/'' \<notin> set (hex_encode (sha256 s))" for s by (auto simp: hex_encode_def dest!: sym [of "CHR ''/''"])
  then show ?thesis by (auto simp: Key_def dest!: in_set_takeD)
qed

lemma token_path_join: "join_path dir (Key c i @ ''.json'') = token_path dir (Key c i)"
proof -
  have "Key c i @ ''.json'' \<noteq> ''.''" "Key c i @ ''.json'' \<noteq> ''..''"
    by (auto dest: arg_cong [where f = length])
  then show ?thesis unfolding token_path_def using Key_no_slash [of c i] by (intro join_path_name) auto
qed

definition writeFileAtomic :: "path \<Rightarrow> bytes \<Rightarrow> bytes \<Rightarrow> 'z os_scheme \<Rightarrow> gerr option \<times> 'z os_scheme" where
  "writeFileAtomic dir name data w = Write (dir @ [name]) data mode_0600 w"

definition marshal_error :: gerr where
  "marshal_error = Message ''json: error calling MarshalJSON for type time.Time''"

definition corrupt_token :: "path \<Rightarrow> gerr" where
  "corrupt_token p = Wrap (''corrupt token file '' @ path_text p @ '': '') json_error []"

definition FileStore_Load :: "path \<Rightarrow> bytes \<Rightarrow> 'z os_scheme \<Rightarrow> gerr + token" where
  "FileStore_Load dir key w =
     (case ReadFile (token_path dir key) w of
        Inl e \<Rightarrow> Inl (if IsNotExist e then ErrNotFound else e)
      | Inr data \<Rightarrow>
          let (t, ok) = unmarshal token_fields data empty_token in
          if ok then Inr t else Inl (corrupt_token (token_path dir key)))"

definition FileStore_Save :: "path \<Rightarrow> bytes \<Rightarrow> token \<Rightarrow> 'z os_scheme \<Rightarrow> gerr option \<times> 'z os_scheme" where
  "FileStore_Save dir key t w =
     (case token_json (zone w) t of
        None \<Rightarrow> (Some marshal_error, w)
      | Some j \<Rightarrow> writeFileAtomic dir (key @ ''.json'') (marshal j) w)"

definition FileStore_Delete :: "path \<Rightarrow> bytes \<Rightarrow> 'z os_scheme \<Rightarrow> gerr option \<times> 'z os_scheme" where
  "FileStore_Delete dir key w =
     (case sys_remove (token_path dir key) w of
        (Some e, w1) \<Rightarrow>
          (if IsNotExist e then None else Some (Wrap (''remove '' @ path_text (token_path dir key) @ '': '') e []), w1)
      | (None, w1) \<Rightarrow> (None, w1))"

section \<open>Client registrations\<close>

definition registration_json :: "(int \<Rightarrow> int) \<Rightarrow> registration \<Rightarrow> json option" where
  "registration_json zn r =
     map_option (\<lambda>s. JObj [(''client_id'', [], JStr (rg_ClientID r)), (''issuer'', [], JStr (rg_Issuer r)),
         (''redirect_uri'', [], JStr (RedirectURI r)), (''registered_at'', [], JStr s)])
       (rfc3339 (zn (RegisteredAt r)) (RegisteredAt r))"

definition registration_fields :: "(bytes \<times> registration setter) list" where
  "registration_fields =
     [(''client_id'', string_field (\<lambda>s r. r\<lparr>rg_ClientID := s\<rparr>)),
      (''issuer'', string_field (\<lambda>s r. r\<lparr>rg_Issuer := s\<rparr>)),
      (''redirect_uri'', string_field (\<lambda>s r. r\<lparr>RedirectURI := s\<rparr>)),
      (''registered_at'', time_field (\<lambda>t r. r\<lparr>RegisteredAt := t\<rparr>))]"

definition empty_registration :: registration where
  "empty_registration = \<lparr>rg_ClientID = [], rg_Issuer = [], RedirectURI = [], RegisteredAt = zero_time\<rparr>"

definition corrupt_registration :: "path \<Rightarrow> gerr" where
  "corrupt_registration p = Wrap [] errCorruptRegistration ('' '' @ path_text p @ '' (`mcpurl logout` drops it)'')"

definition ClientStore_Load :: "path \<Rightarrow> bytes \<Rightarrow> 'z os_scheme \<Rightarrow> gerr + registration" where
  "ClientStore_Load dir key w =
     (case ReadFile (token_path dir key) w of
        Inl e \<Rightarrow> Inl (if IsNotExist e then ErrNotFound else e)
      | Inr data \<Rightarrow>
          let (r, ok) = unmarshal registration_fields data empty_registration in
          if \<not> ok \<or> rg_ClientID r = [] then Inl (corrupt_registration (token_path dir key)) else Inr r)"

definition ClientStore_Save :: "path \<Rightarrow> bytes \<Rightarrow> registration \<Rightarrow> 'z os_scheme \<Rightarrow> gerr option \<times> 'z os_scheme" where
  "ClientStore_Save dir key r w =
     (case registration_json (zone w) r of
        None \<Rightarrow> (Some marshal_error, w)
      | Some j \<Rightarrow> writeFileAtomic dir (key @ ''.json'') (marshal j) w)"

definition ClientStore_Delete :: "path \<Rightarrow> bytes \<Rightarrow> 'z os_scheme \<Rightarrow> gerr option \<times> 'z os_scheme" where
  "ClientStore_Delete dir key w = FileStore_Delete dir key w"

section \<open>The round trip of a token\<close>

text \<open>The form in which a token comes back: text made valid UTF-8, the zero time as such.\<close>

definition kept_token :: "token \<Rightarrow> token" where
  "kept_token t =
     \<lparr>AccessToken = repair (AccessToken t), RefreshToken = repair (RefreshToken t),
      Expiry = (if Expiry t = Some zero_time then None else Expiry t),
      tk_Issuer = repair (tk_Issuer t), tk_ClientID = repair (tk_ClientID t),
      tk_Scopes = map repair (tk_Scopes t)\<rparr>"

text \<open>Text that is valid UTF-8 comes back as it is.\<close>

definition utf8_token :: "token \<Rightarrow> bool" where
  "utf8_token t \<longleftrightarrow> list_all valid_utf8
     ([AccessToken t, RefreshToken t, tk_Issuer t, tk_ClientID t] @ tk_Scopes t) \<and> Expiry t \<noteq> Some zero_time"

lemma kept_utf8: "utf8_token t \<Longrightarrow> kept_token t = t"
  by (simp add: utf8_token_def kept_token_def repair_valid list_all_iff map_idI)

lemma decode_members_append:
  "decode_members fs (a @ b) x =
     (let (y, ok1) = decode_members fs a x; (z, ok2) = decode_members fs b y in (z, ok1 \<and> ok2))"
  by (induction a arbitrary: x) (auto simp: Let_def case_prod_beta split: prod.splits)

lemma fits_members_append: "fits_members k (a @ b) \<longleftrightarrow> fits_members k a \<and> fits_members k b"
  by (induction a) auto

lemma reread_members_append: "reread_members P g d (a @ b) = reread_members P g d a @ reread_members P g d b"
  by (induction a) auto

lemma fits_strings: "fits_elems k (map JStr ss)"
  by (induction ss) auto

lemma reread_strings: "reread_elems P g d (map JStr ss) = map JStr (map repair ss)"
  by (induction ss) auto

lemma decode_marshal:
  assumes "fits_members (max_nesting_depth - 1) ms"
  shows "unmarshal fs (marshal (JObj ms)) a = decode_members fs (reread_members (\<lambda>_. []) [] 1 ms) a"
  using json_parse_marshal [of "JObj ms"] assms
  by (simp add: unmarshal_def decode_struct_def max_nesting_depth_def)

lemma opt_string_fits: "fits_members k (opt_string name s)"
  by (simp add: opt_string_def)

lemma opt_strings_fits: "0 < k \<Longrightarrow> fits_members k (opt_strings name ss)"
  by (simp add: opt_strings_def fits_strings)

text \<open>What each field of the struct makes of its member.\<close>

lemma decode_string:
  assumes "find_field fs name = Some (string_field upd)" "repair name = name"
  shows "decode_members fs (reread_members (\<lambda>_. []) [] d [(name, raw, JStr s)]) a = (upd (repair s) a, True)"
  using assms by (simp add: string_field_def)

lemma decode_opt_string:
  assumes "find_field fs name = Some (string_field upd)" "repair name = name"
  shows "decode_members fs (reread_members (\<lambda>_. []) [] d (opt_string name s)) a =
    (if s = [] then a else upd (repair s) a, True)"
  using assms by (simp add: opt_string_def string_field_def)

lemma decode_opt_strings:
  assumes "find_field fs name = Some (strings_field upd)" "repair name = name"
  shows "decode_members fs (reread_members (\<lambda>_. []) [] d (opt_strings name ss)) a =
    (if ss = [] then a else upd (map repair ss) a, True)"
  using assms
  by (simp add: opt_strings_def strings_field_def reread_strings string_elem_def comp_def list_all_iff)

lemma digit_plain: "is_digit c \<Longrightarrow> plain_char c"
  by (auto simp: is_digit_def plain_char_def html_char_def)

lemma dig_plain: "list_all plain_char (dig n v)"
  using dig_digits [of n v] by (auto simp: list_all_iff digit_plain)

lemma frac_plain: "list_all plain_char (frac_text ns)"
proof -
  have "set (frac_digits ns) \<subseteq> set (dig 9 ns)"
    unfolding frac_digits_def set_rev using set_dropWhileD by fastforce
  then have "list_all plain_char (frac_digits ns)" using dig_plain [of 9 ns] by (auto simp: list_all_iff)
  then show ?thesis by (simp add: frac_text_def plain_char_def html_char_def)
qed

lemma zone_plain: "list_all plain_char (zone_text off)"
  by (simp add: zone_text_def dig_plain) (simp add: plain_char_def html_char_def)

lemma rfc3339_plain: "rfc3339 off t = Some s \<Longrightarrow> list_all plain_char s"
proof -
  have p: "plain_char (CHR ''-'')" "plain_char (CHR ''T'')" "plain_char (CHR '':'')"
    by (simp_all add: plain_char_def html_char_def)
  show "rfc3339 off t = Some s \<Longrightarrow> ?thesis"
    by (auto simp: rfc3339_def Let_def dig_plain frac_plain zone_plain p split: prod.splits if_splits)
qed

lemma time_field_text:
  assumes "rfc3339 off t = Some s"
  shows "time_field upd (json_print P g d (JStr s)) (JStr x) a = (upd t a, True)"
  using parse_rfc3339_text [OF assms] plain_quote_body [OF rfc3339_plain [OF assms]]
  by (simp add: time_field_def json_string_def)

lemma decode_opt_time:
  assumes "find_field fs name = Some (time_field upd)" "repair name = name" "opt_time zn name e = Some ms"
  shows "decode_members fs (reread_members (\<lambda>_. []) [] d ms) a =
    (case e of None \<Rightarrow> a | Some t \<Rightarrow> if t = zero_time then a else upd t a, True)"
  using assms time_field_text
  by (auto simp: opt_time_def split: option.splits if_splits simp del: json_print.simps)

lemma opt_time_fits: "opt_time zn name e = Some ms \<Longrightarrow> fits_members k ms"
  by (auto simp: opt_time_def split: option.splits if_splits)

lemma token_field_names:
  "find_field token_fields ''access_token'' = Some (string_field (\<lambda>s t. t\<lparr>AccessToken := s\<rparr>))"
  "find_field token_fields ''refresh_token'' = Some (string_field (\<lambda>s t. t\<lparr>RefreshToken := s\<rparr>))"
  "find_field token_fields ''expiry'' =
     Some (time_field (\<lambda>e t. t\<lparr>Expiry := (if e = zero_time then None else Some e)\<rparr>))"
  "find_field token_fields ''issuer'' = Some (string_field (\<lambda>s t. t\<lparr>tk_Issuer := s\<rparr>))"
  "find_field token_fields ''client_id'' = Some (string_field (\<lambda>s t. t\<lparr>tk_ClientID := s\<rparr>))"
  "find_field token_fields ''scopes'' = Some (strings_field (\<lambda>ss t. t\<lparr>tk_Scopes := ss\<rparr>))"
  by (simp_all add: find_field_def token_fields_def)

lemma ascii_names:
  "repair ''access_token'' = ''access_token''" "repair ''refresh_token'' = ''refresh_token''"
  "repair ''expiry'' = ''expiry''" "repair ''issuer'' = ''issuer''" "repair ''client_id'' = ''client_id''"
  "repair ''scopes'' = ''scopes''" "repair ''redirect_uri'' = ''redirect_uri''"
  "repair ''registered_at'' = ''registered_at''"
  by (simp_all add: repair_ascii is_ascii_def)

lemma token_json_roundtrip:
  assumes "token_json zn t = Some j"
  shows "unmarshal token_fields (marshal j) empty_token = (kept_token t, True)"
proof -
  obtain ex where ex: "opt_time zn ''expiry'' (Expiry t) = Some ex"
      and j: "j = JObj ([(''access_token'', [], JStr (AccessToken t))] @ opt_string ''refresh_token'' (RefreshToken t) @
        ex @ opt_string ''issuer'' (tk_Issuer t) @ opt_string ''client_id'' (tk_ClientID t) @
        opt_strings ''scopes'' (tk_Scopes t))"
    using assms by (auto simp: token_json_def)
  have fits: "fits_members (max_nesting_depth - 1) ([(''access_token'', [], JStr (AccessToken t))] @
        opt_string ''refresh_token'' (RefreshToken t) @ ex @ opt_string ''issuer'' (tk_Issuer t) @
        opt_string ''client_id'' (tk_ClientID t) @ opt_strings ''scopes'' (tk_Scopes t))"
    using opt_time_fits [OF ex]
    by (simp add: fits_members_append opt_string_fits opt_strings_fits max_nesting_depth_def)
  note names = token_field_names ascii_names
  note ds = decode_string [OF names(1) names(7)]
    decode_opt_string [OF names(2) names(8)] decode_opt_time [OF names(3) names(9) ex]
    decode_opt_string [OF names(4) names(10)] decode_opt_string [OF names(5) names(11)]
    decode_opt_strings [OF names(6) names(12)]
  show ?thesis
    unfolding j decode_marshal [OF fits] reread_members_append decode_members_append ds
    by (cases t) (simp add: Let_def empty_token_def kept_token_def split: option.split)
qed

text \<open>What is loaded is in the form the store keeps.\<close>

lemma token_loads_utf8: "unmarshal token_fields data empty_token = (t, ok) \<Longrightarrow> utf8_token t"
proof -
  assume u: "unmarshal token_fields data empty_token = (t, ok)"
  have "utf8_token (fst (unmarshal token_fields data empty_token))"
  proof (rule unmarshal_keeps)
    fix name f raw v and a :: token
    assume "(name, f) \<in> set token_fields" "utf8_json v" "utf8_token a"
    then show "utf8_token (fst (f raw v a))"
      unfolding token_fields_def
      by (auto simp: utf8_token_def string_field_def time_field_def strings_field_def utf8_elems_iff list_all_iff
          string_elem_def split: json.splits option.splits if_splits) (metis utf8_json.simps(1))
  qed (simp add: utf8_token_def empty_token_def)
  with u show ?thesis by simp
qed

lemma load_kept: "FileStore_Load dir key w = Inr t \<Longrightarrow> kept_token t = t"
  by (auto simp: FileStore_Load_def Let_def dest: token_loads_utf8 intro!: kept_utf8
      split: sum.splits prod.splits if_splits)

lemma load_after_save: "FileStore_Save dir key t w = (None, w') \<Longrightarrow> FileStore_Load dir key w' = Inr (kept_token t)"
  by (auto simp: FileStore_Save_def FileStore_Load_def writeFileAtomic_def token_path_def
      dest!: read_written token_json_roundtrip split: option.splits)

section \<open>The round trip of a registration\<close>

definition kept_registration :: "registration \<Rightarrow> registration" where
  "kept_registration r =
     \<lparr>rg_ClientID = repair (rg_ClientID r), rg_Issuer = repair (rg_Issuer r), RedirectURI = repair (RedirectURI r),
      RegisteredAt = RegisteredAt r\<rparr>"

lemma registration_field_names:
  "find_field registration_fields ''client_id'' = Some (string_field (\<lambda>s r. r\<lparr>rg_ClientID := s\<rparr>))"
  "find_field registration_fields ''issuer'' = Some (string_field (\<lambda>s r. r\<lparr>rg_Issuer := s\<rparr>))"
  "find_field registration_fields ''redirect_uri'' = Some (string_field (\<lambda>s r. r\<lparr>RedirectURI := s\<rparr>))"
  "find_field registration_fields ''registered_at'' = Some (time_field (\<lambda>t r. r\<lparr>RegisteredAt := t\<rparr>))"
  by (simp_all add: find_field_def registration_fields_def)

lemma registration_json_roundtrip:
  assumes "registration_json zn r = Some j"
  shows "unmarshal registration_fields (marshal j) empty_registration = (kept_registration r, True)"
proof -
  obtain s where s: "rfc3339 (zn (RegisteredAt r)) (RegisteredAt r) = Some s"
      and j: "j = JObj [(''client_id'', [], JStr (rg_ClientID r)), (''issuer'', [], JStr (rg_Issuer r)),
        (''redirect_uri'', [], JStr (RedirectURI r)), (''registered_at'', [], JStr s)]"
    using assms by (auto simp: registration_json_def)
  have fits: "fits_members (max_nesting_depth - 1) [(''client_id'', [], JStr (rg_ClientID r)),
      (''issuer'', [], JStr (rg_Issuer r)), (''redirect_uri'', [], JStr (RedirectURI r)), (''registered_at'', [], JStr s)]"
    by (simp add: max_nesting_depth_def)
  show ?thesis unfolding j decode_marshal [OF fits]
    by (cases r) (simp add: time_field_text [OF s] ascii_names registration_field_names string_field_def empty_registration_def
        kept_registration_def del: json_print.simps)
qed

text \<open>a registration file reads back as the registration that was saved, with its time to the
  nanosecond in any zone; a file without a client id is refused, never taken for an identity.\<close>

theorem client_file_roundtrip:
  assumes "ClientStore_Save dir key r w = (None, w')"
  shows "ClientStore_Load dir key w' =
    (if repair (rg_ClientID r) = [] then Inl (corrupt_registration (token_path dir key)) else Inr (kept_registration r))"
  using assms
  by (auto simp: ClientStore_Save_def ClientStore_Load_def writeFileAtomic_def token_path_def
      dest!: read_written registration_json_roundtrip split: option.splits) (simp_all add: kept_registration_def)

section \<open>The contract of the token store\<close>

definition store_ok :: "path \<Rightarrow> 'z os_scheme \<Rightarrow> bool" where
  "store_ok dir w \<longleftrightarrow> tree_ok (nodes w) \<and> no_links dir (nodes w)"

lemma follow_unlinked: "no_links dir ns \<Longrightarrow> prefix dir p \<Longrightarrow> follow (Suc n) ns p = Some p"
  by (auto simp: no_links_def split: option.split node.split)

lemma read_unlinked:
  "no_links dir ns \<Longrightarrow> prefix dir p \<Longrightarrow>
     read_node ns p = (case ns p of None \<Rightarrow> Inl (absent ns p) | Some x \<Rightarrow> Inr x)"
  unfolding read_node_def by (simp only: follow_unlinked option.case)

lemma target_unlinked: "no_links dir ns \<Longrightarrow> prefix dir p \<Longrightarrow> write_target ns p = p"
  unfolding write_target_def eval_symlinks_def by (simp only: follow_unlinked option.case) simp

text \<open>A file that the operation leaves as it was, next to one it changes, reads as before.\<close>

lemma read_beside:
  assumes "no_links dir (nodes w)" "no_links dir (nodes w')" "nodes w' (dir @ [n]) = nodes w (dir @ [n])"
    "\<And>q. prefix q dir \<Longrightarrow> nodes w' q = nodes w q \<or> nodes w q = None \<and> is_dir (nodes w') q"
  shows "ReadFile (dir @ [n]) w' = ReadFile (dir @ [n]) w"
proof -
  have "is_file (nodes w') q = is_file (nodes w) q" if "prefix q dir" for q
    using assms(4) [OF that]
  proof
    assume "nodes w' q = nodes w q"
    then show ?thesis by (simp add: is_file_def)
  qed (auto simp: is_file_def is_dir_def split: option.splits node.splits)
  then have "absent (nodes w') (dir @ [n]) = absent (nodes w) (dir @ [n])"
    by (auto simp: absent_def prefixes_snoc list_ex_iff in_set_prefixes)
  then show ?thesis
    using assms(1-3) by (cases "nodes w (dir @ [n])") (simp_all add: ReadFile_def read_unlinked [where dir = dir])
qed

lemma key_files: "key' \<noteq> key \<Longrightarrow> token_path dir key' \<noteq> token_path dir key"
  by (simp add: token_path_def)

text \<open>The files of a store, named by a key and an extension, are not taken for temporary files.\<close>

lemma not_temp: "n' \<noteq> [] \<Longrightarrow> \<not> is_digit (last n') \<Longrightarrow> \<not> temp_name (dir @ [n]) (dir @ [n'])"
proof
  assume n': "n' \<noteq> []" "\<not> is_digit (last n')" and "temp_name (dir @ [n]) (dir @ [n'])"
  then obtain k where k: "n' = n @ ''.tmp-'' @ k" "list_all is_digit k" "k \<noteq> []"
    by (auto simp: temp_name_def base_name_def)
  then have "is_digit (last n')" by (simp add: list_all_iff)
  with n' show False by blast
qed

lemma extension_not_digit: "\<not> is_digit (last (key @ ''.json''))" "\<not> is_digit (last (key @ ''.enc''))"
  by (simp_all add: is_digit_def)

lemma write_in_dir:
  assumes "store_ok dir w" "Write (dir @ [n]) data m w = (r, w')"
  shows "no_links dir (nodes w)" "no_links dir (nodes w')"
    "nodes w' q \<noteq> nodes w q \<Longrightarrow> q = dir @ [n] \<and> r = None \<or>
      nodes w q = None \<and> prefix q dir \<and> is_dir (nodes w') q \<or> nodes w q = None \<and> r \<noteq> None \<and> temp_name (dir @ [n]) q"
proof -
  show links: "no_links dir (nodes w)" "no_links dir (nodes w')"
    using assms(1) plain.Write_keeps [OF assms(2)] by (simp_all add: store_ok_def)
  have t: "write_target (nodes w) (dir @ [n]) = dir @ [n]"
    by (rule target_unlinked [OF links(1)]) simp
  show "nodes w' q \<noteq> nodes w q \<Longrightarrow> q = dir @ [n] \<and> r = None \<or>
      nodes w q = None \<and> prefix q dir \<and> is_dir (nodes w') q \<or> nodes w q = None \<and> r \<noteq> None \<and> temp_name (dir @ [n]) q"
    using Write_changes [OF assms(2), unfolded t, of q] by simp
qed

lemma not_in_dir: "prefix q dir \<Longrightarrow> q \<noteq> dir @ [n] \<and> \<not> temp_name (dir @ [n]) q"
  using prefix_length_le [of q dir] by (auto simp: temp_name_def)

lemma write_elsewhere:
  assumes "store_ok dir w" "Write (dir @ [n]) data m w = (r, w')" "n' \<noteq> n \<or> r \<noteq> None" "n' \<noteq> []" "\<not> is_digit (last n')"
  shows "ReadFile (dir @ [n']) w' = ReadFile (dir @ [n']) w"
proof -
  note in_dir = write_in_dir [OF assms(1,2)]
  have "\<not> prefix (dir @ [n']) dir" by (auto dest: prefix_length_le)
  then have "nodes w' (dir @ [n']) = nodes w (dir @ [n'])"
    using in_dir(3) [of "dir @ [n']"] not_temp [OF assms(4,5), of dir n] assms(3) append1_eq_conv [of dir n' dir n] by blast
  moreover have "nodes w' q = nodes w q \<or> nodes w q = None \<and> is_dir (nodes w') q" if "prefix q dir" for q
    using in_dir(3) [of q] not_in_dir [OF that] by blast
  ultimately show ?thesis using in_dir(1,2) by (intro read_beside) auto
qed

lemma remove_changes:
  "sys_remove p w = (r, w') \<Longrightarrow> nodes w' = (if r = None then (nodes w)(p := None) else nodes w)"
  by (cases r) (auto simp: sys_remove_def dest!: sys_ok sys_fail)

lemma remove_beside:
  assumes "store_ok dir w" "sys_remove (dir @ [n]) w = (r, w')" "n' \<noteq> n"
  shows "ReadFile (dir @ [n']) w' = ReadFile (dir @ [n']) w"
proof -
  have links: "no_links dir (nodes w)" "no_links dir (nodes w')"
    using assms(1) plain.remove_keeps [OF assms(2)] by (simp_all add: store_ok_def)
  have "nodes w' q = nodes w q" if "q \<noteq> dir @ [n]" for q
    using remove_changes [OF assms(2)] that by simp
  moreover have "q \<noteq> dir @ [n]" if "prefix q dir" for q
    using prefix_length_le [OF that] by auto
  ultimately show ?thesis using links assms(3)
    by (intro read_beside) auto
qed

lemma ENOENT_cases:
  "IsNotExist ENOENT" "\<not> IsNotExist ENOTDIR" "\<not> IsNotExist ENOTEMPTY" "\<not> IsNotExist (Message m)"
  "IsNotExist (Wrap a e b) = IsNotExist e"
  by (simp_all add: IsNotExist_def ENOENT_def ENOTDIR_def ENOTEMPTY_def)

lemma absent_in_tree: "tree_ok ns \<Longrightarrow> ns p \<noteq> None \<Longrightarrow> absent (ns(p := None)) p = ENOENT"
proof (cases p rule: rev_cases)
  case (snoc xs x)
  assume ok: "tree_ok ns" "ns p \<noteq> None"
  have "\<not> is_file (ns(p := None)) q" if "prefix q xs" for q
  proof -
    have "strict_prefix q p" using that snoc by (auto simp: strict_prefix_def dest: prefix_length_le)
    with ok have "is_dir ns q" unfolding tree_ok_def by blast
    then show ?thesis by (auto simp: is_dir_def is_file_def split: option.splits node.splits)
  qed
  then show ?thesis by (auto simp: absent_def snoc prefixes_snoc list_ex_iff in_set_prefixes)
qed (simp add: absent_def)

lemma remove_read:
  assumes "store_ok dir w" "sys_remove (dir @ [n]) w = (r, w')" "r = None \<or> IsNotExist (the r)"
  shows "\<exists>e. ReadFile (dir @ [n]) w' = Inl e \<and> IsNotExist e"
proof -
  let ?p = "dir @ [n]"
  have links: "no_links dir (nodes w)" "no_links dir (nodes w')" and ok: "tree_ok (nodes w)"
    using assms(1) plain.remove_keeps [OF assms(2)] by (simp_all add: store_ok_def)
  have "nodes w' ?p = None \<and> absent (nodes w') ?p = ENOENT"
  proof (cases r)
    case None
    then have "nodes w ?p \<noteq> None" "nodes w' = (nodes w)(?p := None)"
      using assms(2) by (auto simp: sys_remove_def dest!: sys_ok split: if_splits)
    with absent_in_tree [OF ok] show ?thesis by simp
  next
    case (Some e)
    have "next_fault w = (f, v) \<Longrightarrow> nodes v = nodes w" for f v by (simp add: next_fault_same)
    with Some assms(2,3) show ?thesis
      by (auto simp: sys_remove_def sys_def ENOENT_cases absent_def split: prod.splits option.splits if_splits)
  qed
  then show ?thesis
    using read_unlinked [OF links(2), of ?p] by (simp add: ReadFile_def ENOENT_cases)
qed

lemma store_kept:
  "store_ok dir w \<Longrightarrow> Write p data m w = (r, w') \<Longrightarrow> store_ok dir w'"
  "store_ok dir w \<Longrightarrow> sys_remove p w = (r, w') \<Longrightarrow> store_ok dir w'"
  using tree.Write_keeps [of p data m w r w'] plain.Write_keeps [of p data m w r w' dir]
    tree.remove_keeps [of p w r w'] plain.remove_keeps [of p w r w' dir] by (simp_all add: store_ok_def)

lemma token_beside:
  assumes "store_ok dir w"
  shows "Write (token_path dir key) data m w = (r, w') \<Longrightarrow> key' \<noteq> key \<or> r \<noteq> None \<Longrightarrow>
      ReadFile (token_path dir key') w' = ReadFile (token_path dir key') w"
    "sys_remove (token_path dir key) w = (r, w') \<Longrightarrow> key' \<noteq> key \<Longrightarrow>
      ReadFile (token_path dir key') w' = ReadFile (token_path dir key') w"
  using write_elsewhere [OF assms, of "key @ ''.json''" data m r w' "key' @ ''.json''"] extension_not_digit(1)
    remove_beside [OF assms, of "key @ ''.json''" r w' "key' @ ''.json''"]
  by (simp_all add: token_path_def)

interpretation files: token_store "FileStore_Load dir" "FileStore_Save dir" "FileStore_Delete dir" kept_token "store_ok dir"
  for dir
proof
  fix key key' t and w w' :: "'z os_scheme" and r
  show "FileStore_Save dir key t w = (None, w') \<Longrightarrow> FileStore_Load dir key w' = Inr (kept_token t)"
    by (rule load_after_save)
  show "FileStore_Load dir key w = Inr t \<Longrightarrow> kept_token t = t" by (rule load_kept)
  assume ok: "store_ok dir w"
  show "FileStore_Delete dir key w = (None, w') \<Longrightarrow> FileStore_Load dir key w' = Inl ErrNotFound"
    by (auto simp: FileStore_Delete_def FileStore_Load_def token_path_def split: prod.splits option.splits if_splits
        dest!: remove_read [OF ok])
  show "FileStore_Save dir key t w = (r, w') \<Longrightarrow> key' \<noteq> key \<Longrightarrow> FileStore_Load dir key' w' = FileStore_Load dir key' w"
    by (auto simp: FileStore_Save_def FileStore_Load_def writeFileAtomic_def token_path_def [symmetric] token_beside [OF ok]
        split: option.splits)
  show "FileStore_Delete dir key w = (r, w') \<Longrightarrow> key' \<noteq> key \<Longrightarrow> FileStore_Load dir key' w' = FileStore_Load dir key' w"
    by (auto simp: FileStore_Delete_def FileStore_Load_def token_beside [OF ok] split: prod.splits option.splits if_splits)
  show "FileStore_Save dir key t w = (r, w') \<Longrightarrow> store_ok dir w'"
    using ok by (auto simp: FileStore_Save_def writeFileAtomic_def split: option.splits dest: store_kept)
  show "FileStore_Delete dir key w = (r, w') \<Longrightarrow> store_ok dir w'"
    using ok by (auto simp: FileStore_Delete_def split: prod.splits option.splits if_splits dest: store_kept)
qed

text \<open>A save that reports an error leaves the stored token as it was.\<close>

lemma save_failed:
  assumes "store_ok dir w" "FileStore_Save dir key t w = (Some e, w')"
  shows "FileStore_Load dir key w' = FileStore_Load dir key w"
  using assms(2)
  by (auto simp: FileStore_Save_def FileStore_Load_def writeFileAtomic_def token_path_def [symmetric]
      token_beside [OF assms(1)] split: option.splits)

text \<open>C11: a token file reads back as the token that was saved (its text made valid UTF-8), and a save
  that fails leaves the old token in place: the store never holds half a token.\<close>

theorem token_file_roundtrip:
  assumes "store_ok dir w" "FileStore_Save dir key t w = (r, w')"
  shows "FileStore_Load dir key w' = (if r = None then Inr (kept_token t) else FileStore_Load dir key w) \<and>
    (list_all valid_utf8 ([AccessToken t, RefreshToken t, tk_Issuer t, tk_ClientID t] @ tk_Scopes t) \<longrightarrow>
      kept_token t = t\<lparr>Expiry := Expiry (kept_token t)\<rparr>)"
proof -
  have "FileStore_Load dir key w' = (if r = None then Inr (kept_token t) else FileStore_Load dir key w)"
    using assms load_after_save [of dir key t w w'] save_failed [of dir w key t _ w'] by (cases r) auto
  then show ?thesis by (simp add: kept_token_def repair_valid list_all_iff map_idI)
qed

section \<open>A concrete disk\<close>

lemma empty_disk_ok: "store_ok dir empty_disk"
  by (auto simp: store_ok_def tree_ok_def no_links_def empty_disk_def strict_prefix_def split: if_splits)

lemma empty_disk_save:
  "Expiry t = None \<Longrightarrow> \<exists>w'. FileStore_Save [''t''] ''k'' t empty_disk = (None, w')"
proof -
  assume "Expiry t = None"
  then obtain j where j: "token_json (zone empty_disk) t = Some j" by (simp add: token_json_def opt_time_def)
  have "\<exists>w'. Write [''t'', ''k.json''] (marshal j) mode_0600 empty_disk = (None, w') \<and>
      ReadFile [''t'', ''k.json''] w' = Inr (marshal j)"
    by (rule write_quiet)
      (auto simp: empty_disk_target first_temp_def base_name_def, auto simp: empty_disk_def is_dir_def)
  then show ?thesis by (auto simp: FileStore_Save_def j writeFileAtomic_def)
qed

definition demo_registration :: registration where
  "demo_registration = \<lparr>rg_ClientID = ''c'', rg_Issuer = ''https://as'', RedirectURI = ''http://127.0.0.1:1/callback'', RegisteredAt = 946684800000000000\<rparr>"

lemma demo_time_text: "rfc3339 0 946684800000000000 \<noteq> None"
  by (simp add: rfc3339_def nano_day_def civil_def year_of.simps [of 2000 0] year_days_def leap_def
      Let_def split: prod.split)

theorem client_file_roundtrip_witness:
  "\<exists>w'. ClientStore_Save [''t''] ''k'' demo_registration empty_disk = (None, w') \<and>
    ClientStore_Load [''t''] ''k'' w' = Inr demo_registration"
proof -
  obtain j where j: "registration_json (zone empty_disk) demo_registration = Some j"
    using demo_time_text by (auto simp: registration_json_def demo_registration_def empty_disk_def)
  have "\<exists>w'. Write [''t'', ''k.json''] (marshal j) mode_0600 empty_disk = (None, w') \<and>
      ReadFile [''t'', ''k.json''] w' = Inr (marshal j)"
    by (rule write_quiet)
      (auto simp: empty_disk_target first_temp_def base_name_def, auto simp: empty_disk_def is_dir_def)
  then obtain w' where w': "ClientStore_Save [''t''] ''k'' demo_registration empty_disk = (None, w')"
    by (auto simp: ClientStore_Save_def j writeFileAtomic_def)
  from client_file_roundtrip [OF w'] w' show ?thesis
    by (simp add: demo_registration_def kept_registration_def repair_ascii is_ascii_def)
qed

theorem token_file_roundtrip_witness:
  "\<exists>w'. FileStore_Save [''t''] ''k'' demo_token empty_disk = (None, w') \<and>
    FileStore_Load [''t''] ''k'' w' = Inr demo_token"
proof -
  obtain w' where w': "FileStore_Save [''t''] ''k'' demo_token empty_disk = (None, w')"
    using empty_disk_save [of demo_token] by (auto simp: demo_token_def)
  with token_file_roundtrip [OF empty_disk_ok w'] show ?thesis
    by (simp add: kept_utf8 utf8_token_def demo_token_def valid_utf8_ascii)
qed

end
