(* ===== verification/Crypto.thy ===== *)
theory Crypto
  imports Registration
begin

text \<open>
  What the encrypted token store uses of the standard library: AES (\<open>crypto/aes\<close>) with keys of 16,
  24 and 32 bytes, GCM with a 12-byte nonce and a 16-byte tag (\<open>crypto/cipher\<close>), and standard
  base64 with padding (\<open>encoding/base64\<close>).  All of it computes; opening what was sealed and
  decoding what was encoded give the original back.
\<close>

unbundle bit_operations_syntax

type_synonym octet = "8 word"

definition to_octets :: "bytes \<Rightarrow> octet list" where
  "to_octets s = map of_char s"

definition of_octets :: "octet list \<Rightarrow> bytes" where
  "of_octets bs = map (\<lambda>b. char_of (unat b)) bs"

lemma char_octet [simp]: "char_of (unat (of_char c :: octet)) = c"
proof -
  have "(of_char c :: octet) = of_nat (of_char c)" by (simp add: of_nat_of_char)
  then have "unat (of_char c :: octet) = take_bit 8 (of_char c :: nat)" by (simp add: unsigned_of_nat)
  then have "unat (of_char c :: octet) = of_char c"
    using nat_of_char_less_256 [of c] by (simp add: take_bit_eq_mod)
  then show ?thesis by simp
qed

lemma of_to_octets [simp]: "of_octets (to_octets s) = s"
  by (simp add: of_octets_def to_octets_def comp_def)

lemma octet_char [simp]: "of_char (char_of (unat b)) = (b :: octet)"
proof -
  have "unat b < 256" using unsigned_less [of b, where ?'a = nat] by simp
  then have "of_char (char_of (unat b)) = (of_nat (unat b) :: octet)"
    using of_nat_of_char [of "char_of (unat b)", where ?'a = octet] by (simp add: take_bit_eq_mod)
  then show ?thesis by simp
qed

lemma to_of_octets [simp]: "to_octets (of_octets bs) = bs"
  by (simp add: of_octets_def to_octets_def comp_def)

lemma octets_append [simp]: "of_octets (a @ b) = of_octets a @ of_octets b" "to_octets (s @ t) = to_octets s @ to_octets t"
  by (simp_all add: of_octets_def to_octets_def)

lemma length_octets [simp]: "length (of_octets bs) = length bs" "length (to_octets s) = length s"
  by (simp_all add: of_octets_def to_octets_def)

section \<open>AES\<close>

definition xtime :: "octet \<Rightarrow> octet" where
  "xtime x = (if bit x 7 then push_bit 1 x XOR 0x1B else push_bit 1 x)"

definition gf_mul :: "octet \<Rightarrow> octet \<Rightarrow> octet" where
  "gf_mul a b = foldr (\<lambda>i acc. if bit b i then (xtime ^^ i) a XOR acc else acc) [0..<8] 0"

text \<open>The inverse in the field is the 254th power.\<close>

definition gf_inv :: "octet \<Rightarrow> octet" where
  "gf_inv x =
     (let sq = (\<lambda>y. gf_mul y y); x2 = sq x; x4 = sq x2; x8 = sq x4; x16 = sq x8; x32 = sq x16; x64 = sq x32; x128 = sq x64
      in gf_mul x2 (gf_mul x4 (gf_mul x8 (gf_mul x16 (gf_mul x32 (gf_mul x64 x128))))))"

definition sbox :: "octet \<Rightarrow> octet" where
  "sbox x =
     (let b = gf_inv x
      in b XOR word_rotl 1 b XOR word_rotl 2 b XOR word_rotl 3 b XOR word_rotl 4 b XOR 0x63)"

definition xor_bytes :: "octet list \<Rightarrow> octet list \<Rightarrow> octet list" where
  "xor_bytes a b = map (\<lambda>(x, y). x XOR y) (zip a b)"

text \<open>The key schedule, in words of four bytes.\<close>

fun expand_key :: "nat \<Rightarrow> nat \<Rightarrow> octet list list \<Rightarrow> octet list list" where
  "expand_key nk 0 ws = ws"
| "expand_key nk (Suc n) ws =
     (let i = length ws; t = last ws;
          t' = (if i mod nk = 0 then xor_bytes (map sbox (rotate1 t)) [(xtime ^^ (i div nk - 1)) 1, 0, 0, 0]
                else if 6 < nk \<and> i mod nk = 4 then map sbox t else t)
      in expand_key nk n (ws @ [xor_bytes (ws ! (i - nk)) t']))"

definition key_schedule :: "octet list \<Rightarrow> octet list list" where
  "key_schedule key = (let nk = length key div 4 in expand_key nk (3 * nk + 28) (chunks 4 nk key))"

definition shift_rows :: "octet list \<Rightarrow> octet list" where
  "shift_rows s = map (\<lambda>i. s ! ((i + 4 * (i mod 4)) mod 16)) [0..<16]"

definition mix_columns :: "octet list \<Rightarrow> octet list" where
  "mix_columns s =
     map (\<lambda>i. let c = 4 * (i div 4); at = (\<lambda>r. s ! (c + (i + r) mod 4))
          in gf_mul 2 (at 0) XOR gf_mul 3 (at 1) XOR at 2 XOR at 3) [0..<16]"

definition aes_block :: "octet list \<Rightarrow> octet list \<Rightarrow> octet list" where
  "aes_block key s =
     (let ws = key_schedule key; rounds = length key div 4 + 6;
          rk = (\<lambda>r. concat (take 4 (drop (4 * r) ws)));
          s1 = foldl (\<lambda>s r. xor_bytes (mix_columns (shift_rows (map sbox s))) (rk r)) (xor_bytes s (rk 0)) [1..<rounds]
      in xor_bytes (shift_rows (map sbox s1)) (rk rounds))"

section \<open>GCM\<close>

definition block_word :: "octet list \<Rightarrow> 128 word" where
  "block_word bs = foldl (\<lambda>a b. push_bit 8 a OR ucast b) 0 bs"

definition word_block :: "128 word \<Rightarrow> octet list" where
  "word_block x = map (\<lambda>i. ucast (drop_bit (8 * (15 - i)) x)) [0..<16]"

definition gf128_mul :: "128 word \<Rightarrow> 128 word \<Rightarrow> 128 word" where
  "gf128_mul x y =
     fst (foldl (\<lambda>(z, v) i.
        (if bit x (127 - i) then z XOR v else z,
         if bit v 0 then drop_bit 1 v XOR 0xE1000000000000000000000000000000 else drop_bit 1 v))
       (0, y) [0..<128])"

definition pad16 :: "octet list \<Rightarrow> octet list" where
  "pad16 bs = bs @ replicate ((16 - length bs mod 16) mod 16) 0"

definition ghash :: "128 word \<Rightarrow> octet list \<Rightarrow> 128 word" where
  "ghash h c =
     (let p = pad16 c;
          lens = of_nat (8 * length c) :: 128 word;
          y = foldl (\<lambda>y b. gf128_mul (y XOR block_word b) h) 0 (chunks 16 (length p div 16) p)
      in gf128_mul (y XOR lens) h)"

definition counter_block :: "octet list \<Rightarrow> nat \<Rightarrow> octet list" where
  "counter_block nonce n = nonce @ map (\<lambda>i. of_nat (n div 256 ^ i)) (rev [0..<4])"

text \<open>Byte \<open>i\<close> of the key stream comes from counter block \<open>2 + i div 16\<close>.\<close>

definition gcm_ctr :: "octet list \<Rightarrow> octet list \<Rightarrow> octet list \<Rightarrow> octet list" where
  "gcm_ctr key nonce bs =
     (let blocks = map (\<lambda>k. aes_block key (counter_block nonce (2 + k))) [0..<(length bs + 15) div 16]
      in map (\<lambda>i. bs ! i XOR blocks ! (i div 16) ! (i mod 16)) [0..<length bs])"

definition gcm_tag :: "octet list \<Rightarrow> octet list \<Rightarrow> octet list \<Rightarrow> octet list" where
  "gcm_tag key nonce c =
     (let h = block_word (aes_block key (replicate 16 0))
      in word_block (ghash h c XOR block_word (aes_block key (counter_block nonce 1))))"

definition gcm_seal :: "octet list \<Rightarrow> octet list \<Rightarrow> octet list \<Rightarrow> octet list" where
  "gcm_seal key nonce plain = (let c = gcm_ctr key nonce plain in c @ gcm_tag key nonce c)"

definition gcm_open :: "octet list \<Rightarrow> octet list \<Rightarrow> octet list \<Rightarrow> octet list option" where
  "gcm_open key nonce sealed =
     (if length sealed < 16 then None
      else
        let c = take (length sealed - 16) sealed
        in if drop (length sealed - 16) sealed \<noteq> gcm_tag key nonce c then None else Some (gcm_ctr key nonce c))"

lemma length_gcm_ctr [simp]: "length (gcm_ctr key nonce bs) = length bs"
  by (simp add: gcm_ctr_def Let_def)

lemma length_gcm_tag [simp]: "length (gcm_tag key nonce c) = 16"
  by (simp add: gcm_tag_def word_block_def Let_def)

lemma gcm_ctr_ctr: "gcm_ctr key nonce (gcm_ctr key nonce bs) = bs"
proof (rule nth_equalityI)
  fix i assume "i < length (gcm_ctr key nonce (gcm_ctr key nonce bs))"
  then have i: "i < length bs" by simp
  have nth: "gcm_ctr key nonce xs ! i = xs ! i XOR
      map (\<lambda>k. aes_block key (counter_block nonce (2 + k))) [0..<(length xs + 15) div 16] ! (i div 16) ! (i mod 16)"
    if "i < length xs" for xs using that by (simp add: gcm_ctr_def Let_def)
  show "gcm_ctr key nonce (gcm_ctr key nonce bs) ! i = bs ! i"
    using nth [of "gcm_ctr key nonce bs"] nth [of bs] i by (simp add: xor.assoc)
qed simp

lemma open_seal: "gcm_open key nonce (gcm_seal key nonce plain) = Some plain"
  by (simp add: gcm_open_def gcm_seal_def Let_def gcm_ctr_ctr)

section \<open>Base64\<close>

definition b64_alphabet :: bytes where
  "b64_alphabet = ''ABCDEFGHIJKLMNOPQRSTUVWXYZabcdefghijklmnopqrstuvwxyz0123456789+/''"

definition b64_char :: "nat \<Rightarrow> char" where
  "b64_char n = b64_alphabet ! (n mod 64)"

fun b64_encode :: "nat list \<Rightarrow> bytes" where
  "b64_encode [] = []"
| "b64_encode [a] = [b64_char (a div 4), b64_char (a mod 4 * 16), CHR ''='', CHR ''='']"
| "b64_encode [a, b] =
     [b64_char (a div 4), b64_char (a mod 4 * 16 + b div 16), b64_char (b mod 16 * 4), CHR ''='']"
| "b64_encode (a # b # c # r) =
     [b64_char (a div 4), b64_char (a mod 4 * 16 + b div 16), b64_char (b mod 16 * 4 + c div 64), b64_char (c mod 64)]
     @ b64_encode r"

fun index_of :: "'a \<Rightarrow> 'a list \<Rightarrow> nat option" where
  "index_of x [] = None"
| "index_of x (y # ys) = (if x = y then Some 0 else map_option Suc (index_of x ys))"

abbreviation b64_val :: "char \<Rightarrow> nat option" where "b64_val c \<equiv> index_of c b64_alphabet"

text \<open>\<open>DecodeString\<close> after line breaks are dropped: quanta of four characters, the last one padded.\<close>

fun b64_quanta :: "bytes \<Rightarrow> nat list option" where
  "b64_quanta [] = Some []"
| "b64_quanta (p # q # r # s # t) =
     (case (b64_val p, b64_val q) of
        (Some x, Some y) \<Rightarrow>
          (case (b64_val r, b64_val s) of
             (Some z, Some u) \<Rightarrow>
               map_option (\<lambda>bs. [x * 4 + y div 16, y mod 16 * 16 + z div 4, z mod 4 * 64 + u] @ bs) (b64_quanta t)
           | (Some z, None) \<Rightarrow>
               if s = CHR ''='' \<and> t = [] then Some [x * 4 + y div 16, y mod 16 * 16 + z div 4] else None
           | (None, _) \<Rightarrow>
               if r = CHR ''='' \<and> s = CHR ''='' \<and> t = [] then Some [x * 4 + y div 16] else None)
      | _ \<Rightarrow> None)"
| "b64_quanta _ = None"

definition b64_decode :: "bytes \<Rightarrow> nat list option" where
  "b64_decode s = b64_quanta (filter (\<lambda>c. c \<noteq> CR \<and> c \<noteq> LF) s)"

lemma b64_alphabet_facts: "length b64_alphabet = 64" "distinct b64_alphabet" "CHR ''='' \<notin> set b64_alphabet"
    "CR \<notin> set b64_alphabet" "LF \<notin> set b64_alphabet"
  by (simp_all add: b64_alphabet_def)

lemma index_of_nth: "distinct xs \<Longrightarrow> i < length xs \<Longrightarrow> index_of (xs ! i) xs = Some i"
  by (induction xs arbitrary: i) (auto simp: nth_Cons split: nat.splits)

lemma index_of_None: "x \<notin> set xs \<Longrightarrow> index_of x xs = None"
  by (induction xs) auto

lemma b64_val_char [simp]: "n < 64 \<Longrightarrow> b64_val (b64_char n) = Some n"
  using b64_alphabet_facts by (simp add: b64_char_def index_of_nth)

lemma b64_val_pad [simp]: "b64_val (CHR ''='') = None"
  using b64_alphabet_facts by (simp add: index_of_None)

lemma b64_char_in: "b64_char n \<in> set b64_alphabet"
  using b64_alphabet_facts(1) by (simp add: b64_char_def)

lemma b64_encode_chars: "c \<in> set (b64_encode bs) \<Longrightarrow> c \<noteq> CR \<and> c \<noteq> LF"
  using b64_alphabet_facts(4,5) b64_char_in by (induction bs rule: b64_encode.induct) (auto, metis+)

lemma sextets:
  fixes a b c :: nat
  assumes "a < 256" "b < 256" "c < 256"
  shows "a div 4 < 64" "b div 16 < 16" "c div 64 < 4" "a mod 4 * 16 + b div 16 < 64" "b mod 16 * 4 + c div 64 < 64"
proof -
  show h: "a div 4 < 64" "b div 16 < 16" "c div 64 < 4"
    using assms by (simp_all add: less_mult_imp_div_less)
  have "a mod 4 < 4" "b mod 16 < 16" by simp_all
  with h show "a mod 4 * 16 + b div 16 < 64" "b mod 16 * 4 + c div 64 < 64" by linarith+
qed

lemma b64_quanta_encode: "list_all (\<lambda>b. b < 256) bs \<Longrightarrow> b64_quanta (b64_encode bs) = Some bs"
proof (induction bs rule: b64_encode.induct)
  case (2 a)
  then show ?case using sextets [of a 0 0] by simp
next
  case (3 a b)
  then show ?case using sextets [of a b 0] by simp
next
  case (4 a b c r)
  then show ?case using sextets [of a b c] by simp
qed simp

lemma b64_decode_encode: "list_all (\<lambda>b. b < 256) bs \<Longrightarrow> b64_decode (b64_encode bs) = Some bs"
  using b64_encode_chars by (simp add: b64_decode_def filter_id_conv [THEN iffD2] b64_quanta_encode)

end
