(* ===== verification/Keychain.thy ===== *)
theory Keychain
  imports Store Crypto
begin

text \<open>
  The token store encrypted with a key from the OS keychain (\<open>pkg/oauth/keychain.go\<close>).  The
  keyring is a third-party package: its two functions on a keychain state are a parameter.
  \<open>crypto/rand\<close> takes its bytes from the machine's random source.
\<close>

record 'k keyring =
  kr_get :: "bytes \<Rightarrow> bytes \<Rightarrow> 'k \<Rightarrow> gerr + bytes"
  kr_set :: "bytes \<Rightarrow> bytes \<Rightarrow> bytes \<Rightarrow> 'k \<Rightarrow> gerr option \<times> 'k"

record 'k keyed = os +
  keys :: 'k

definition keyring_ErrNotFound :: gerr where
  "keyring_ErrNotFound = Sentinel ''secret not found in keyring''"

definition keychainService :: bytes where "keychainService = ''mcpurl''"
definition keychainAccount :: bytes where "keychainAccount = ''encryption-key''"

section \<open>The key and the cipher\<close>

definition rand_bytes :: "nat \<Rightarrow> 'z os_scheme \<Rightarrow> octet list \<times> 'z os_scheme" where
  "rand_bytes n w = (map (\<lambda>i. of_nat (random w (drawn w + i))) [0..<n], w\<lparr>drawn := drawn w + n\<rparr>)"

definition masterKey ::
  "'k keyring \<Rightarrow> bool \<Rightarrow> ('k, 'z) keyed_scheme \<Rightarrow> (gerr + octet list) \<times> ('k, 'z) keyed_scheme" where
  "masterKey kr create w =
     (case kr_get kr keychainService keychainAccount (keys w) of
        Inr v \<Rightarrow>
          (case b64_decode v of
             None \<Rightarrow> Inl (Message ''illegal base64 data'')
           | Some k \<Rightarrow> Inr (map of_nat k), w)
      | Inl e \<Rightarrow>
          if err_is e keyring_ErrNotFound \<and> create then
            (let (k, w1) = rand_bytes 32 w in
             case kr_set kr keychainService keychainAccount (b64_encode (map unat k)) (keys w1) of
               (Some e, ks) \<Rightarrow> (Inl e, w1\<lparr>keys := ks\<rparr>)
             | (None, ks) \<Rightarrow> (Inr k, w1\<lparr>keys := ks\<rparr>))
          else if err_is e keyring_ErrNotFound then (Inl ErrNotFound, w)
          else (Inl e, w))"

definition bad_key_size :: "octet list \<Rightarrow> gerr option" where
  "bad_key_size key =
     (if length key = 16 \<or> length key = 24 \<or> length key = 32 then None
      else Some (Message (''crypto/aes: invalid key size '' @ dec_nat (length key))))"

definition encrypt :: "octet list \<Rightarrow> bytes \<Rightarrow> 'z os_scheme \<Rightarrow> (gerr + bytes) \<times> 'z os_scheme" where
  "encrypt key plain w =
     (case bad_key_size key of
        Some e \<Rightarrow> (Inl e, w)
      | None \<Rightarrow>
          let (nonce, w1) = rand_bytes 12 w
          in (Inr (of_octets (nonce @ gcm_seal key nonce (to_octets plain))), w1))"

definition decrypt :: "octet list \<Rightarrow> bytes \<Rightarrow> gerr + bytes" where
  "decrypt key sealed =
     (case bad_key_size key of
        Some e \<Rightarrow> Inl e
      | None \<Rightarrow>
          if length sealed < 12 then Inl (Message ''ciphertext too short'')
          else
            (case gcm_open key (to_octets (take 12 sealed)) (to_octets (drop 12 sealed)) of
               None \<Rightarrow> Inl (Message ''cipher: message authentication failed'')
             | Some p \<Rightarrow> Inr (of_octets p)))"

lemma decrypt_encrypt: "encrypt key plain w = (Inr sealed, w') \<Longrightarrow> decrypt key sealed = Inr plain"
  by (auto simp: encrypt_def decrypt_def rand_bytes_def Let_def open_seal split: option.splits)

section \<open>The store\<close>

definition enc_path :: "path \<Rightarrow> bytes \<Rightarrow> path" where
  "enc_path dir key = dir @ [key @ ''.enc'']"

definition KeychainStore_Load ::
  "'k keyring \<Rightarrow> path \<Rightarrow> bytes \<Rightarrow> ('k, 'z) keyed_scheme \<Rightarrow> gerr + token" where
  "KeychainStore_Load kr dir key w =
     (case ReadFile (enc_path dir key) w of
        Inl e \<Rightarrow> Inl (if IsNotExist e then ErrNotFound else e)
      | Inr data \<Rightarrow>
          (case fst (masterKey kr False w) of
             Inl e \<Rightarrow> Inl (if err_is e ErrNotFound then ErrNotFound else e)
           | Inr mk \<Rightarrow>
               (case decrypt mk data of
                  Inl e \<Rightarrow>
                    Inl (Wrap (''cannot decrypt '' @ path_text (enc_path dir key) @ '' (keychain key changed?): '') e [])
                | Inr plain \<Rightarrow>
                    let (t, ok) = unmarshal token_fields plain empty_token in
                    if ok then Inr t else Inl json_error)))"

definition KeychainStore_Save ::
  "'k keyring \<Rightarrow> path \<Rightarrow> bytes \<Rightarrow> token \<Rightarrow> ('k, 'z) keyed_scheme \<Rightarrow> gerr option \<times> ('k, 'z) keyed_scheme" where
  "KeychainStore_Save kr dir key t w =
     (case masterKey kr True w of
        (Inl e, w1) \<Rightarrow> (Some (Wrap ''keychain: '' e []), w1)
      | (Inr mk, w1) \<Rightarrow>
          (case token_json (zone w1) t of
             None \<Rightarrow> (Some marshal_error, w1)
           | Some j \<Rightarrow>
               (case encrypt mk (marshal j) w1 of
                  (Inl e, w2) \<Rightarrow> (Some e, w2)
                | (Inr sealed, w2) \<Rightarrow> writeFileAtomic dir (key @ ''.enc'') sealed w2)))"

definition KeychainStore_Delete ::
  "path \<Rightarrow> bytes \<Rightarrow> 'z os_scheme \<Rightarrow> gerr option \<times> 'z os_scheme" where
  "KeychainStore_Delete dir key w =
     (case sys_remove (enc_path dir key) w of
        (Some e, w1) \<Rightarrow>
          (if IsNotExist e then None else Some (Wrap (''remove '' @ path_text (enc_path dir key) @ '': '') e []), w1)
      | (None, w1) \<Rightarrow> (None, w1))"

text \<open>The two implementations of the \<open>Store\<close> interface.\<close>

datatype store = PlainFiles path | EncryptedFiles path

definition NewStore :: "'k keyring \<Rightarrow> bool \<Rightarrow> ('k, 'z) keyed_scheme \<Rightarrow> store" where
  "NewStore kr noKeychain w =
     (if noKeychain \<or> GOOS w = ''windows'' then PlainFiles (TokensDir w)
      else
        case kr_get kr keychainService ''availability-probe'' (keys w) of
          Inl e \<Rightarrow> if err_is e keyring_ErrNotFound then EncryptedFiles (TokensDir w) else PlainFiles (TokensDir w)
        | Inr _ \<Rightarrow> EncryptedFiles (TokensDir w))"

definition Store_Load :: "'k keyring \<Rightarrow> store \<Rightarrow> bytes \<Rightarrow> ('k, 'z) keyed_scheme \<Rightarrow> gerr + token" where
  "Store_Load kr st = (case st of PlainFiles dir \<Rightarrow> FileStore_Load dir | EncryptedFiles dir \<Rightarrow> KeychainStore_Load kr dir)"

definition Store_Save ::
  "'k keyring \<Rightarrow> store \<Rightarrow> bytes \<Rightarrow> token \<Rightarrow> ('k, 'z) keyed_scheme \<Rightarrow> gerr option \<times> ('k, 'z) keyed_scheme" where
  "Store_Save kr st = (case st of PlainFiles dir \<Rightarrow> FileStore_Save dir | EncryptedFiles dir \<Rightarrow> KeychainStore_Save kr dir)"

definition Store_Delete ::
  "store \<Rightarrow> bytes \<Rightarrow> ('k, 'z) keyed_scheme \<Rightarrow> gerr option \<times> ('k, 'z) keyed_scheme" where
  "Store_Delete st = (case st of PlainFiles dir \<Rightarrow> FileStore_Delete dir | EncryptedFiles dir \<Rightarrow> KeychainStore_Delete dir)"

section \<open>The round trip through the keychain\<close>

text \<open>What \<open>keyring\<close> documents: a secret that was set is what is got.\<close>

definition keyring_law :: "'k keyring \<Rightarrow> bool" where
  "keyring_law kr \<longleftrightarrow> (\<forall>s a v k k'. kr_set kr s a v k = (None, k') \<longrightarrow> kr_get kr s a k' = Inr v)"

lemma same_keys: "same_machine w w' \<Longrightarrow> keys w' = keys w"
  by (cases w; cases w') (simp add: same_machine_def)

lemma keys_kept:
  "Write p data m w = (r, w') \<Longrightarrow> keys w' = keys w" "sys_remove p w = (r, w') \<Longrightarrow> keys w' = keys w"
  by (auto intro: same_keys Write_machine call_machine)

lemma rand_bytes_same: "rand_bytes n w = (k, w') \<Longrightarrow> nodes w' = nodes w \<and> same_machine w w' \<and> length k = n"
  by (auto simp: rand_bytes_def same_machine_def)

lemma encrypt_same: "encrypt key plain w = (r, w') \<Longrightarrow> nodes w' = nodes w \<and> same_machine w w'"
  by (auto simp: encrypt_def Let_def dest: rand_bytes_same split: option.splits prod.splits)

lemma octets_small: "list_all (\<lambda>b. b < 256) (map unat (k :: octet list))"
  using unsigned_less [where ?'b = 8 and ?'a = nat] by (simp add: list_all_iff)

text \<open>The key that encrypts is the key that will be found.\<close>

lemma masterKey_found:
  assumes "keyring_law kr" "masterKey kr True w = (Inr mk, w1)"
  shows "fst (masterKey kr False w1) = Inr mk \<and> nodes w1 = nodes w"
proof (cases "kr_get kr keychainService keychainAccount (keys w)")
  case (Inl e)
  then obtain k w0 ks where m: "rand_bytes 32 w = (k, w0)"
      "kr_set kr keychainService keychainAccount (b64_encode (map unat k)) (keys w0) = (None, ks)"
      "mk = k" "w1 = w0\<lparr>keys := ks\<rparr>"
    using assms(2) by (auto simp: masterKey_def Let_def split: if_splits prod.splits option.splits)
  have "kr_get kr keychainService keychainAccount ks = Inr (b64_encode (map unat k))"
    using assms(1) m(2) unfolding keyring_law_def by blast
  with m rand_bytes_same [OF m(1)] show ?thesis
    by (simp add: masterKey_def b64_decode_encode [OF octets_small] comp_def)
next
  case (Inr v)
  with assms(2) show ?thesis by (auto simp: masterKey_def)
qed

lemma keychain_saved:
  assumes "keyring_law kr" "KeychainStore_Save kr dir key t w = (None, w')"
  shows "KeychainStore_Load kr dir key w' = Inr (kept_token t)"
proof -
  obtain mk w1 j sealed w2 where m: "masterKey kr True w = (Inr mk, w1)" "token_json (zone w1) t = Some j"
      "encrypt mk (marshal j) w1 = (Inr sealed, w2)" "Write (enc_path dir key) sealed mode_0600 w2 = (None, w')"
    using assms(2)
    by (auto simp: KeychainStore_Save_def writeFileAtomic_def enc_path_def split: prod.splits sum.splits option.splits)
  have "keys w' = keys w1" using same_keys encrypt_same [OF m(3)] keys_kept(1) [OF m(4)] by metis
  then have "fst (masterKey kr False w') = Inr mk"
    using masterKey_found [OF assms(1) m(1)] by (simp add: masterKey_def split: sum.splits option.splits if_splits)
  then show ?thesis
    using read_written [OF m(4)] decrypt_encrypt [OF m(3)] token_json_roundtrip [OF m(2)]
    by (simp add: KeychainStore_Load_def)
qed

text \<open>C40: a token saved through the keychain reads back, under the key that was in the keychain or the
  one that was made for it.\<close>

theorem keychain_roundtrip:
  assumes "keyring_law kr" "KeychainStore_Save kr dir key t w = (None, w')"
  shows "KeychainStore_Load kr dir key w' = Inr (kept_token t)"
  using assms by (rule keychain_saved)

section \<open>The contract of the token store\<close>

text \<open>Intact means also that the key has not been taken out of the keychain.\<close>

definition vault_ok :: "'k keyring \<Rightarrow> path \<Rightarrow> ('k, 'z) keyed_scheme \<Rightarrow> bool" where
  "vault_ok kr dir w \<longleftrightarrow> store_ok dir w \<and> (\<exists>v. kr_get kr keychainService keychainAccount (keys w) = Inr v)"

lemma masterKey_stays: "vault_ok kr dir w \<Longrightarrow> masterKey kr c w = (r, w') \<Longrightarrow> w' = w"
  by (auto simp: vault_ok_def masterKey_def)

lemma masterKey_keys: "keys w' = keys w \<Longrightarrow> fst (masterKey kr False w') = fst (masterKey kr False w)"
  by (simp add: masterKey_def split: sum.split)

lemma vault_beside:
  assumes "store_ok dir w"
  shows "Write (enc_path dir key) data m w = (r, w') \<Longrightarrow> key' \<noteq> key \<Longrightarrow>
      ReadFile (enc_path dir key') w' = ReadFile (enc_path dir key') w"
    "sys_remove (enc_path dir key) w = (r, w') \<Longrightarrow> key' \<noteq> key \<Longrightarrow>
      ReadFile (enc_path dir key') w' = ReadFile (enc_path dir key') w"
  using write_elsewhere [OF assms, of "key @ ''.enc''" data m r w' "key' @ ''.enc''"] extension_not_digit(2)
    remove_beside [OF assms, of "key @ ''.enc''" r w' "key' @ ''.enc''"]
  by (simp_all add: enc_path_def)

lemma read_nodes: "nodes w' = nodes w \<Longrightarrow> ReadFile p w' = ReadFile p w"
  by (simp add: ReadFile_def)

lemma store_ok_nodes: "store_ok dir w \<Longrightarrow> nodes w' = nodes w \<Longrightarrow> store_ok dir w'"
  by (simp add: store_ok_def)

lemma load_alike:
  assumes "ReadFile (enc_path dir key) w' = ReadFile (enc_path dir key) w" "keys w' = keys w"
  shows "KeychainStore_Load kr dir key w' = KeychainStore_Load kr dir key w"
  unfolding KeychainStore_Load_def assms(1) masterKey_keys [OF assms(2)] ..

lemma vault_same: "vault_ok kr dir w \<Longrightarrow> nodes w' = nodes w \<Longrightarrow> same_machine w w' \<Longrightarrow> vault_ok kr dir w'"
  using same_keys [of w w'] by (simp add: vault_ok_def store_ok_def)

lemma vault_write: "vault_ok kr dir w \<Longrightarrow> Write p data m w = (r, w') \<Longrightarrow> vault_ok kr dir w'"
  using keys_kept(1) [of p data m w r w'] store_kept(1) [of dir w p data m r w'] by (simp add: vault_ok_def)

text \<open>A save first settles the key, then writes the file or gives up.\<close>

lemma keychain_save_steps:
  assumes "masterKey kr True w = (x, w1)" "KeychainStore_Save kr dir key t w = (r, w')"
  obtains "nodes w' = nodes w1" "same_machine w1 w'"
  | data v where "nodes v = nodes w1" "same_machine w1 v" "Write (enc_path dir key) data mode_0600 v = (r, w')"
proof -
  consider e where "x = Inl e" | mk where "x = Inr mk" "token_json (zone w1) t = None"
    | mk j where "x = Inr mk" "token_json (zone w1) t = Some j" by (cases x; cases "token_json (zone w1) t") auto
  then show ?thesis
  proof cases
    case (3 mk j)
    obtain s w2 where e: "encrypt mk (marshal j) w1 = (s, w2)" by (rule prod.exhaust)
    from encrypt_same [OF e] 3 assms e that show ?thesis
      by (cases s) (auto simp: KeychainStore_Save_def writeFileAtomic_def enc_path_def)
  qed (use assms that in \<open>auto simp: KeychainStore_Save_def\<close>)
qed

lemma vault_saved:
  assumes "vault_ok kr dir w" "KeychainStore_Save kr dir key t w = (r, w')"
  obtains "nodes w' = nodes w" "same_machine w w'"
  | data v where "nodes v = nodes w" "same_machine w v" "Write (enc_path dir key) data mode_0600 v = (r, w')"
proof -
  obtain x w1 where m: "masterKey kr True w = (x, w1)" by (rule prod.exhaust)
  with keychain_save_steps [OF m assms(2)] masterKey_stays [OF assms(1) m] that show ?thesis by blast
qed

lemma keychain_contract:
  assumes "keyring_law kr"
  shows "token_store (KeychainStore_Load kr dir) (KeychainStore_Save kr dir) (KeychainStore_Delete dir) kept_token
    (vault_ok kr dir)"
proof
  fix key key' t r and w w' :: "('a, 'b) keyed_scheme"
  show "KeychainStore_Save kr dir key t w = (None, w') \<Longrightarrow> KeychainStore_Load kr dir key w' = Inr (kept_token t)"
    using assms by (rule keychain_saved)
  show "KeychainStore_Load kr dir key w = Inr t \<Longrightarrow> kept_token t = t"
    by (auto simp: KeychainStore_Load_def Let_def dest: token_loads_utf8 intro!: kept_utf8
        split: sum.splits prod.splits if_splits)
  assume ok: "vault_ok kr dir w"
  then have st: "store_ok dir w" by (simp add: vault_ok_def)
  show "KeychainStore_Delete dir key w = (None, w') \<Longrightarrow> KeychainStore_Load kr dir key w' = Inl ErrNotFound"
    by (auto simp: KeychainStore_Delete_def KeychainStore_Load_def enc_path_def split: prod.splits option.splits if_splits
        dest!: remove_read [OF st])
  show "KeychainStore_Save kr dir key t w = (r, w') \<Longrightarrow> key' \<noteq> key \<Longrightarrow>
      KeychainStore_Load kr dir key' w' = KeychainStore_Load kr dir key' w"
  proof -
    assume sv: "KeychainStore_Save kr dir key t w = (r, w')" and ne: "key' \<noteq> key"
    show "KeychainStore_Load kr dir key' w' = KeychainStore_Load kr dir key' w"
    proof (rule vault_saved [OF ok sv])
      fix data v assume v: "nodes v = nodes w" "same_machine w v" "Write (enc_path dir key) data mode_0600 v = (r, w')"
      have "ReadFile (enc_path dir key') w' = ReadFile (enc_path dir key') v"
        by (rule vault_beside(1) [OF store_ok_nodes [OF st v(1)] v(3) ne])
      then show ?thesis
        using read_nodes [OF v(1)] same_keys [OF v(2)] keys_kept(1) [OF v(3)] by (intro load_alike) simp_all
    qed (intro load_alike read_nodes same_keys)
  qed
  show "KeychainStore_Delete dir key w = (r, w') \<Longrightarrow> key' \<noteq> key \<Longrightarrow>
      KeychainStore_Load kr dir key' w' = KeychainStore_Load kr dir key' w"
    by (auto simp: KeychainStore_Delete_def intro!: load_alike vault_beside(2) [OF st] keys_kept
        split: prod.splits option.splits if_splits)
  show "KeychainStore_Save kr dir key t w = (r, w') \<Longrightarrow> vault_ok kr dir w'"
    by (erule vault_saved [OF ok]) (blast intro: vault_same [OF ok] vault_write)+
  show "KeychainStore_Delete dir key w = (r, w') \<Longrightarrow> vault_ok kr dir w'"
    using ok by (auto simp: KeychainStore_Delete_def vault_ok_def keys_kept split: prod.splits option.splits if_splits
        dest: store_kept)
qed

section \<open>The token ladder on either store\<close>

definition on_store :: "'k keyring \<Rightarrow> store \<Rightarrow> path \<Rightarrow> ('k, 'z) keyed_scheme oauth_env \<Rightarrow> ('k, 'z) keyed_scheme oauth_env" where
  "on_store kr st clients env =
     env\<lparr>st_load := Store_Load kr st, st_save := Store_Save kr st, st_delete := Store_Delete st,
        cs_load := ClientStore_Load clients, cs_save := ClientStore_Save clients,
        cs_delete := ClientStore_Delete clients, oe_now := clock\<rparr>"

lemma store_contract:
  assumes "keyring_law kr"
  shows "\<exists>intact. token_store (Store_Load kr st) (Store_Save kr st) (Store_Delete st) kept_token intact"
proof (cases st)
  case (PlainFiles dir)
  then show ?thesis using files.token_store_axioms [of dir]
    by (intro exI [of _ "store_ok dir"]) (simp add: Store_Load_def Store_Save_def Store_Delete_def)
next
  case (EncryptedFiles dir)
  then show ?thesis using keychain_contract [OF assms, of dir]
    by (intro exI [of _ "vault_ok kr dir"]) (simp add: Store_Load_def Store_Save_def Store_Delete_def)
qed

text \<open>A load reads the tree and the keychain only.\<close>

lemma load_same: "nodes w' = nodes w \<Longrightarrow> keys w' = keys w \<Longrightarrow> Store_Load kr st key w' = Store_Load kr st key w"
  by (cases st) (simp_all add: Store_Load_def FileStore_Load_def read_nodes [of w' w] load_alike [of _ _ w' w])

text \<open>The plain store keeps the contract with every keyring; the ladder's facts hold of it as they stand.\<close>

interpretation plain_flow: stored_flow "on_store kr (PlainFiles dir) clients env" kept_token "store_ok dir"
  for kr dir clients env
  using files.token_store_axioms [of dir]
  by (simp add: stored_flow_def on_store_def Store_Load_def Store_Save_def Store_Delete_def)


section \<open>A key that is gone\<close>

lemma decrypt_error: "decrypt mk data = Inl e \<Longrightarrow> \<not> err_is e ErrNotFound"
  by (auto simp: decrypt_def bad_key_size_def Let_def split: if_splits option.splits)

lemma vault_write_beside:
  assumes "store_ok dir w" "KeychainStore_Save kr dir key t w = (r, w')" "key' \<noteq> key"
  shows "ReadFile (enc_path dir key') w' = ReadFile (enc_path dir key') w"
proof -
  have mk: "masterKey kr True w = (x, w1) \<Longrightarrow> nodes w1 = nodes w" for x w1
    by (auto simp: masterKey_def rand_bytes_def Let_def split: sum.splits option.splits prod.splits if_splits)
  obtain x w1 where m: "masterKey kr True w = (x, w1)" by (rule prod.exhaust)
  note n1 = mk [OF m]
  show ?thesis
  proof (rule keychain_save_steps [OF m assms(2)])
    assume "nodes w' = nodes w1"
    with n1 show ?thesis by (intro read_nodes) simp
  next
    fix data v assume v: "nodes v = nodes w1" "Write (enc_path dir key) data mode_0600 v = (r, w')"
    have "store_ok dir v" by (rule store_ok_nodes [OF assms(1)]) (simp add: v n1)
    from vault_beside(1) [OF this v(2) assms(3)] v(1) n1 show ?thesis by (simp add: read_nodes [of v w])
  qed
qed

text \<open>a key that vanished from the keychain logs every profile out, as intended: their files count
  as absent.  But the login of one profile then makes a new key, and from then on the file of any
  other profile is an error and no longer an absent token, so its next 401 does not lead to a login.\<close>

theorem lost_key_poisons_others:
  assumes "store_ok dir w" "kr_get kr keychainService keychainAccount (keys w) = Inl keyring_ErrNotFound"
    and "ReadFile (enc_path dir other) w = Inr data" "other \<noteq> key"
    and "KeychainStore_Save kr dir key t w = (None, w')"
    and "fst (masterKey kr False w') = Inr mk" "decrypt mk data = Inl e"
  shows "KeychainStore_Load kr dir other w = Inl ErrNotFound \<and>
    (\<exists>e. KeychainStore_Load kr dir other w' = Inl e \<and> \<not> err_is e ErrNotFound)"
proof -
  have "fst (masterKey kr False w) = Inl ErrNotFound"
    using assms(2) by (simp add: masterKey_def keyring_ErrNotFound_def)
  then have "KeychainStore_Load kr dir other w = Inl ErrNotFound"
    using assms(3) by (simp add: KeychainStore_Load_def)
  moreover have "ReadFile (enc_path dir other) w' = Inr data"
    using vault_write_beside [OF assms(1,5,4)] assms(3) by simp
  then have "\<exists>e. KeychainStore_Load kr dir other w' = Inl e \<and> \<not> err_is e ErrNotFound"
    using assms(6,7) decrypt_error [OF assms(7)] by (simp add: KeychainStore_Load_def)
  ultimately show ?thesis ..
qed

section \<open>A concrete keychain\<close>

text \<open>A keyring that is a map.\<close>

type_synonym memory = "bytes \<times> bytes \<Rightarrow> bytes option"

definition memory_keyring :: "memory keyring" where
  "memory_keyring =
     \<lparr>kr_get = (\<lambda>s a k. case k (s, a) of Some v \<Rightarrow> Inr v | None \<Rightarrow> Inl keyring_ErrNotFound),
      kr_set = (\<lambda>s a v k. (None, k((s, a) \<mapsto> v)))\<rparr>"

lemma memory_keyring_law: "keyring_law memory_keyring"
  by (simp add: keyring_law_def memory_keyring_def)

text \<open>A disk with the root only and an empty keychain.\<close>

definition keyed_disk :: "memory keyed" where
  "keyed_disk = os.extend empty_disk \<lparr>keys = Map.empty\<rparr>"

lemma keyed_disk_simps [simp]:
  "nodes keyed_disk = nodes empty_disk" "faults keyed_disk = []" "random keyed_disk = (\<lambda>n. n)" "drawn keyed_disk = 0"
  "keys keyed_disk = Map.empty" "zone keyed_disk = (\<lambda>_. 0)"
  by (simp_all add: keyed_disk_def empty_disk_def os.extend_def)

lemma keyed_disk_ok: "store_ok dir keyed_disk"
  using empty_disk_ok by (rule store_ok_nodes) simp

lemma demo_key: "\<exists>mk w. masterKey memory_keyring True keyed_disk = (Inr mk, w) \<and> length mk = 32 \<and>
   nodes w = nodes empty_disk \<and> faults w = [] \<and> zone w = (\<lambda>_. 0)"
  by (simp add: masterKey_def memory_keyring_def keyring_ErrNotFound_def rand_bytes_def Let_def)

lemma demo_write: "nodes w = nodes empty_disk \<Longrightarrow> faults w = [] \<Longrightarrow>
  \<exists>w'. Write [''t'', ''k.enc''] data mode_0600 w = (None, w')"
proof -
  assume n: "nodes w = nodes empty_disk" "faults w = []"
  have "\<exists>w'. Write [''t'', ''k.enc''] data mode_0600 w = (None, w') \<and> ReadFile [''t'', ''k.enc''] w' = Inr data"
    by (rule write_quiet)
      (auto simp: n empty_disk_target first_temp_def base_name_def, auto simp: empty_disk_def is_dir_def)
  then show ?thesis by blast
qed

lemma demo_saved:
  assumes "Expiry t = None"
  shows "\<exists>w'. KeychainStore_Save memory_keyring [''t''] ''k'' t keyed_disk = (None, w')"
proof -
  obtain mk w where m: "masterKey memory_keyring True keyed_disk = (Inr mk, w)" "length mk = 32"
      "nodes w = nodes empty_disk" "faults w = []" using demo_key by blast
  obtain j where j: "token_json (zone w) t = Some j" using assms by (simp add: token_json_def opt_time_def)
  obtain s w2 where e: "encrypt mk (marshal j) w = (Inr s, w2)" "nodes w2 = nodes empty_disk" "faults w2 = []"
    using m by (auto simp: encrypt_def bad_key_size_def rand_bytes_def Let_def)
  from demo_write [OF e(2,3)] m j e show ?thesis
    by (auto simp: KeychainStore_Save_def writeFileAtomic_def)
qed

theorem keychain_roundtrip_witness:
  "\<exists>w'. KeychainStore_Save memory_keyring [''t''] ''k'' demo_token keyed_disk = (None, w') \<and>
    KeychainStore_Load memory_keyring [''t''] ''k'' w' = Inr demo_token"
proof -
  obtain w' where w': "KeychainStore_Save memory_keyring [''t''] ''k'' demo_token keyed_disk = (None, w')"
    using demo_saved [of demo_token] by (auto simp: demo_token_def)
  with keychain_roundtrip [OF memory_keyring_law w'] show ?thesis
    by (simp add: kept_utf8 utf8_token_def demo_token_def valid_utf8_ascii)
qed

text \<open>The flow of \<open>demo_flow\<close> on this machine: its user logs in, and the token is in the store.\<close>

definition keyed_env :: "memory keyed oauth_env" where
  "keyed_env = \<lparr>oe_http = (\<lambda>_ w. (Inl (Message ''connection refused''), w)), st_load = (\<lambda>_ _. Inl ErrNotFound),
     st_save = (\<lambda>_ _ w. (None, w)), st_delete = (\<lambda>_ w. (None, w)), cs_load = (\<lambda>_ _. Inl ErrNotFound),
     cs_save = (\<lambda>_ _ w. (None, w)), cs_delete = (\<lambda>_ w. (None, w)), lk_acquire = (\<lambda>_ w. (None, w)),
     lk_release = (\<lambda>_ w. w), oe_now = clock, oe_login = (\<lambda>_ _ _ w. (Inr demo_token, w))\<rparr>"

lemma absent_enc: "nodes w = nodes empty_disk \<Longrightarrow> KeychainStore_Load kr [''t''] ''k'' w = Inl ErrNotFound"
proof -
  assume n: "nodes w = nodes empty_disk"
  have "ReadFile (enc_path [''t''] ''k'') w = Inl (Wrap (''open '' @ path_text (enc_path [''t''] ''k'') @ '': '') ENOENT [])"
    using empty_disk_ok [of "[]"] read_unlinked [of "[]" "nodes empty_disk" "enc_path [''t''] ''k''"]
    by (simp add: ReadFile_def store_ok_def n)
      (simp add: enc_path_def empty_disk_def is_file_def absent_def)
  then show ?thesis by (simp add: KeychainStore_Load_def ENOENT_cases)
qed

lemma demo_ladder:
  "\<exists>f' w'. obtain_token (on_store memory_keyring (EncryptedFiles [''t'']) [''c''] keyed_env) ''k'' ''https://mcp'' [] []
     demo_flow keyed_disk = (Inr ''new'', f', w')"
proof -
  define E where "E = on_store memory_keyring (EncryptedFiles [''t'']) [''c''] keyed_env"
  have E: "st_load E = KeychainStore_Load memory_keyring [''t'']" "st_save E = KeychainStore_Save memory_keyring [''t'']"
    "oe_login E = (\<lambda>_ _ _ w. (Inr demo_token, w))"
    by (simp_all add: E_def on_store_def keyed_env_def Store_Load_def Store_Save_def)
  have stored: "stored_token E ''k'' keyed_disk = Inr None"
    by (simp add: stored_token_def E absent_enc) (simp add: ErrNotFound_def)
  obtain w' where "KeychainStore_Save memory_keyring [''t''] ''k''
      (demo_token\<lparr>tk_Issuer := ''https://as'', tk_ClientID := ''c''\<rparr>) keyed_disk = (None, w')"
    using demo_saved [of "demo_token\<lparr>tk_Issuer := ''https://as'', tk_ClientID := ''c''\<rparr>"]
    by (auto simp: demo_token_def)
  then show ?thesis unfolding E_def [symmetric]
    by (simp add: obtain_token_def stored Fresh_def selfIssued_def demo_token_def discover_def demo_flow_def
        ensureClient_def foreignClient_def clientReplaced_def interactive_def loginAndSave_def clientID_def
        demo_server_def E Let_def)
qed


text \<open>A file of another profile is on the disk, and the keychain is empty.\<close>

definition keyless_disk :: "memory keyed" where
  "keyless_disk = keyed_disk\<lparr>nodes := (nodes keyed_disk)([''o.enc''] \<mapsto> File mode_0600 ''garbage'')\<rparr>"

lemma keyless_disk_ok: "store_ok [] keyless_disk"
  by (auto simp: store_ok_def tree_ok_def no_links_def keyless_disk_def empty_disk_def is_dir_def strict_prefix_def prefix_Cons
      split: if_splits)

lemma keyless_key: "\<exists>mk w. masterKey memory_keyring True keyless_disk = (Inr mk, w) \<and> length mk = 32 \<and>
   nodes w = nodes keyless_disk \<and> faults w = []"
  by (simp add: masterKey_def memory_keyring_def keyring_ErrNotFound_def rand_bytes_def keyless_disk_def Let_def)

theorem lost_key_poisons_others_witness:
  "\<exists>w'. KeychainStore_Save memory_keyring [] ''k'' demo_token keyless_disk = (None, w') \<and>
    KeychainStore_Load memory_keyring [] ''o'' keyless_disk = Inl ErrNotFound \<and>
    (\<exists>e. KeychainStore_Load memory_keyring [] ''o'' w' = Inl e \<and> \<not> err_is e ErrNotFound)"
proof -
  have lost: "kr_get memory_keyring keychainService keychainAccount (keys keyless_disk) = Inl keyring_ErrNotFound"
    by (simp add: memory_keyring_def keyless_disk_def)
  obtain mk w where m: "masterKey memory_keyring True keyless_disk = (Inr mk, w)" "length mk = 32"
      "nodes w = nodes keyless_disk" "faults w = []"
    using keyless_key by blast
  obtain j where j: "token_json (zone w) demo_token = Some j" by (simp add: token_json_def opt_time_def demo_token_def)
  obtain s w2 where e: "encrypt mk (marshal j) w = (Inr s, w2)" "nodes w2 = nodes keyless_disk" "faults w2 = []"
    using m by (auto simp: encrypt_def bad_key_size_def rand_bytes_def Let_def)
  have tg: "write_target (nodes keyless_disk) [''k.enc''] = [''k.enc'']"
    using keyless_disk_ok by (intro target_unlinked [of "[]"]) (simp_all add: store_ok_def)
  have "\<exists>w'. Write [''k.enc''] s mode_0600 w2 = (None, w') \<and> ReadFile [''k.enc''] w' = Inr s"
    by (rule write_quiet)
      (auto simp: e tg first_temp_def base_name_def,
       auto simp: keyless_disk_def empty_disk_def is_dir_def)
  then obtain w' where wr: "Write (enc_path [] ''k'') s mode_0600 w2 = (None, w')" by (auto simp: enc_path_def)
  have sv: "KeychainStore_Save memory_keyring [] ''k'' demo_token keyless_disk = (None, w')"
    using wr by (simp add: KeychainStore_Save_def m j e writeFileAtomic_def enc_path_def)
  have "keys w' = keys w" using same_keys encrypt_same [OF e(1)] keys_kept(1) [OF wr] by metis
  then have found: "fst (masterKey memory_keyring False w') = Inr mk"
    using masterKey_found [OF memory_keyring_law m(1)] masterKey_keys [of w' w] by metis
  have old: "ReadFile (enc_path [] ''o'') keyless_disk = Inr ''garbage''"
    using keyless_disk_ok read_unlinked [of "[]" "nodes keyless_disk" "[''o.enc'']"]
    by (simp add: ReadFile_def store_ok_def enc_path_def) (simp add: keyless_disk_def)
  have bad: "decrypt mk ''garbage'' = Inl (Message ''ciphertext too short'')"
    using m(2) by (simp add: decrypt_def bad_key_size_def)
  from lost_key_poisons_others [OF keyless_disk_ok lost old _ sv found bad] sv show ?thesis by simp
qed

end
