(* ===== verification/Maps.thy ===== *)
theory Maps
  imports Prelude "HOL-Library.Char_ord" "HOL-Library.List_Lexorder"
begin

text \<open>
  Go maps with string keys, as association lists in the byte order of the keys: \<open>slices.Sorted\<close>
  of the keys is the list of keys, and the iteration order Go leaves open is this one.
\<close>

fun mput :: "bytes \<Rightarrow> 'a \<Rightarrow> (bytes \<times> 'a) list \<Rightarrow> (bytes \<times> 'a) list" where
  "mput k v [] = [(k, v)]"
| "mput k v ((k', v') # m) =
     (if k < k' then (k, v) # (k', v') # m
      else if k = k' then (k, v) # m
      else (k', v') # mput k v m)"

definition mdel :: "bytes \<Rightarrow> (bytes \<times> 'a) list \<Rightarrow> (bytes \<times> 'a) list" where
  "mdel k m = filter (\<lambda>e. fst e \<noteq> k) m"

abbreviation mget :: "(bytes \<times> 'a) list \<Rightarrow> bytes \<Rightarrow> 'a option" where "mget \<equiv> map_of"
abbreviation mkeys :: "(bytes \<times> 'a) list \<Rightarrow> bytes list" where "mkeys \<equiv> map fst"

definition mwf :: "(bytes \<times> 'a) list \<Rightarrow> bool" where
  "mwf m \<longleftrightarrow> sorted_wrt (<) (mkeys m)"

section \<open>The interface of a map\<close>

text \<open>What a client relies on: look-up after an update, and that a map is its entries.\<close>

locale go_map =
  fixes get :: "'m \<Rightarrow> 'k \<Rightarrow> 'v option"
    and put :: "'k \<Rightarrow> 'v \<Rightarrow> 'm \<Rightarrow> 'm"
    and del :: "'k \<Rightarrow> 'm \<Rightarrow> 'm"
    and wf_map :: "'m \<Rightarrow> bool"
  assumes get_put: "get (put k v m) k' = (if k' = k then Some v else get m k')"
    and get_del: "get (del k m) k' = (if k' = k then None else get m k')"
    and wf_put: "wf_map m \<Longrightarrow> wf_map (put k v m)"
    and wf_del: "wf_map m \<Longrightarrow> wf_map (del k m)"
    and same_entries: "wf_map m \<Longrightarrow> wf_map n \<Longrightarrow> (\<And>k. get m k = get n k) \<Longrightarrow> m = n"
begin

lemma put_same: "wf_map m \<Longrightarrow> get m k = Some v \<Longrightarrow> put k v m = m"
  by (rule same_entries) (auto simp: get_put wf_put)

lemma put_put: "wf_map m \<Longrightarrow> put k v (put k u m) = put k v m"
  by (rule same_entries) (auto simp: get_put wf_put)

lemma del_put: "wf_map m \<Longrightarrow> del k (put k v m) = del k m"
  by (rule same_entries) (auto simp: get_put get_del wf_put wf_del)

lemma del_absent: "wf_map m \<Longrightarrow> get m k = None \<Longrightarrow> del k m = m"
  by (rule same_entries) (auto simp: get_del wf_del)

lemma put_del: "wf_map m \<Longrightarrow> get m k = Some v \<Longrightarrow> put k v (del k m) = m"
  by (rule same_entries) (auto simp: get_put get_del wf_put wf_del)

end

lemma mget_put: "mget (mput k v m) k' = (if k' = k then Some v else mget m k')"
  by (induction m) auto

lemma mget_del: "mget (mdel k m) k' = (if k' = k then None else mget m k')"
  by (induction m) (auto simp: mdel_def)

lemma mkeys_put: "set (mkeys (mput k v m)) = insert k (set (mkeys m))"
  by (induction k v m rule: mput.induct) (auto simp del: set_map)

lemma mwf_put: "mwf m \<Longrightarrow> mwf (mput k v m)"
proof (induction m)
  case (Cons e m)
  obtain k' v' where e: "e = (k', v')" by (rule prod.exhaust)
  have m: "mwf m" "\<forall>x \<in> set (mkeys m). k' < x" using Cons.prems by (auto simp: mwf_def e)
  consider "k < k'" | "k = k'" | "k' < k" by (rule linorder_cases)
  then show ?case
  proof cases
    case 1
    with Cons.prems m(2) show ?thesis by (auto simp: mwf_def e intro: less_trans)
  next
    case 2
    with Cons.prems show ?thesis by (simp add: mwf_def e)
  next
    case 3
    with Cons.IH [OF m(1)] m(2) mkeys_put [of k v m] show ?thesis by (auto simp: mwf_def e)
  qed
qed (simp add: mwf_def)

lemma mwf_del: "mwf m \<Longrightarrow> mwf (mdel k m)"
  by (induction m) (auto simp: mwf_def mdel_def)

lemma mwf_distinct: "mwf m \<Longrightarrow> distinct (mkeys m)"
  by (simp add: mwf_def strict_sorted_iff)

lemma map_from_keys: "mwf m \<Longrightarrow> map (\<lambda>k. (k, the (mget m k))) (mkeys m) = m"
proof -
  assume m: "mwf m"
  have "(fst e, the (mget m (fst e))) = e" if "e \<in> set m" for e
    using map_of_is_SomeI [OF mwf_distinct [OF m], of "fst e" "snd e"] that by simp
  then show ?thesis by (simp add: map_idI comp_def)
qed

lemma mwf_same:
  assumes "mwf m" "mwf n" "\<And>k. mget m k = mget n k"
  shows "m = n"
proof -
  have eq: "mget m = mget n" using assms(3) by (rule ext)
  have "set (mkeys m) = set (mkeys n)"
    using arg_cong [OF eq, of dom] by (simp add: dom_map_of_conv_image_fst)
  then have "mkeys m = mkeys n"
    using assms(1,2) by (simp add: mwf_def strict_sorted_equal)
  with eq map_from_keys [OF assms(1)] map_from_keys [OF assms(2)] show ?thesis by metis
qed

interpretation smap: go_map mget mput mdel mwf
  by unfold_locales (auto simp: mget_put mget_del mwf_put mwf_del intro: mwf_same)

definition mmap :: "(bytes \<times> 'a) list \<Rightarrow> (bytes \<times> 'a) list" where
  "mmap es = foldl (\<lambda>m (k, v). mput k v m) [] es"

lemma mwf_Nil [simp]: "mwf []"
  by (simp add: mwf_def)

lemma mwf_foldl: "mwf m \<Longrightarrow> mwf (foldl (\<lambda>m (k, v). mput k v m) m es)"
  by (induction es arbitrary: m) (auto simp: mwf_put)

lemma mwf_mmap [simp]: "mwf (mmap es)"
  by (simp add: mmap_def mwf_foldl)

end
