(* ===== verification/Profile.thy ===== *)
theory Profile
  imports Keychain Maps
begin

text \<open>
  Profiles (\<open>pkg/app/profile.go\<close>): \<open>config.toml\<close>, the resolution of a target, and the values taken
  from the environment.  The TOML decoder is a third-party package: what it makes of the
  \<open>profiles\<close> tables of a file is a parameter.
\<close>

record profile =
  pf_Name :: bytes
  URL :: bytes
  pf_ClientID :: bytes
  pf_CallbackPort :: int
  pf_Scopes :: "bytes list"
  pf_Issuer :: bytes
  BearerEnv :: bytes
  pf_Headers :: "(bytes \<times> bytes) list"

record config =
  Profiles :: "(bytes \<times> profile) list"
  cfg_Path :: bytes

definition empty_profile :: profile where
  "empty_profile = \<lparr>pf_Name = [], URL = [], pf_ClientID = [], pf_CallbackPort = 0, pf_Scopes = [], pf_Issuer = [],
     BearerEnv = [], pf_Headers = []\<rparr>"

section \<open>The file\<close>

text \<open>A path given as text, as a system call takes it.\<close>

definition os_path :: "'z os_scheme \<Rightarrow> bytes \<Rightarrow> path" where
  "os_path w p = abs_path (cwd w) p"

definition home_file :: "'z os_scheme \<Rightarrow> bytes \<Rightarrow> bytes list \<Rightarrow> bytes" where
  "home_file w home names = path_text (abs_path (cwd w) home @ names)"

definition DefaultPath :: "'z os_scheme \<Rightarrow> bytes" where
  "DefaultPath w =
     (if getenv w ''MCPURL_CONFIG'' \<noteq> [] then getenv w ''MCPURL_CONFIG''
      else
        case UserHomeDir w of
          Inl _ \<Rightarrow> ''config.toml''
        | Inr home \<Rightarrow> home_file w home [''.config'', ''mcpurl'', ''config.toml''])"

type_synonym toml_decoder = "bytes \<Rightarrow> gerr + (bytes \<times> profile) list"

definition named_profiles :: "(bytes \<times> profile) list \<Rightarrow> (bytes \<times> profile) list" where
  "named_profiles ps = mmap (map (\<lambda>(n, p). (n, p\<lparr>pf_Name := n\<rparr>)) ps)"

definition Load :: "toml_decoder \<Rightarrow> bytes \<Rightarrow> 'z os_scheme \<Rightarrow> gerr + config" where
  "Load toml path0 w =
     (let path = (if path0 = [] then DefaultPath w else path0) in
      case ReadFile (os_path w path) w of
        Inl e \<Rightarrow>
          if IsNotExist e then Inr \<lparr>Profiles = [], cfg_Path = path\<rparr>
          else Inl (Wrap (''reading '' @ path @ '': '') e [])
      | Inr data \<Rightarrow>
          (case toml data of
             Inl e \<Rightarrow> Inl (Wrap (''parsing '' @ path @ '': '') e [])
           | Inr ps \<Rightarrow> Inr \<lparr>Profiles = named_profiles ps, cfg_Path = path\<rparr>))"

definition Names :: "config \<Rightarrow> bytes list" where
  "Names cfg = mkeys (Profiles cfg)"

definition Get :: "config \<Rightarrow> bytes \<Rightarrow> gerr + profile" where
  "Get cfg name0 =
     (let name = trim_prefix name0 ''@'' in
      case mget (Profiles cfg) name of
        None \<Rightarrow> Inl (Message (go_quote name @ '' is not a profile in '' @ cfg_Path cfg @ '' (known: '' @
                  join '', '' (Names cfg) @ '')''))
      | Some p \<Rightarrow> Inr p)"

definition isHTTPURL :: "bytes \<Rightarrow> bool" where
  "isHTTPURL target =
     (case url_parse target of
        None \<Rightarrow> False
      | Some u \<Rightarrow> Host u \<noteq> [] \<and> (Scheme u = ''http'' \<or> Scheme u = ''https''))"

definition Resolve :: "config \<Rightarrow> bytes \<Rightarrow> gerr + profile" where
  "Resolve cfg target =
     (if isHTTPURL target then Inr (empty_profile\<lparr>URL := target\<rparr>)
      else if trim_prefix target ''@'' = [] then Inl (Message ''empty target: want a profile name or an http(s) URL'')
      else
        case Get cfg target of
          Inl e \<Rightarrow> Inl (Wrap [] e '' and not an http(s) URL'')
        | Inr p \<Rightarrow> if URL p = [] then Inl (Message (''profile '' @ go_quote (pf_Name p) @ '' has no url'')) else Inr p)"

section \<open>Values from the environment\<close>

definition special_var :: "char \<Rightarrow> bool" where
  "special_var c \<longleftrightarrow> is_digit c \<or> c \<in> set ''*#$@!?-''"

definition name_char :: "char \<Rightarrow> bool" where
  "name_char c \<longleftrightarrow> c = CHR ''_'' \<or> is_digit c \<or> is_letter c"

text \<open>\<open>os.getShellName\<close>: the name that starts a text, and how many bytes the reference takes.\<close>

definition shell_name :: "bytes \<Rightarrow> bytes \<times> nat" where
  "shell_name s =
     (if hd s = CHR ''{'' then
        if 2 < length s \<and> special_var (s ! 1) \<and> s ! 2 = CHR ''}'' then ([s ! 1], 3)
        else
          case cut_at (CHR ''}'') (tl s) of
            None \<Rightarrow> ([], 1)
          | Some (name, _) \<Rightarrow> (name, length name + 2)
      else if special_var (hd s) then ([hd s], 1)
      else let name = takeWhile name_char s in (name, length name))"

text \<open>\<open>os.Expand\<close> with the environment: a broken reference is dropped, a lone dollar sign stays.\<close>

function expand :: "(bytes \<Rightarrow> bytes) \<Rightarrow> bytes \<Rightarrow> bytes" where
  "expand env [] = []"
| "expand env (c # s) =
     (if c = CHR ''$'' \<and> s \<noteq> [] then
        (let (name, k) = shell_name s in
         if name = [] then (if k > 0 then expand env (drop k s) else c # expand env s)
         else env name @ expand env (drop k s))
      else c # expand env s)"
  by pat_completeness auto
termination by (relation "measure (\<lambda>(env, s). length s)") auto

definition ExpandEnv :: "'z os_scheme \<Rightarrow> bytes \<Rightarrow> bytes" where
  "ExpandEnv w s = expand (getenv w) s"

definition ExpandHeaders :: "'z os_scheme \<Rightarrow> (bytes \<times> bytes) list \<Rightarrow> (bytes \<times> bytes) list" where
  "ExpandHeaders w h = map (\<lambda>(k, v). (k, ExpandEnv w v)) h"

definition BearerFromEnv :: "'z os_scheme \<Rightarrow> bytes \<Rightarrow> bytes" where
  "BearerFromEnv w name =
     (if getenv w (''MY_'' @ name) \<noteq> [] then getenv w (''MY_'' @ name) else getenv w name)"

section \<open>The configuration\<close>

text \<open>The profiles are a map, and each carries the name it is found under.\<close>

definition config_ok :: "config \<Rightarrow> bool" where
  "config_ok cfg \<longleftrightarrow> mwf (Profiles cfg) \<and> (\<forall>n p. mget (Profiles cfg) n = Some p \<longrightarrow> pf_Name p = n)"

lemma mget_foldl_put:
  "mget (foldl (\<lambda>m (k, v). mput k v m) m es) n = Some p \<Longrightarrow> mget m n = Some p \<or> (n, p) \<in> set es"
proof (induction es arbitrary: m)
  case (Cons e es)
  obtain a b where "e = (a, b)" by (rule prod.exhaust)
  with Cons.IH [of "mput a b m"] Cons.prems show ?case by (auto simp: mget_put split: if_splits)
qed simp

lemma named_profiles_ok: "mget (named_profiles ps) n = Some p \<Longrightarrow> pf_Name p = n"
  by (auto simp: named_profiles_def mmap_def dest!: mget_foldl_put)

lemma load_ok: "Load toml path w = Inr cfg \<Longrightarrow> config_ok cfg"
  by (auto simp: Load_def Let_def config_ok_def named_profiles_def dest: named_profiles_ok [unfolded named_profiles_def]
      split: sum.splits if_splits)

lemma Get_named: "config_ok cfg \<Longrightarrow> Get cfg name = Inr p \<Longrightarrow> pf_Name p = trim_prefix name ''@''"
  by (auto simp: Get_def config_ok_def Let_def split: option.splits)

section \<open>Resolving a target\<close>

text \<open>A parse that starts without a scheme ends without one.\<close>

lemma set_path_scheme: "set_path p u = Some v \<Longrightarrow> Scheme v = Scheme u"
  by (auto simp: set_path_def split: option.splits)

lemma set_fragment_scheme: "set_fragment f u = Some v \<Longrightarrow> Scheme v = Scheme u"
  by (auto simp: set_fragment_def split: option.splits)

lemma parse_rest_scheme: "parse_rest u r = Some v \<Longrightarrow> Scheme v = Scheme u"
  by (auto simp: parse_rest_def Let_def bind_eq_Some_conv dest!: set_path_scheme split: if_splits)

lemma parse_no_fragment_at: "parse_no_fragment (CHR ''@'' # s) = Some u \<Longrightarrow> Scheme u = []"
proof -
  have "scheme_loop (CHR ''@'' # s) [] (CHR ''@'' # s) = Some ([], CHR ''@'' # s)"
    by (simp add: is_letter_def is_digit_def)
  then show "parse_no_fragment (CHR ''@'' # s) = Some u \<Longrightarrow> Scheme u = []"
    by (auto simp: parse_no_fragment_def Let_def empty_url_def simp del: scheme_loop.simps
        dest!: parse_rest_scheme split: if_splits option.splits prod.splits)
qed

lemma isHTTPURL_at: "\<not> isHTTPURL (CHR ''@'' # s)"
proof -
  have "Scheme u = []" if "url_parse (CHR ''@'' # s) = Some u" for u
  proof (cases "cut_at (CHR ''#'') (CHR ''@'' # s)")
    case None
    with that parse_no_fragment_at show ?thesis by (simp add: url_parse_def)
  next
    case (Some af)
    then obtain a frag where af: "cut_at (CHR ''#'') (CHR ''@'' # s) = Some (a, frag)" by (cases af) simp
    then have "CHR ''@'' # s = a @ CHR ''#'' # frag" by (simp add: cut_at_Some)
    then obtain a' where a: "a = CHR ''@'' # a'" by (cases a) auto
    have "Option.bind (parse_no_fragment a) (\<lambda>u. if frag = [] then Some u else set_fragment frag u) = Some u"
      using that by (simp only: url_parse_def af option.case prod.case)
    then obtain v where "parse_no_fragment a = Some v" "Scheme u = Scheme v"
      by (auto simp: bind_eq_Some_conv dest!: set_fragment_scheme split: if_splits)
    with a parse_no_fragment_at show ?thesis by metis
  qed
  then show ?thesis by (auto simp: isHTTPURL_def split: option.split)
qed

text \<open>The "@" of a profile name is a marker only: with it or without it a name that is no URL and
  does not itself start with "@" resolves to the same profile or the same error.\<close>

theorem target_marker_optional:
  assumes "\<not> isHTTPURL name" "\<not> prefix ''@'' name"
  shows "Resolve cfg (''@'' @ name) = Resolve cfg name"
  using assms isHTTPURL_at [of name] trim_prefix_append [of "''@''" name]
  by (simp add: Resolve_def Get_def trim_prefix_id)

theorem target_marker_optional_witness:
  "Resolve \<lparr>Profiles = [(''a'', empty_profile)], cfg_Path = ''c''\<rparr> ''@a'' = Inl (Message (''profile '' @ go_quote [] @ '' has no url''))"
proof -
  have n: "\<not> isHTTPURL ''a''" "\<not> prefix ''@'' ''a''" by code_simp+
  show ?thesis using target_marker_optional [OF n, of "\<lparr>Profiles = [(''a'', empty_profile)], cfg_Path = ''c''\<rparr>"] n(1)
    by (simp add: Resolve_def Get_def empty_profile_def trim_prefix_id)
qed

text \<open>C29: Whatever resolves has a URL: either the target itself, or a stored profile that carries the name
  it was asked for.\<close>

theorem resolved_profile:
  assumes "config_ok cfg" "Resolve cfg target = Inr p"
  shows "URL p \<noteq> [] \<and> (if pf_Name p = [] then p = empty_profile\<lparr>URL := target\<rparr> \<and> isHTTPURL target
    else mget (Profiles cfg) (pf_Name p) = Some p \<and> pf_Name p = trim_prefix target ''@'')"
proof (cases "isHTTPURL target")
  case True
  then have "target \<noteq> []" by (auto simp: isHTTPURL_def url_parse_def parse_no_fragment_def parse_rest_def set_path_def
        cut_at_def empty_url_def Let_def split: option.splits if_splits)
  with True assms show ?thesis by (auto simp: Resolve_def empty_profile_def)
next
  case False
  with assms show ?thesis
    by (auto simp: Resolve_def Get_def config_ok_def Let_def split: option.splits sum.splits if_splits)
qed

theorem resolved_profile_witness:
  "URL (empty_profile\<lparr>pf_Name := ''a'', URL := ''u''\<rparr>) \<noteq> [] \<and>
   mget [(''a'', empty_profile\<lparr>pf_Name := ''a'', URL := ''u''\<rparr>)] ''a'' = Some (empty_profile\<lparr>pf_Name := ''a'', URL := ''u''\<rparr>)"
proof -
  let ?p = "empty_profile\<lparr>pf_Name := ''a'', URL := ''u''\<rparr>" and ?c = "\<lparr>Profiles = [(''a'', empty_profile\<lparr>pf_Name := ''a'', URL := ''u''\<rparr>)], cfg_Path = ''c''\<rparr>"
  have n: "\<not> isHTTPURL ''@a''" by (rule isHTTPURL_at)
  have c: "config_ok ?c" by (simp add: config_ok_def mwf_def)
  have r: "Resolve ?c ''@a'' = Inr ?p" using n by (simp add: Resolve_def Get_def trim_prefix_def)
  show ?thesis using resolved_profile [OF c r] by simp
qed

end
