(* ===== verification/Bridge.thy ===== *)
theory Bridge
  imports Client JsonValue "HOL-Library.Word"
begin

text \<open>
  The stdio side (\<open>pkg/mcp/bridge.go\<close>): the handshake, sending with session re-initialisation
  and replay, the synthesized error answers and the main loop.  The bridge record extends the
  client it owns; standard output is the list of the flushed writes.  This theory runs one
  operation after the other; the interleaving of the concurrent sends is in \<open>Sessions\<close>.
\<close>

record bridge = client +
  initReq :: bytes
  initNote :: bytes
  reqProtocolVer :: bytes
  gen :: "64 word"
  sessioned :: bool
  initDone :: bool
  noteDone :: bool
  stdout :: "bytes list"

section \<open>What the bridge reads of a message\<close>

record rpc_meta =
  mt_ID :: bytes
  mt_Method :: bytes
  mt_ProtocolVersion :: bytes

definition no_meta :: rpc_meta where
  "no_meta = \<lparr>mt_ID = [], mt_Method = [], mt_ProtocolVersion = []\<rparr>"

definition meta_fields :: "(bytes \<times> rpc_meta setter) list" where
  "meta_fields =
     [(''id'', raw_field (\<lambda>r m. m\<lparr>mt_ID := r\<rparr>)),
      (''method'', string_field (\<lambda>s m. m\<lparr>mt_Method := s\<rparr>)),
      (''params'', struct_field [(''protocolVersion'', string_field (\<lambda>s m. m\<lparr>mt_ProtocolVersion := s\<rparr>))])]"

definition parse_meta :: "bytes \<Rightarrow> rpc_meta \<times> bool" where
  "parse_meta line = unmarshal meta_fields line no_meta"

text \<open>\<open>result.protocolVersion\<close> of a delivered message.\<close>

definition result_fields :: "(bytes \<times> bytes setter) list" where
  "result_fields =
     [(''result'', struct_field [(''protocolVersion'', string_field (\<lambda>s _. s))])]"

definition result_version :: "bytes \<Rightarrow> bytes" where
  "result_version msg = (let (v, ok) = unmarshal result_fields msg [] in if ok then v else [])"

definition bridge_set_protocol_version :: "bytes \<Rightarrow> bytes \<Rightarrow> 'a client_scheme \<Rightarrow> 'a client_scheme" where
  "bridge_set_protocol_version msg fallback c =
     (let v = result_version msg;
          v' = (if v = [] then fallback else v)
      in if v' \<noteq> [] then set_protocol_version v' c else c)"

section \<open>Standard output\<close>

definition write_out :: "bytes \<Rightarrow> 'a bridge_scheme \<Rightarrow> 'a bridge_scheme" where
  "write_out msg b = b\<lparr>stdout := stdout b @ [msg @ [LF]]\<rparr>"

text \<open>The \<open>json.Marshal\<close> of the error object: members in key order.\<close>

definition quoted :: "string \<Rightarrow> bytes" where
  "quoted s = [DQ] @ s @ [DQ]"

definition error_object :: "bytes \<Rightarrow> bytes \<Rightarrow> bytes option" where
  "error_object raw_id text = map_option (\<lambda>i.
     ''{'' @ quoted ''error'' @ '':{'' @ quoted ''code'' @ '':-32603,'' @ quoted ''message'' @ '':'' @
     json_string text @ ''},'' @ quoted ''id'' @ '':'' @ i @ '','' @ quoted ''jsonrpc'' @ '':'' @
     quoted ''2.0'' @ ''}'') (marshal_raw raw_id)"

definition is_request :: "rpc_meta \<Rightarrow> bool" where
  "is_request m \<longleftrightarrow> mt_Method m \<noteq> [] \<and> length (mt_ID m) > 0 \<and> mt_ID m \<noteq> ''null''"

definition synthesize_error ::
  "(bytes \<Rightarrow> bytes) \<Rightarrow> bytes \<Rightarrow> gerr \<Rightarrow> 'a bridge_scheme \<Rightarrow> 'a bridge_scheme" where
  "synthesize_error sniff msg cause b =
     (let (meta, ok) = parse_meta msg in
      if \<not> ok then b
      else if \<not> is_request meta then b
      else case error_object (mt_ID meta) (err_text sniff cause) of
             None \<Rightarrow> b
           | Some out \<Rightarrow> write_out out b)"

section \<open>Handshake\<close>

definition handle_initialize ::
  "(bytes \<Rightarrow> bytes) \<Rightarrow> 'w net \<Rightarrow> bytes \<Rightarrow> bytes \<Rightarrow> 'a bridge_scheme \<Rightarrow> 'w
     \<Rightarrow> gerr option \<times> 'a bridge_scheme \<times> 'w" where
  "handle_initialize sniff net line ver b w =
     (let b0 = b\<lparr>initReq := line, reqProtocolVer := ver\<rparr>;
          (err, b1, w1) = post net line (\<lambda>msg b. write_out msg (bridge_set_protocol_version msg ver b)) b0 w
      in case err of
           Some e \<Rightarrow>
             (let b2 = synthesize_error sniff line e b1 in
              if as_auth e then (Some e, b2, w1) else (Some (Wrap ''initialize: '' e []), b2, w1))
         | None \<Rightarrow> (None, b1\<lparr>sessioned := sessionID b1 \<noteq> []\<rparr>, w1))"

definition reinit ::
  "'w net \<Rightarrow> 64 word \<Rightarrow> 'a bridge_scheme \<Rightarrow> 'w \<Rightarrow> gerr option \<times> 'a bridge_scheme \<times> 'w" where
  "reinit net g b w =
     (if gen b \<noteq> g then (None, b, w)
      else
        let b0 = clear_session b in
        if length (initReq b0) = 0 then (Some (Message ''no cached initialize request''), b0, w)
        else
          let fallback = reqProtocolVer b0;
              (err, b1, w1) = post net (initReq b0) (\<lambda>msg b. bridge_set_protocol_version msg fallback b) b0 w
          in case err of
               Some e \<Rightarrow> (Some e, b1, w1)
             | None \<Rightarrow>
                 let (b2, w2) = (if length (initNote b1) > 0
                                 then snd (post net (initNote b1) (\<lambda>_ b. b) b1 w1) else (b1, w1))
                 in (None, b2\<lparr>gen := gen b2 + 1\<rparr>, w2))"

definition not_found :: "gerr \<Rightarrow> bool" where
  "not_found e = (case as_http e of Some (st, _) \<Rightarrow> st = 404 | None \<Rightarrow> False)"

definition send ::
  "(bytes \<Rightarrow> bytes) \<Rightarrow> 'w net \<Rightarrow> bytes \<Rightarrow> 'a bridge_scheme \<Rightarrow> 'w \<Rightarrow> 'a bridge_scheme \<times> 'w" where
  "send sniff net msg b w =
     (let g = gen b;
          (err, b1, w1) = post net msg write_out b w
      in case err of
           None \<Rightarrow> (b1, w1)
         | Some e \<Rightarrow>
             if not_found e \<and> sessioned b1 then
               (let (rerr, b2, w2) = reinit net g b1 w1 in
                case rerr of
                  Some _ \<Rightarrow> (synthesize_error sniff msg e b2, w2)
                | None \<Rightarrow>
                    let (err2, b3, w3) = post net msg write_out b2 w2 in
                    case err2 of
                      None \<Rightarrow> (b3, w3)
                    | Some e2 \<Rightarrow> (synthesize_error sniff msg e2 b3, w3))
             else (synthesize_error sniff msg e b1, w1))"

definition serial_phase ::
  "(bytes \<Rightarrow> bytes) \<Rightarrow> 'w net \<Rightarrow> bytes \<Rightarrow> 'a bridge_scheme \<Rightarrow> 'w
     \<Rightarrow> (gerr + bool) \<times> 'a bridge_scheme \<times> 'w" where
  "serial_phase sniff net line b w =
     (let meta = fst (parse_meta line) in
      if mt_Method meta = ''initialize'' then
        (case handle_initialize sniff net line (mt_ProtocolVersion meta) b w of
           (Some e, b1, w1) \<Rightarrow> (Inl e, b1, w1)
         | (None, b1, w1) \<Rightarrow>
             let b2 = b1\<lparr>initDone := True\<rparr> in (Inr (initDone b2 \<and> noteDone b2), b2, w1))
      else if mt_Method meta = ''notifications/initialized'' then
        (let (_, b1, w1) = post net line write_out (b\<lparr>initNote := line\<rparr>) w;
             b2 = b1\<lparr>noteDone := True\<rparr>
         in (Inr (initDone b2 \<and> noteDone b2), b2, w1))
      else
        (let (b1, w1) = send sniff net line b w in (Inr (initDone b1 \<and> noteDone b1), b1, w1)))"

section \<open>The main loop\<close>

text \<open>\<open>readLine\<close> (the line, whether the input ended, what follows) and \<open>readLines\<close>: the trimmed lines of
  standard input, an unterminated last one included, without the empty ones.\<close>

definition readLine :: "bytes \<Rightarrow> bytes \<times> bool \<times> bytes" where
  "readLine s =
     (case cut_at LF s of
        Some (a, b) \<Rightarrow> (trim_space (a @ [LF]), False, b)
      | None \<Rightarrow> (trim_space s, True, []))"

lemma readLine_shorter: "readLine s = (line, False, r) \<Longrightarrow> length r < length s"
  by (auto simp: readLine_def split: option.splits dest!: cut_at_Some)

function readLines :: "bytes \<Rightarrow> bytes list" where
  "readLines s =
     (case readLine s of
        (line, ended, r) \<Rightarrow> (if length line > 0 then [line] else []) @ (if ended then [] else readLines r))"
  by pat_completeness auto
termination by (relation "measure length") (auto dest: readLine_shorter [OF sym])

declare readLines.simps [simp del]

lemma readLines_split: "readLines s = filter (\<lambda>l. length l > 0) (map trim_space (split_after LF s))"
proof (induction s rule: readLines.induct)
  case (1 s)
  show ?case
  proof (cases "cut_at LF s")
    case None
    then have "LF \<notin> set s" by (simp add: cut_at_None)
    with None show ?thesis by (simp add: readLines.simps [of s] readLine_def split_after_rest)
  next
    case (Some ab)
    obtain a b where ab: "ab = (a, b)" by (rule prod.exhaust)
    have s: "s = a @ LF # b" "LF \<notin> set a" using cut_at_Some [of LF s] Some ab by auto
    have r: "readLine s = (trim_space (a @ [LF]), False, b)" using Some ab by (simp add: readLine_def)
    have "readLines b = filter (\<lambda>l. length l > 0) (map trim_space (split_after LF b))"
      using 1 [OF r [symmetric] refl] by simp
    then show ?thesis
      by (simp add: readLines.simps [of s] r) (simp add: s split_after_line)
  qed
qed

fun run_loop ::
  "(bytes \<Rightarrow> bytes) \<Rightarrow> 'w net \<Rightarrow> bool \<Rightarrow> bytes list \<Rightarrow> 'a bridge_scheme \<Rightarrow> 'w
     \<Rightarrow> gerr option \<times> 'a bridge_scheme \<times> 'w" where
  "run_loop sniff net handshakeDone [] b w = (None, b, w)"
| "run_loop sniff net handshakeDone (line # ls) b w =
     (if handshakeDone then
        (let (b1, w1) = send sniff net line b w in run_loop sniff net True ls b1 w1)
      else
        (case serial_phase sniff net line b w of
           (Inl e, b1, w1) \<Rightarrow> (Some e, b1, w1)
         | (Inr done, b1, w1) \<Rightarrow> run_loop sniff net done ls b1 w1))"

text \<open>\<open>Run\<close> on an input that ends in \<open>read_err\<close> (\<open>None\<close>: end of file).\<close>

definition run ::
  "(bytes \<Rightarrow> bytes) \<Rightarrow> 'w net \<Rightarrow> bytes \<Rightarrow> gerr option \<Rightarrow> 'a bridge_scheme \<Rightarrow> 'w
     \<Rightarrow> gerr option \<times> 'a bridge_scheme \<times> 'w" where
  "run sniff net input read_err b w =
     (case run_loop sniff net False (readLines input) b w of
        (Some e, b1, w1) \<Rightarrow> (Some e, b1, w1)
      | (None, b1, w1) \<Rightarrow>
          (map_option (\<lambda>e. Wrap ''reading stdin: '' e []) read_err, b1, delete_session net b1 w1))"

definition new_bridge :: "client \<Rightarrow> bridge" where
  "new_bridge c = client.extend c \<lparr>initReq = [], initNote = [], reqProtocolVer = [], gen = 0,
     sessioned = False, initDone = False, noteDone = False, stdout = []\<rparr>"

section \<open>An answer is one line\<close>

lemma byte_hex_char: "n < 16 \<Longrightarrow> 48 \<le> (byte (hex_char n) :: nat)"
  by (simp add: hex_char_def)

lemma hex_char_LF: "n < 16 \<Longrightarrow> LF \<noteq> hex_char n"
  using byte_hex_char [of n] by (cases "hex_char n = LF") auto

lemma u_escape_no_LF: "n < 256 \<Longrightarrow> LF \<notin> set (u_escape n)"
  using hex_char_LF [of "n div 16"] hex_char_LF [of "n mod 16"] by (simp add: u_escape_def)

lemma quote_ascii_no_LF: "LF \<notin> set (quote_ascii c)"
  using u_escape_no_LF [of "byte c"] by (simp add: quote_ascii_def)

lemma second_ok_high: "second_ok b0 b1 \<Longrightarrow> 0x80 \<le> b1"
  by (auto split: if_splits)

lemma rune_high:
  "0x80 \<le> (byte c :: nat) \<Longrightarrow> list_all (\<lambda>d. 0x80 \<le> (byte d :: nat)) (take (rune_width (c # cs)) (c # cs))"
  using second_ok_high [of "byte c"]
  by (cases cs; cases "tl cs"; cases "tl (tl cs)")
    (simp_all add: cont_byte_def Let_def del: second_ok.simps)

lemma rune_no_LF:
  assumes "s \<noteq> []" "\<not> byte (hd s) < (0x80 :: nat)"
  shows "LF \<notin> set (take (rune_width s) s)"
proof
  assume "LF \<in> set (take (rune_width s) s)"
  moreover have "list_all (\<lambda>d. 0x80 \<le> (byte d :: nat)) (take (rune_width s) s)"
    using assms rune_high [of "hd s" "tl s"] by simp
  ultimately have "0x80 \<le> (byte LF :: nat)" unfolding list_all_iff by blast
  then show False by simp
qed

lemma quote_body_no_LF: "LF \<notin> set (quote_body s)"
proof (induction s rule: quote_body.induct)
  case (1 s)
  show ?case
  proof (cases "s = []")
    case False
    consider (ascii) "byte (hd s) < (0x80 :: nat)"
      | (junk) "\<not> byte (hd s) < (0x80 :: nat)" "rune_width s = 0"
      | (sep) "\<not> byte (hd s) < (0x80 :: nat)" "rune_width s \<noteq> 0" "line_sep s"
      | (rune) "\<not> byte (hd s) < (0x80 :: nat)" "rune_width s \<noteq> 0" "\<not> line_sep s" by blast
    then show ?thesis
    proof cases
      case ascii
      with False 1(1) show ?thesis by (simp add: quote_body.simps [of s] quote_ascii_no_LF)
    next
      case junk
      with False 1(2) show ?thesis by (simp add: quote_body.simps [of s])
    next
      case sep
      with False 1(3) show ?thesis
        using hex_char_LF [of "byte (s ! 2) mod 16"] by (simp add: quote_body.simps [of s])
    next
      case rune
      with False 1(4) show ?thesis
        by (simp add: quote_body.simps [of s] rune_no_LF)
    qed
  qed (simp add: quote_body.simps)
qed

lemma escape_html_no_LF: "LF \<notin> set s \<Longrightarrow> LF \<notin> set (escape_html s)"
proof (induction s rule: escape_html.induct)
  case (2 c cs)
  have "LF \<notin> set (drop 2 cs)" using 2(4) in_set_dropD [of LF 2 cs] by auto
  with 2 show ?case
    using u_escape_no_LF [of "byte c"] hex_char_LF [of "byte (cs ! 1) mod 16"] by simp
qed simp

lemma error_object_no_LF: "error_object i t = Some out \<Longrightarrow> LF \<notin> set out"
  using quote_body_no_LF [of t]
  by (auto simp: error_object_def marshal_raw_def json_string_def quoted_def escape_html_no_LF
      dest!: json_compact_no_LF)

section \<open>Invariants of a run\<close>

text \<open>What every operation of the bridge does to its record is a sequence of the elementary steps
  below; a predicate they all keep holds after a run.\<close>

locale bridge_invariant =
  fixes P :: "'a bridge_scheme \<Rightarrow> bool"
  assumes capture: "P b \<Longrightarrow> P (capture_session resp b)"
    and put: "LF \<notin> set m \<Longrightarrow> P b \<Longrightarrow> P (write_out m b)"
    and clear: "P b \<Longrightarrow> P (clear_session b)"
    and version: "P b \<Longrightarrow> P (set_protocol_version v b)"
    and cache: "P b \<Longrightarrow> P (b\<lparr>initReq := l, reqProtocolVer := v\<rparr>)" "P b \<Longrightarrow> P (b\<lparr>initNote := l\<rparr>)"
    and progress: "P b \<Longrightarrow> P (b\<lparr>sessioned := x\<rparr>)" "P b \<Longrightarrow> P (b\<lparr>initDone := x\<rparr>)"
      "P b \<Longrightarrow> P (b\<lparr>noteDone := x\<rparr>)" "P b \<Longrightarrow> P (b\<lparr>gen := g\<rparr>)"
begin

lemma put_framed: "framed m \<Longrightarrow> P b \<Longrightarrow> P (write_out m b)"
  by (simp add: framed_def put)

lemma negotiated: "P b \<Longrightarrow> P (bridge_set_protocol_version m fb b)"
  by (simp add: bridge_set_protocol_version_def Let_def version)

lemma posted:
  assumes "\<And>m b. framed m \<Longrightarrow> P b \<Longrightarrow> P (deliver m b)" "P b" "post net l deliver b w = (err, b', w')"
  shows "P b'"
  using post_invariant [of P b deliver net l w, OF assms(2) capture assms(1)] assms(3) by simp

lemmas posted_out = posted [where deliver = write_out, OF put_framed]

lemma synthesized: "P b \<Longrightarrow> P (synthesize_error sniff msg e b)"
  by (auto simp: synthesize_error_def Let_def put error_object_no_LF split: prod.split option.split)

lemma reinited:
  assumes "P b" "reinit net g b w = (err, b', w')"
  shows "P b'"
proof (cases "gen b \<noteq> g \<or> initReq (clear_session b) = []")
  case True
  with assms show ?thesis by (auto simp: reinit_def Let_def clear split: if_splits)
next
  case False
  let ?d = "\<lambda>m b. bridge_set_protocol_version m (reqProtocolVer (clear_session b)) b"
  obtain e b1 w1 where p: "post net (initReq (clear_session b))
      (\<lambda>m. bridge_set_protocol_version m (reqProtocolVer (clear_session b))) (clear_session b) w = (e, b1, w1)"
    by (rule prod_cases3)
  have b1: "P b1" by (rule posted [OF _ clear [OF assms(1)] p]) (rule negotiated)
  show ?thesis
  proof (cases e)
    case (Some x)
    with False p b1 assms(2) show ?thesis by (simp add: reinit_def Let_def)
  next
    case None
    obtain e2 b2 w2 where n: "post net (initNote b1) (\<lambda>_ b. b) b1 w1 = (e2, b2, w2)" by (rule prod_cases3)
    have "P b2" by (rule posted [OF _ b1 n])
    with None False p n b1 assms(2) show ?thesis
      by (auto simp: reinit_def Let_def progress split: if_splits)
  qed
qed

lemma sent:
  assumes "P b" "send sniff net msg b w = (b', w')"
  shows "P b'"
proof -
  obtain err b1 w1 where p: "post net msg write_out b w = (err, b1, w1)" by (rule prod_cases3)
  have b1: "P b1" by (rule posted_out [OF _ _ assms(1) p])
  show ?thesis
  proof (cases "\<exists>e. err = Some e \<and> not_found e \<and> sessioned b1")
    case False
    with p b1 assms(2) show ?thesis
      by (auto simp: send_def Let_def synthesized split: option.splits)
  next
    case True
    then obtain e where e: "err = Some e" "not_found e" "sessioned b1" by blast
    obtain rerr b2 w2 where r: "reinit net (gen b) b1 w1 = (rerr, b2, w2)" by (rule prod_cases3)
    have b2: "P b2" by (rule reinited [OF b1 r])
    obtain err2 b3 w3 where q: "post net msg write_out b2 w2 = (err2, b3, w3)" by (rule prod_cases3)
    have "P b3" by (rule posted_out [OF _ _ b2 q])
    with e p r q b2 assms(2) show ?thesis
      by (auto simp: send_def Let_def synthesized split: option.splits)
  qed
qed

lemma initialized:
  assumes "P b" "handle_initialize sniff net line v b w = (err, b', w')"
  shows "P b'"
proof -
  let ?b = "b\<lparr>initReq := line, reqProtocolVer := v\<rparr>"
  obtain e b1 w1 where p: "post net line (\<lambda>m b. write_out m (bridge_set_protocol_version m v b)) ?b w = (e, b1, w1)"
    by (rule prod_cases3)
  have "P b1" by (rule posted [OF _ cache(1) [OF assms(1)] p]) (rule put_framed, assumption, rule negotiated)
  with p have "P (fst (snd (handle_initialize sniff net line v b w)))"
    by (cases e) (simp_all add: handle_initialize_def Let_def synthesized progress)
  with assms(2) show ?thesis by simp
qed

lemma serial:
  assumes "P b" "serial_phase sniff net line b w = (r, b', w')"
  shows "P b'"
proof -
  let ?m = "fst (parse_meta line)"
  obtain e b1 w1 where i: "handle_initialize sniff net line (mt_ProtocolVersion ?m) b w = (e, b1, w1)"
    by (rule prod_cases3)
  obtain e2 b2 w2 where n: "post net line write_out (b\<lparr>initNote := line\<rparr>) w = (e2, b2, w2)" by (rule prod_cases3)
  obtain b3 w3 where s: "send sniff net line b w = (b3, w3)" by (rule prod.exhaust)
  have "P b1" by (rule initialized [OF assms(1) i])
  moreover have "P b2" by (rule posted_out [OF _ _ cache(2) [OF assms(1)] n])
  moreover have "P b3" by (rule sent [OF assms(1) s])
  ultimately have "P (fst (snd (serial_phase sniff net line b w)))"
    using i n s by (cases e) (simp_all add: serial_phase_def Let_def progress)
  with assms(2) show ?thesis by simp
qed

lemma looped: "P b \<Longrightarrow> P (fst (snd (run_loop sniff net hs ls b w)))"
proof (induction ls arbitrary: hs b w)
  case (Cons l ls)
  obtain b1 w1 where s: "send sniff net l b w = (b1, w1)" by (rule prod.exhaust)
  obtain r b2 w2 where p: "serial_phase sniff net l b w = (r, b2, w2)" by (rule prod_cases3)
  have "P b1" "P b2" using sent [OF Cons.prems s] serial [OF Cons.prems p] by blast+
  with Cons.IH s p show ?case by (cases r) simp_all
qed simp

lemma ran: "P b \<Longrightarrow> P (fst (snd (run sniff net input e b w)))"
  using looped [of b sniff net False "readLines input" w]
  by (cases "run_loop sniff net False (readLines input) b w"; cases "fst (run_loop sniff net False (readLines input) b w)")
    (auto simp: run_def)

end

text \<open>A flushed write is one line.\<close>

definition one_line :: "bytes \<Rightarrow> bool" where
  "one_line chunk \<longleftrightarrow> chunk \<noteq> [] \<and> last chunk = LF \<and> LF \<notin> set (butlast chunk)"

lemma capture_session_bridge [simp]: "stdout (capture_session resp b) = stdout b" "gen (capture_session resp b) = gen b"
  "initReq (capture_session resp b) = initReq b" "initNote (capture_session resp b) = initNote b"
  "sessioned (capture_session resp b) = sessioned b"
  by (simp_all add: capture_session_def Let_def)

interpretation framing: bridge_invariant "\<lambda>b. list_all one_line (stdout b)"
  by unfold_locales (simp_all add: write_out_def clear_session_def set_protocol_version_def one_line_def)

interpretation ids: bridge_invariant session_clean
  by (unfold_locales; (simp add: capture_session_clean clear_session_clean; fail)?)
    (simp_all add: session_clean_def write_out_def set_protocol_version_def)

interpretation config: bridge_invariant "\<lambda>b. Endpoint b = ep \<and> Headers b = hs" for ep hs
  by unfold_locales (simp_all add: write_out_def clear_session_def set_protocol_version_def
      capture_session_def Let_def)

text \<open>C2: after any run, whatever the server sends and however it fails, every write on standard
  output is exactly one line, the session id is visible ASCII (so it may go into a header) and
  the endpoint and the user's headers are the configured ones.\<close>

theorem run_output_framed:
  "let b = fst (snd (run sniff net input e (new_bridge c\<lparr>sessionID := []\<rparr>) w)) in
     list_all one_line (stdout b) \<and> list_all visible_ascii (sessionID b) \<and>
     Endpoint b = Endpoint c \<and> Headers b = Headers c"
proof -
  let ?b = "new_bridge c\<lparr>sessionID := []\<rparr>"
  have "list_all one_line (stdout ?b)" "session_clean ?b" "Endpoint ?b = Endpoint c \<and> Headers ?b = Headers c"
    by (simp_all add: new_bridge_def client.extend_def session_clean_def)
  from framing.ran [OF this(1), of sniff net input e w] ids.ran [OF this(2), of sniff net input e w]
    config.ran [OF this(3), of sniff net input e w]
  show ?thesis by (simp add: Let_def session_clean_def)
qed

section \<open>Session re-initialisation\<close>

text \<open>What is common to every POST of the bridge: the parts of the record it never touches.\<close>

definition same_handshake :: "'a bridge_scheme \<Rightarrow> 'a bridge_scheme \<Rightarrow> bool" where
  "same_handshake b b' \<longleftrightarrow> initReq b' = initReq b \<and> initNote b' = initNote b \<and> gen b' = gen b \<and>
     sessioned b' = sessioned b \<and> initDone b' = initDone b \<and> noteDone b' = noteDone b"

lemma same_handshake_refl [simp]: "same_handshake b b"
  by (simp add: same_handshake_def)

lemma capture_same_handshake [simp]: "same_handshake b (capture_session resp c) = same_handshake b c"
  by (simp add: same_handshake_def capture_session_def Let_def)

lemma bridge_version_same [simp]:
  "stdout (bridge_set_protocol_version m v b) = stdout b"
  "same_handshake b0 (bridge_set_protocol_version m v b) = same_handshake b0 b"
  by (simp_all add: bridge_set_protocol_version_def set_protocol_version_def same_handshake_def Let_def)

lemma write_out_same [simp]: "same_handshake b0 (write_out m b) = same_handshake b0 b"
  by (simp add: write_out_def same_handshake_def)

lemma post_same_handshake:
  assumes "\<And>m c. same_handshake b0 c \<Longrightarrow> same_handshake b0 (deliver m c)" "same_handshake b0 b"
    "post net l deliver b w = (err, b', w')"
  shows "same_handshake b0 b'"
  using post_invariant [of "same_handshake b0" b deliver net l w] assms by simp

lemma post_silent:
  assumes "\<And>m c. stdout (deliver m c) = stdout c" "post net l deliver b w = (err, b', w')"
  shows "stdout b' = stdout b"
  using post_invariant [of "\<lambda>c. stdout c = stdout b" b deliver net l w] assms by simp

lemma reinit_effect:
  assumes "reinit net g b w = (r, b', w')"
  shows "stdout b' = stdout b \<and>
    (if gen b \<noteq> g then r = None \<and> b' = b \<and> w' = w else gen b' = (if r = None then g + 1 else g))"
proof (cases "gen b \<noteq> g \<or> initReq b = []")
  case True
  with assms show ?thesis by (auto simp: reinit_def Let_def clear_session_def split: if_splits)
next
  case False
  let ?b = "clear_session b"
  obtain e b1 w1 where p: "post net (initReq ?b)
      (\<lambda>m. bridge_set_protocol_version m (reqProtocolVer ?b)) ?b w = (e, b1, w1)" by (rule prod_cases3)
  have b1: "same_handshake ?b b1" by (rule post_same_handshake [OF _ _ p]) simp_all
  have o1: "stdout b1 = stdout ?b" by (rule post_silent [OF _ p]) simp
  obtain e2 b2 w2 where n: "post net (initNote b1) (\<lambda>_ b. b) b1 w1 = (e2, b2, w2)" by (rule prod_cases3)
  have b2: "same_handshake b1 b2" by (rule post_same_handshake [OF _ _ n]) simp_all
  have o2: "stdout b2 = stdout b1" by (rule post_silent [OF _ n]) simp
  have c: "gen ?b = gen b" "stdout ?b = stdout b" "initReq ?b = initReq b" by (simp_all add: clear_session_def)
  have "reinit net g b w = (case e of Some x \<Rightarrow> (Some x, b1, w1)
      | None \<Rightarrow> let (b2, w2) = if initNote b1 \<noteq> [] then (b2, w2) else (b1, w1)
                in (None, b2\<lparr>gen := gen b2 + 1\<rparr>, w2))"
    using False p n c by (simp add: reinit_def Let_def split: option.split)
  then show ?thesis using assms False c b1 b2 o1 o2
    by (cases e; cases "initNote b1 = []") (auto simp: same_handshake_def)
qed

text \<open>C14: re-initialisation never writes to standard output (the answer to the internal
  \<open>initialize\<close> would repeat an id).  It only acts for the current generation, which a success
  advances by one and a failure leaves; so of several requests that failed in the same
  generation the first re-initialises and every later one finds it done: nothing is sent and
  nothing changes.\<close>

theorem reinit_once_per_generation:
  "let (r, b', w') = reinit net g b w in
     stdout b' = stdout b \<and>
     (if gen b \<noteq> g then r = None \<and> b' = b \<and> w' = w else gen b' = (if r = None then g + 1 else g)) \<and>
     (case r of Some _ \<Rightarrow> True | None \<Rightarrow> reinit net g b' w' = (None, b', w'))"
proof -
  obtain r b' w' where r: "reinit net g b w = (r, b', w')" by (rule prod_cases3)
  have "r = None \<longrightarrow> gen b' \<noteq> g"
    using reinit_effect [OF r] by (cases "gen b = g") auto
  then have "case r of Some _ \<Rightarrow> True | None \<Rightarrow> reinit net g b' w' = (None, b', w')"
    by (simp add: reinit_def split: option.split)
  with reinit_effect [OF r] show ?thesis by (simp add: r)
qed

section \<open>One answer per request\<close>

text \<open>The specification of \<open>send\<close>: one POST and, when the server has forgotten the session, one
  replay after a re-initialisation; the error that is left.\<close>

definition post_and_replay :: "'w net \<Rightarrow> bytes \<Rightarrow> 'a bridge_scheme \<Rightarrow> 'w \<Rightarrow> gerr option \<times> 'a bridge_scheme \<times> 'w" where
  "post_and_replay net msg b w =
     (case post net msg write_out b w of
        (Some e, b1, w1) \<Rightarrow>
          if not_found e \<and> sessioned b then
            (case reinit net (gen b) b1 w1 of
               (Some _, b2, w2) \<Rightarrow> (Some e, b2, w2)
             | (None, b2, w2) \<Rightarrow> post net msg write_out b2 w2)
          else (Some e, b1, w1)
      | res \<Rightarrow> res)"

definition answer :: "(bytes \<Rightarrow> bytes) \<Rightarrow> rpc_meta \<Rightarrow> gerr \<Rightarrow> bytes list" where
  "answer sniff m e = (if is_request m then
     (case error_object (mt_ID m) (err_text sniff e) of None \<Rightarrow> [] | Some out \<Rightarrow> [out @ [LF]]) else [])"

lemma synthesize_error_stdout:
  "parse_meta msg = (m, True) \<Longrightarrow> stdout (synthesize_error sniff msg e b) = stdout b @ answer sniff m e"
  by (simp add: synthesize_error_def answer_def write_out_def split: option.split)

lemma error_object_valid: "json_valid i \<Longrightarrow> error_object i t \<noteq> None"
  using json_compact_valid [of i] by (simp add: error_object_def marshal_raw_def)

lemma post_keeps_sessioned:
  assumes "post net msg write_out b w = (err, b1, w1)"
  shows "sessioned b1 = sessioned b"
proof -
  have "same_handshake b b1" by (rule post_same_handshake [OF _ _ assms]) simp_all
  then show ?thesis by (simp add: same_handshake_def)
qed

lemma send_attempt:
  "send sniff net msg b w = (case post_and_replay net msg b w of
     (None, b', w') \<Rightarrow> (b', w') | (Some e, b', w') \<Rightarrow> (synthesize_error sniff msg e b', w'))"
proof -
  obtain err b1 w1 where p: "post net msg write_out b w = (err, b1, w1)" by (rule prod_cases3)
  obtain rerr b2 w2 where r: "reinit net (gen b) b1 w1 = (rerr, b2, w2)" by (rule prod_cases3)
  obtain err2 b3 w3 where q: "post net msg write_out b2 w2 = (err2, b3, w3)" by (rule prod_cases3)
  show ?thesis
    using p r q post_keeps_sessioned [OF p]
    by (cases err; cases rerr; cases err2) (simp_all add: send_def post_and_replay_def Let_def)
qed

lemma fold_write_out: "stdout (fold write_out ms b) = stdout b @ map (\<lambda>m. m @ [LF]) ms"
  by (induction ms arbitrary: b) (simp_all add: write_out_def)

lemma post_stdout:
  "\<exists>ms. list_all framed ms \<and> stdout (fst (snd (post net msg write_out b w))) = stdout b @ map (\<lambda>m. m @ [LF]) ms"
proof (cases "do_authed net (Endpoint b) (build_post net b msg) w")
  case (Pair r w1)
  show ?thesis
  proof (cases r)
    case (Inl e)
    with Pair show ?thesis by (intro exI [of _ "[]"]) (simp add: post_def)
  next
    case (Inr resp)
    with Pair show ?thesis
      by (intro exI [of _ "post_messages resp"])
        (simp add: post_def consume_post_spec fold_write_out post_messages_framed)
  qed
qed

lemma attempt_stdout:
  "\<exists>ms. list_all framed ms \<and> stdout (fst (snd (post_and_replay net msg b w))) = stdout b @ map (\<lambda>m. m @ [LF]) ms"
proof -
  obtain err b1 w1 where p: "post net msg write_out b w = (err, b1, w1)" by (rule prod_cases3)
  obtain rerr b2 w2 where r: "reinit net (gen b) b1 w1 = (rerr, b2, w2)" by (rule prod_cases3)
  obtain ms where ms: "list_all framed ms" "stdout b1 = stdout b @ map (\<lambda>m. m @ [LF]) ms"
    using post_stdout [of net msg b w] p by auto
  obtain ms2 where ms2: "list_all framed ms2"
      "stdout (fst (snd (post net msg write_out b2 w2))) = stdout b2 @ map (\<lambda>m. m @ [LF]) ms2"
    using post_stdout [of net msg b2 w2] by auto
  have o: "stdout b2 = stdout b1" using reinit_effect [OF r] by simp
  show ?thesis
  proof (cases "(\<exists>e. err = Some e \<and> not_found e) \<and> sessioned b \<and> rerr = None")
    case True
    with p r o ms ms2 show ?thesis by (intro exI [of _ "ms @ ms2"]) (auto simp: post_and_replay_def)
  next
    case False
    with p r o ms show ?thesis
      by (intro exI [of _ ms]; cases err; cases rerr) (auto simp: post_and_replay_def)
  qed
qed


definition call_sample :: bytes where
  "call_sample = ''{'' @ quoted ''jsonrpc'' @ '':'' @ quoted ''2.0'' @ '','' @ quoted ''id'' @ '':7,'' @
     quoted ''method'' @ '':'' @ quoted ''tools/list'' @ ''}''"

definition call_meta :: rpc_meta where
  "call_meta = \<lparr>mt_ID = ''7'', mt_Method = ''tools/list'', mt_ProtocolVersion = []\<rparr>"


definition positional_call :: bytes where
  "positional_call = ''{'' @ quoted ''id'' @ '':1,'' @ quoted ''method'' @ '':'' @ quoted ''m'' @ '','' @
     quoted ''params'' @ '':[1]}''"

text \<open>a request whose parameters are positional, which JSON-RPC allows, is left without an
  answer when it fails: decoding an array into the \<open>params\<close> struct is a type error, and
  \<open>synthesizeError\<close> takes every decoding error for a message that is not a request.\<close>

theorem positional_request_unanswered:
  "is_request (fst (parse_meta positional_call)) \<and>
   synthesize_error sniff positional_call e b = b"
proof -
  have "parse_meta positional_call = (\<lparr>mt_ID = ''1'', mt_Method = ''m'', mt_ProtocolVersion = []\<rparr>, False)"
    by code_simp
  then show ?thesis by (simp add: synthesize_error_def is_request_def)
qed

section \<open>The initialize request\<close>

text \<open>The version in force after an answer \<open>msg\<close> to a request for \<open>ver\<close>.\<close>

definition negotiated_version :: "bytes \<Rightarrow> bytes \<Rightarrow> bytes \<Rightarrow> bytes" where
  "negotiated_version msg ver old =
     (if result_version msg \<noteq> [] then result_version msg else if ver \<noteq> [] then ver else old)"

lemma bridge_version_negotiated:
  "protocolVer (bridge_set_protocol_version msg ver c) = negotiated_version msg ver (protocolVer c)"
  "sessionID (bridge_set_protocol_version msg ver c) = sessionID c"
  by (simp_all add: bridge_set_protocol_version_def set_protocol_version_def negotiated_version_def Let_def)


text \<open>A server that answers every request with the same response.\<close>

definition constant_net :: "http_response \<Rightarrow> unit net" where
  "constant_net resp = \<lparr>http_do = (\<lambda>_ w. (Inr resp, w)), provider = None, request_error = None\<rparr>"

lemma constant_net_do:
  assumes "build [] = Inr req" "rs_status resp div 100 = 2"
  shows "do_authed (constant_net resp) ep build w = (Inr resp, w)"
proof -
  have "do_authed_loop (constant_net resp) ep build [] 0 w = (Inr resp, w)"
    by (subst do_authed_loop.simps) (simp add: assms constant_net_def)
  then show ?thesis by (simp add: do_authed_def token_def constant_net_def)
qed

lemma constant_net_post:
  "rs_status resp div 100 = 2 \<Longrightarrow> do_authed (constant_net resp) ep (build_post (constant_net resp) c l) w = (Inr resp, w)"
  by (rule constant_net_do) (simp_all add: build_post_def new_request_def constant_net_def)

definition init_sample :: bytes where
  "init_sample = ''{'' @ quoted ''id'' @ '':0,'' @ quoted ''method'' @ '':'' @ quoted ''initialize'' @ '','' @
     quoted ''params'' @ '':{'' @ quoted ''protocolVersion'' @ '':'' @ quoted ''v2'' @ ''}}''"

definition init_meta :: rpc_meta where
  "init_meta = \<lparr>mt_ID = ''0'', mt_Method = ''initialize'', mt_ProtocolVersion = ''v2''\<rparr>"

definition init_result :: bytes where
  "init_result = ''{'' @ quoted ''result'' @ '':{'' @ quoted ''protocolVersion'' @ '':'' @
     quoted ''v1'' @ ''}}''"


text \<open>an \<open>initialize\<close> that fails is answered before the bridge gives up: the serial phase
  returns the error, which is an authentication failure exactly when the POST's was (exit code
  3), and if the request can be answered the last line of standard output is its answer.\<close>

theorem initialize_failure_answered:
  assumes "parse_meta line = (m, True)" "mt_Method m = ''initialize''" "is_request m" "json_valid (mt_ID m)"
    and "post net line (\<lambda>msg b. write_out msg (bridge_set_protocol_version msg (mt_ProtocolVersion m) b))
        (b\<lparr>initReq := line, reqProtocolVer := mt_ProtocolVersion m\<rparr>) w = (Some e, b1, w1)"
  shows "\<exists>e' b'. serial_phase sniff net line b w = (Inl e', b', w1) \<and> as_auth e' = as_auth e \<and>
    initDone b' = initDone b \<and>
    stdout b' = stdout b1 @ [the (error_object (mt_ID m) (err_text sniff e)) @ [LF]]"
proof -
  let ?b = "b\<lparr>initReq := line, reqProtocolVer := mt_ProtocolVersion m\<rparr>"
  let ?b' = "synthesize_error sniff line e b1"
  have "same_handshake ?b b1" by (rule post_same_handshake [OF _ _ assms(5)]) simp_all
  then have "initDone b1 = initDone b" by (simp add: same_handshake_def)
  moreover have "initDone ?b' = initDone b1"
    by (simp add: synthesize_error_def write_out_def Let_def split: prod.split option.split)
  moreover have "stdout ?b' = stdout b1 @ [the (error_object (mt_ID m) (err_text sniff e)) @ [LF]]"
    using error_object_valid [OF assms(4), of "err_text sniff e"] assms(3)
    by (auto simp: synthesize_error_stdout [OF assms(1)] answer_def)
  ultimately show ?thesis
    using assms(1,2,5) by (simp add: serial_phase_def handle_initialize_def Let_def)
qed

definition denied :: "gerr" where
  "denied = Message ''login required''"

definition denying_net :: "unit net" where
  "denying_net = \<lparr>http_do = (\<lambda>_ w. (Inl (Message ''no route''), w)),
     provider = Some (\<lambda>_ _ w. (Inl denied, w)), request_error = None\<rparr>"

theorem initialize_failure_answered_witness:
  "\<exists>e' b'. serial_phase (\<lambda>_. []) denying_net init_sample (new_bridge sample_client) () = (Inl e', b', ()) \<and>
     as_auth e' \<and> stdout b' = [the (error_object ''0'' ''auth: login required'') @ [LF]]"
proof -
  have m: "parse_meta init_sample = (init_meta, True)" "mt_Method init_meta = ''initialize''"
    "is_request init_meta" "json_valid (mt_ID init_meta)" by code_simp+
  have p: "post denying_net init_sample
      (\<lambda>msg b. write_out msg (bridge_set_protocol_version msg (mt_ProtocolVersion init_meta) b)) b () =
      (Some (AuthError denied), b, ())" for b :: bridge
    by (simp add: post_def do_authed_def token_def denying_net_def)
  obtain e' b' where b': "serial_phase (\<lambda>_. []) denying_net init_sample (new_bridge sample_client) () = (Inl e', b', ())"
    "as_auth e'" "stdout b' = [the (error_object ''0'' ''auth: login required'') @ [LF]]"
    using initialize_failure_answered [OF m p, of "\<lambda>_. []" "new_bridge sample_client"]
    by (auto simp: new_bridge_def client.extend_def init_meta_def sample_client_def denied_def)
  then show ?thesis by blast
qed

section \<open>A fresh session\<close>

lemma do_authed_log_extends:
  "\<exists>toks ext. snd (snd (do_authed (recorded net) ep build (w, log))) = log @ ext \<and> ladder build toks ext"
proof (cases "fst (token net [] [] w)")
  case (Inl e)
  then show ?thesis by (intro exI [of _ "[]"]) (simp add: do_authed_def recorded_token)
next
  case (Inr tok)
  then show ?thesis
    using do_authed_loop_log [of net ep build tok 0 "snd (token net [] [] w)" log]
    by (auto simp: do_authed_def recorded_token)
qed

lemma post_log_extends:
  "\<exists>toks ext. snd (snd (snd (post (recorded net) l deliver b (w, log)))) = log @ ext \<and>
     ladder (build_post (recorded net) b l) toks ext"
proof -
  obtain r w1 log1 where d: "do_authed (recorded net) (Endpoint b) (build_post (recorded net) b l) (w, log) = (r, w1, log1)"
    by (rule prod_cases3)
  then have "snd (snd (snd (post (recorded net) l deliver b (w, log)))) = log1"
    by (cases r) (simp_all add: post_def split: prod.split)
  then show ?thesis
    using do_authed_log_extends [of net "Endpoint b" "build_post (recorded net) b l" w log] d by simp
qed

lemma hget_no_header [simp]: "hget no_header k = []"
  by (simp add: hget_def)

lemma build_post_no_session:
  assumes "sessionID c = []" "Headers c = []" "build_post net c l tok = Inr req"
  shows "hget (rq_header req) ''Mcp-Session-Id'' = [] \<and> rq_body req = l"
  using assms
  by (auto simp: build_post_def new_request_def prepare_def add_headers_def hget_hset Let_def
      split: option.splits)

lemma ladder_first:
  "ladder build toks ((req, r) # log) \<Longrightarrow> \<exists>tok. build tok = Inr req"
  by (cases toks) (auto simp: ladder_def)

text \<open>A call that returns a response has sent a request.\<close>

lemma do_authed_loop_sends:
  assumes "build tok = Inr req"
  shows "snd (snd (do_authed_loop (recorded net) ep build tok attempt (w, log))) \<noteq> []"
proof -
  have more: "snd (snd (do_authed_loop (recorded net) ep build t n (v, log @ [x]))) \<noteq> []" for t n v x
    using do_authed_loop_log [of net ep build t n v "log @ [x]"] by auto
  show ?thesis
    by (subst do_authed_loop.simps)
      (simp add: assms recorded_do recorded_token more Let_def capture_body_def split: sum.split)
qed

lemma do_authed_sends:
  "do_authed (recorded net) ep build (w, []) = (Inr resp, w', log) \<Longrightarrow> log \<noteq> []"
proof -
  assume d: "do_authed (recorded net) ep build (w, []) = (Inr resp, w', log)"
  then obtain tok where t: "fst (token net [] [] w) = Inr tok"
    by (cases "fst (token net [] [] w)") (simp_all add: do_authed_def recorded_token)
  with d have l: "do_authed_loop (recorded net) ep build tok 0 (snd (token net [] [] w), []) = (Inr resp, w', log)"
    by (simp add: do_authed_def recorded_token)
  then obtain req where b: "build tok = Inr req"
    by (cases "build tok") (simp_all add: do_authed_loop.simps [of _ _ build tok])
  show "log \<noteq> []"
    using do_authed_loop_sends [where build = build and tok = tok and req = req and net = net and ep = ep
        and attempt = 0 and w = "snd (token net [] [] w)" and log = "[]", OF b] l by simp
qed

lemma post_sends:
  assumes "post (recorded net) l deliver b (w, []) = (None, b', w', log)"
  shows "log \<noteq> []"
proof -
  obtain r w1 log1 where d: "do_authed (recorded net) (Endpoint b) (build_post (recorded net) b l) (w, []) = (r, w1, log1)"
    by (rule prod_cases3)
  with assms show ?thesis
    using do_authed_sends [of net "Endpoint b" "build_post (recorded net) b l" w] 
    by (cases r) (auto simp: post_def split: prod.splits)
qed

definition fresh_start :: "bytes \<Rightarrow> exchange list \<Rightarrow> bool" where
  "fresh_start l log = (case log of [] \<Rightarrow> True
     | (req, _) # _ \<Rightarrow> hget (rq_header req) ''Mcp-Session-Id'' = [] \<and> rq_body req = l)"

lemma fresh_start_append: "log \<noteq> [] \<Longrightarrow> fresh_start l (log @ ext) = fresh_start l log"
  by (cases log) (simp_all add: fresh_start_def)

lemma bridge_version_cursor [simp]: "lastEventID (bridge_set_protocol_version m v b) = lastEventID b"
  by (simp add: bridge_set_protocol_version_def set_protocol_version_def Let_def)

lemma post_keeps_cursor:
  assumes "\<And>m c. lastEventID (deliver m c) = lastEventID c" "post net l deliver b w = (err, b', w')"
  shows "lastEventID b' = lastEventID b"
  using post_invariant [of "\<lambda>c. lastEventID c = lastEventID b" b deliver net l w] assms by simp

text \<open>a re-initialisation starts over: with no user header of that name, the first request it
  sends is the cached \<open>initialize\<close> request without any session id, and the listening stream will
  not be asked to resume from the old session's last event.\<close>

theorem reinit_starts_fresh:
  assumes "Headers b = []" "gen b = g" "initReq b \<noteq> []"
  shows "fresh_start (initReq b) (snd (snd (snd (reinit (recorded net) g b (w, []))))) \<and>
    lastEventID (fst (snd (reinit (recorded net) g b (w, [])))) = []"
proof -
  let ?b = "clear_session b"
  have c: "initReq ?b = initReq b" "sessionID ?b = []" "Headers ?b = []" "lastEventID ?b = []"
    using assms by (simp_all add: clear_session_def)
  obtain e b1 w1 log1 where p: "post (recorded net) (initReq b)
      (\<lambda>m. bridge_set_protocol_version m (reqProtocolVer ?b)) ?b (w, []) = (e, b1, w1, log1)"
    by (rule prod_cases4)
  obtain toks where l1: "ladder (build_post (recorded net) ?b (initReq b)) toks log1"
    using post_log_extends [of net "initReq b" "\<lambda>m. bridge_set_protocol_version m (reqProtocolVer ?b)" ?b w "[]"]
    unfolding p by auto
  have first: "fresh_start (initReq b) log1"
  proof (cases log1)
    case (Cons x rest)
    then obtain tok where "build_post (recorded net) ?b (initReq b) tok = Inr (fst x)"
      using ladder_first [of _ toks "fst x" "snd x" rest] l1 by auto
    from build_post_no_session [OF c(2,3) this] show ?thesis
      by (simp add: Cons fresh_start_def case_prod_beta)
  qed (simp add: fresh_start_def)
  have cur: "lastEventID b1 = []" using post_keeps_cursor [OF _ p] c(4) by simp
  obtain e2 b2 w2 log2 where n: "post (recorded net) (initNote b1) (\<lambda>_ b. b) b1 (w1, log1) = (e2, b2, w2, log2)"
    by (rule prod_cases4)
  obtain ext where l2: "log2 = log1 @ ext"
    using post_log_extends [of net "initNote b1" "\<lambda>_ b. b" b1 w1 log1] unfolding n by auto
  have cur2: "lastEventID b2 = []" using post_keeps_cursor [OF _ n] cur by simp
  have "log1 \<noteq> []" if "e = None" using post_sends [of net] p that by blast
  then have "fresh_start (initReq b) log2" if "e = None"
    using that first fresh_start_append unfolding l2 by blast
  with p n c assms(2,3) first cur cur2 show ?thesis
    by (cases e; cases "initNote b1 = []") (simp_all add: reinit_def Let_def)
qed

definition cached_bridge :: bridge where
  "cached_bridge = (new_bridge sample_client)\<lparr>initReq := init_sample, sessionID := ''dead'', lastEventID := ''9''\<rparr>"

theorem reinit_starts_fresh_witness:
  "fresh_start init_sample (snd (snd (snd (reinit (recorded quiet_net) 0 cached_bridge ((), [])))))"
proof -
  have "Headers cached_bridge = []" "gen cached_bridge = 0" "initReq cached_bridge = init_sample" "init_sample \<noteq> []"
    by (simp_all add: cached_bridge_def new_bridge_def client.extend_def sample_client_def init_sample_def)
  then show ?thesis using reinit_starts_fresh [of cached_bridge 0 quiet_net "()"] by simp
qed

end
