(* ===== verification/Login.thy ===== *)
theory Login
  imports Flow Render TimeText
begin

text \<open>
  The browser login (\<open>pkg/oauth/login.go\<close>): the loopback callback server, the channel its handlers
  report to, and the authorization code exchange.  The \<open>oauth2\<close> package, the listening socket,
  the start of a process and the end of the wait are the record \<open>login_env\<close>; the handlers that run
  next to the waiting login are a step relation.
\<close>

section \<open>Query strings\<close>

text \<open>\<open>url.QueryUnescape\<close>, and \<open>url.ParseQuery\<close> as \<open>URL.Query\<close> uses it: what does not parse is left
  out.\<close>

definition query_unescape :: "bytes \<Rightarrow> bytes option" where
  "query_unescape s = unescape EncodePath (map (\<lambda>c. if c = CHR ''+'' then CHR '' '' else c) s)"

definition query_pair :: "bytes \<Rightarrow> (bytes \<times> bytes) option" where
  "query_pair seg =
     (if CHR '';'' \<in> set seg \<or> seg = [] then None
      else
        let (k, v) = (case cut_at (CHR ''='') seg of Some kv \<Rightarrow> kv | None \<Rightarrow> (seg, [])) in
        case query_unescape k of
          None \<Rightarrow> None
        | Some k' \<Rightarrow> (case query_unescape v of None \<Rightarrow> None | Some v' \<Rightarrow> Some (k', v')))"

definition parse_query :: "bytes \<Rightarrow> (bytes \<times> bytes) list" where
  "parse_query s = List.map_filter query_pair (split_on (CHR ''&'') s)"

text \<open>\<open>Values.Get\<close>: the first value, or the empty text.\<close>

definition query_get :: "bytes \<Rightarrow> bytes \<Rightarrow> bytes" where
  "query_get q k = (case map_of (parse_query q) k of None \<Rightarrow> [] | Some v \<Rightarrow> v)"

section \<open>The callback handler\<close>

record page =
  pg_status :: nat
  pg_type :: bytes
  pg_body :: bytes

text \<open>\<open>http.Error\<close>.\<close>

definition error_page :: "bytes \<Rightarrow> nat \<Rightarrow> page" where
  "error_page text' status = \<lparr>pg_status = status, pg_type = ''text/plain; charset=utf-8'', pg_body = text' @ [LF]\<rparr>"

definition login_page :: page where
  "login_page = \<lparr>pg_status = 200, pg_type = ''text/html; charset=utf-8'',
     pg_body = ''<html><body style='' @ [DQ] @ ''font-family:sans-serif'' @ [DQ] @
       ''><h2>mcpurl: login OK</h2><p>You can close this tab.</p></body></html>''\<rparr>"

text \<open>One request to \<open>/callback\<close>: what is reported, and what the browser gets.\<close>

definition handle_callback :: "bytes \<Rightarrow> bytes \<Rightarrow> (gerr + bytes) \<times> page" where
  "handle_callback st q =
     (if query_get q ''error'' \<noteq> [] then
        (Inl (Message (''authorization failed: '' @ query_get q ''error'' @ '' '' @ em_dash @ '' '' @
           query_get q ''error_description'')),
         error_page (query_get q ''error'') 400)
      else if query_get q ''state'' \<noteq> st then
        (Inl (Message (''state mismatch '' @ em_dash @ '' possible CSRF'')), error_page ''state mismatch'' 400)
      else (Inr (query_get q ''code''), login_page))"

section \<open>The login\<close>

record oauth_config =
  oc_ClientID :: bytes
  oc_AuthURL :: bytes
  oc_TokenURL :: bytes
  oc_RedirectURL :: bytes
  oc_Scopes :: "bytes list"

datatype auth_option = S256ChallengeOption bytes | VerifierOption bytes | SetAuthURLParam bytes bytes

text \<open>A token as \<open>oauth2\<close> returns it; \<open>Extra\<close> is a string or something else.\<close>

datatype extra = ExtraText bytes | ExtraOther

record exchanged =
  xt_AccessToken :: bytes
  xt_RefreshToken :: bytes
  xt_Expiry :: "int option"
  Extra :: "bytes \<Rightarrow> extra option"

datatype login_event = Callback bytes | TimedOut | Cancelled gerr

record 'w login_env =
  bl_verifier :: "'w \<Rightarrow> bytes \<times> 'w"                                  \<comment> \<open>\<open>oauth2.GenerateVerifier\<close>\<close>
  AuthCodeURL :: "oauth_config \<Rightarrow> bytes \<Rightarrow> auth_option list \<Rightarrow> bytes"
  Exchange :: "oauth_config \<Rightarrow> bytes \<Rightarrow> auth_option list \<Rightarrow> 'w \<Rightarrow> (gerr + exchanged) \<times> 'w"
  bl_listen :: "bytes \<Rightarrow> 'w \<Rightarrow> gerr option \<times> 'w"                      \<comment> \<open>listen and serve\<close>
  bl_shutdown :: "'w \<Rightarrow> 'w"
  bl_goos :: "'w \<Rightarrow> bytes"
  bl_start :: "bytes list \<Rightarrow> 'w \<Rightarrow> gerr option \<times> 'w"
  bl_wait :: "'w \<Rightarrow> login_event \<times> 'w"                               \<comment> \<open>what ends the wait: the first report, the
                                                                      timer or the context\<close>
  bl_print :: "bytes \<Rightarrow> 'w \<Rightarrow> 'w"
  bl_zone :: "'w \<Rightarrow> int \<Rightarrow> int"
  bl_sniff :: "bytes \<Rightarrow> bytes"

definition respScope :: "exchanged \<Rightarrow> bytes" where
  "respScope tok = (case Extra tok ''scope'' of Some (ExtraText s) \<Rightarrow> s | _ \<Rightarrow> [])"

definition unknownClientHint :: "flow \<Rightarrow> bytes" where
  "unknownClientHint f =
     (case reg f of
        None \<Rightarrow> []
      | Some r \<Rightarrow> '' '' @ em_dash @ '' if the browser reported an unknown client, `mcpurl logout` drops registration '' @
          rg_ClientID r @ '' and the next login registers anew'')"

definition openBrowser :: "'w login_env \<Rightarrow> bytes \<Rightarrow> 'w \<Rightarrow> gerr option \<times> 'w" where
  "openBrowser le target w =
     (if bl_goos le w = ''darwin'' then bl_start le [''open'', target] w
      else if bl_goos le w = ''linux'' then bl_start le [''xdg-open'', target] w
      else if bl_goos le w = ''windows'' then bl_start le [''rundll32'', ''url.dll,FileProtocolHandler'', target] w
      else (Some (Message ''unsupported platform''), w))"

text \<open>\<open>Expiry.Format(time.RFC3339)\<close>: whole seconds, and the zero time for a token without expiry.\<close>

definition expiry_text :: "(int \<Rightarrow> int) \<Rightarrow> int option \<Rightarrow> bytes" where
  "expiry_text zn ex =
     (case ex of
        None \<Rightarrow> ''0001-01-01T00:00:00Z''
      | Some t \<Rightarrow> (case rfc3339 (zn t) (t - t mod 1000000000) of Some s \<Rightarrow> s | None \<Rightarrow> []))"

definition login_config :: "flow \<Rightarrow> discovery \<Rightarrow> bytes list \<Rightarrow> oauth_config" where
  "login_config f d scopes =
     \<lparr>oc_ClientID = clientID f, oc_AuthURL = AuthorizationEndpoint (d_AS d), oc_TokenURL = TokenEndpoint (d_AS d),
      oc_RedirectURL = redirectURI f, oc_Scopes = scopes\<rparr>"

text \<open>The wait and what follows it, while the callback server runs.\<close>

definition await_login ::
  "'w login_env \<Rightarrow> flow \<Rightarrow> oauth_config \<Rightarrow> bytes list \<Rightarrow> bytes \<Rightarrow> bytes \<Rightarrow> bytes \<Rightarrow> 'w \<Rightarrow> (gerr + token) \<times> 'w" where
  "await_login le f conf scopes verifier st canonical w =
     (case bl_wait le w of
        (TimedOut, w1) \<Rightarrow> (Inl (Message (''login timed out after 5 minutes'' @ unknownClientHint f)), w1)
      | (Cancelled e, w1) \<Rightarrow> (Inl e, w1)
      | (Callback q, w1) \<Rightarrow>
          (case fst (handle_callback st q) of
             Inl e \<Rightarrow> (Inl e, w1)
           | Inr code \<Rightarrow>
               (case Exchange le conf code [VerifierOption verifier, SetAuthURLParam ''resource'' canonical] w1 of
                  (Inl e, w2) \<Rightarrow> (Inl (Wrap ''token exchange: '' e []), w2)
                | (Inr tok, w2) \<Rightarrow>
                    (Inr \<lparr>AccessToken = xt_AccessToken tok, RefreshToken = xt_RefreshToken tok, Expiry = xt_Expiry tok,
                       tk_Issuer = [], tk_ClientID = [], tk_Scopes = grantedScopes (respScope tok) scopes\<rparr>,
                     bl_print le (''Login OK (access token expires '' @ expiry_text (bl_zone le w2) (xt_Expiry tok) @
                       '').'' @ [LF]) w2))))"

definition browserLogin ::
  "'w login_env \<Rightarrow> flow \<Rightarrow> discovery \<Rightarrow> bytes list \<Rightarrow> 'w \<Rightarrow> (gerr + token) \<times> 'w" where
  "browserLogin le f d scopes w =
     (case Canonicalize (fl_Endpoint f) of
        Inl e \<Rightarrow> (Inl e, w)
      | Inr canonical \<Rightarrow>
          let conf = login_config f d scopes;
              address = ''127.0.0.1:'' @ dec_int (callbackPort f);
              (verifier, w1) = bl_verifier le w;
              (v2, w2) = bl_verifier le w1;
              st = take 24 v2;
              authURL = AuthCodeURL le conf st [S256ChallengeOption verifier, SetAuthURLParam ''resource'' canonical]
          in (case bl_listen le address w2 of
                (Some e, w3) \<Rightarrow>
                  (Inl (Wrap (''listen '' @ address @ '': '') e
                     '' (port busy, or not registered as a redirect URI in the IdP)''), w3)
              | (None, w3) \<Rightarrow>
                  let w4 = bl_print le (''Opening browser for login: '' @ authURL @ [LF]) w3;
                      w6 = (case openBrowser le authURL w4 of
                              (Some e, w5) \<Rightarrow>
                                bl_print le (''Could not open a browser ('' @ err_text (bl_sniff le) e @ '') '' @ em_dash @
                                  '' open the URL above manually.'' @ [LF]) w5
                            | (None, w5) \<Rightarrow> w5);
                      (r, w7) = await_login le f conf scopes verifier st canonical w6
                  in (r, bl_shutdown le w7)))"

section \<open>What is sent to the callback is what it reads\<close>

abbreviation unplus :: "bytes \<Rightarrow> bytes" where
  "unplus \<equiv> map (\<lambda>c. if c = CHR ''+'' then CHR '' '' else c)"

lemma upper_hex_val:
  assumes "n < 16"
  shows "hex_digit (upper_hex n)" "hex_val (upper_hex n) = n" "upper_hex n \<notin> set ''+&;=%''"
proof -
  have b: "byte (upper_hex n) = (if n < 10 then 48 + n else 55 + n)" using assms by (simp add: upper_hex_def)
  show h: "hex_digit (upper_hex n)" using assms by (auto simp: hex_digit_def is_digit_def b)
  show "hex_val (upper_hex n) = n" using assms by (auto simp: hex_val_def is_digit_def b)
  show "upper_hex n \<notin> set ''+&;=%''" using h by (auto simp: hex_digit_def is_digit_def)
qed

lemma byte_split: "char_of (byte c div 16 * 16 + byte c mod 16) = c" "byte c div 16 < 16" "byte c mod 16 < (16 :: nat)"
  using nat_of_char_less_256 [of c] by (simp_all del: nat_of_char_less_256)

definition plain_query :: "char \<Rightarrow> bool" where
  "plain_query c \<longleftrightarrow> is_letter c \<or> is_digit c \<or> List.member ''-_.~'' c"

lemma plain_query_neq: "plain_query c \<Longrightarrow> c \<notin> set ''+&;=% ''"
  by (auto simp: plain_query_def is_letter_def is_digit_def)

lemma query_escape_Cons:
  "query_escape (c # s) =
     (if c = CHR '' '' then ''+'' else if plain_query c then [c]
      else [CHR ''%'', upper_hex (byte c div 16), upper_hex (byte c mod 16)]) @ query_escape s"
  by (simp add: query_escape_def plain_query_def)

lemma query_unescape_escape [simp]: "query_unescape (query_escape s) = Some s"
proof (induction s)
  case Nil
  then show ?case by (simp add: query_unescape_def query_escape_def)
next
  case (Cons c s)
  have u: "unescape EncodePath (unplus (query_escape s)) = Some s" using Cons by (simp add: query_unescape_def)
  consider "c = CHR '' ''" | "c \<noteq> CHR '' ''" "plain_query c" | "c \<noteq> CHR '' ''" "\<not> plain_query c" by blast
  then show ?case
  proof cases
    case 1
    with u show ?thesis by (simp add: query_unescape_def query_escape_Cons host_mode_def)
  next
    case 2
    with u plain_query_neq [of c] show ?thesis by (simp add: query_unescape_def query_escape_Cons host_mode_def)
  next
    case 3
    have "upper_hex (byte c div 16) \<noteq> CHR ''+''" "upper_hex (byte c mod 16) \<noteq> CHR ''+''"
      using upper_hex_val(3) byte_split(2,3) [of c] by auto
    with u 3 show ?thesis
      by (simp add: query_unescape_def query_escape_Cons escape_ok_def upper_hex_val(1,2) byte_split)
  qed
qed

lemma query_escape_chars: "set (query_escape s) \<inter> set ''&;='' = {}"
proof (induction s)
  case Nil
  then show ?case by (simp add: query_escape_def)
next
  case (Cons c s)
  have "x \<notin> set ''&;=''" if "x \<in> {upper_hex (byte c div 16), upper_hex (byte c mod 16)}" for x
    using upper_hex_val(3) byte_split(2,3) [of c] that by auto
  with Cons plain_query_neq [of c] show ?case by (auto simp: query_escape_Cons)
qed

lemma query_pair_encoded: "query_pair (query_escape k @ ''='' @ query_escape v) = Some (k, v)"
proof -
  have "CHR ''='' \<notin> set (query_escape k)" "CHR '';'' \<notin> set (query_escape k)" "CHR '';'' \<notin> set (query_escape v)"
    using query_escape_chars [of k] query_escape_chars [of v] by auto
  moreover have "cut_at (CHR ''='') (query_escape k @ ''='' @ query_escape v) = Some (query_escape k, query_escape v)"
    using calculation(1) cut_at_append [of "CHR ''=''" "query_escape k" "query_escape v"] by simp
  ultimately show ?thesis by (simp add: query_pair_def)
qed

lemma split_on_free: "c \<notin> set s \<Longrightarrow> split_on c s = [s]"
  by (induction s) auto

lemma split_on_step: "c \<notin> set a \<Longrightarrow> split_on c (a @ c # b) = a # split_on c b"
  by (induction a) auto

lemma split_on_join:
  "\<forall>p \<in> set ps. c \<notin> set p \<Longrightarrow> ps \<noteq> [] \<Longrightarrow> split_on c (join [c] ps) = ps"
  by (induction "[c]" ps rule: join.induct) (auto simp: split_on_free split_on_step)

lemma parse_query_encoded: "parse_query (form_encode kvs) = kvs"
proof (cases kvs)
  case Nil
  then show ?thesis by (simp add: parse_query_def form_encode_def query_pair_def map_filter_simps)
next
  case (Cons kv kvs')
  let ?enc = "map (\<lambda>(k, v). query_escape k @ ''='' @ query_escape v) kvs"
  have "CHR ''&'' \<notin> set p" if "p \<in> set ?enc" for p
    using that query_escape_chars by fastforce
  then have "parse_query (form_encode kvs) = List.map_filter query_pair ?enc"
    using Cons by (simp add: parse_query_def form_encode_def split_on_join)
  also have "\<dots> = kvs"
    by (induction kvs) (auto simp: map_filter_simps query_pair_encoded simp del: append_Cons append_Nil)
  finally show ?thesis .
qed

lemma redirect_read:
  assumes "map_of kvs ''state'' = Some st" "map_of kvs ''code'' = Some code" "''error'' \<notin> fst ` set kvs"
  shows "handle_callback st (form_encode kvs) = (Inr code, login_page)"
proof -
  have "map_of kvs ''error'' = None" using assms(3) by (simp add: map_of_eq_None_iff)
  with assms(1,2) show ?thesis by (simp add: handle_callback_def query_get_def parse_query_encoded)
qed

text \<open>the redirect of an authorization server that grants the login, with any code, the state of this login and
  whatever other parameters encoded in its query, is read back as exactly that code and answered with the
  page that says so.\<close>

theorem redirect_roundtrip:
  assumes "map_of kvs ''state'' = Some st" "map_of kvs ''code'' = Some code" "''error'' \<notin> fst ` set kvs"
  shows "handle_callback st (form_encode kvs) = (Inr code, login_page)"
  using assms by (rule redirect_read)

theorem redirect_roundtrip_witness:
  "handle_callback ''s+/ %'' (form_encode [(''code'', ''a&b=c;d e''), (''iss'', ''https://as''), (''state'', ''s+/ %'')]) =
    (Inr ''a&b=c;d e'', login_page)"
  by (rule redirect_roundtrip) simp_all

section \<open>Whose code the token was exchanged for\<close>

lemma handle_callback_code:
  "fst (handle_callback st q) = Inr code \<longleftrightarrow>
     query_get q ''error'' = [] \<and> query_get q ''state'' = st \<and> code = query_get q ''code''"
  by (auto simp: handle_callback_def)

text \<open>The parts of a login that got to the browser.\<close>

lemma browserLogin_ran:
  assumes "browserLogin le f d scopes w = (Inr t, w')"
  obtains canonical verifier v2 w1 w2 w6 q code tok w7 w8 where
    "Canonicalize (fl_Endpoint f) = Inr canonical" "bl_verifier le w = (verifier, w1)" "bl_verifier le w1 = (v2, w2)"
    "bl_wait le w6 = (Callback q, w7)" "fst (handle_callback (take 24 v2) q) = Inr code"
    "Exchange le (login_config f d scopes) code [VerifierOption verifier, SetAuthURLParam ''resource'' canonical] w7 = (Inr tok, w8)"
    "t = \<lparr>AccessToken = xt_AccessToken tok, RefreshToken = xt_RefreshToken tok, Expiry = xt_Expiry tok, tk_Issuer = [],
       tk_ClientID = [], tk_Scopes = grantedScopes (respScope tok) scopes\<rparr>"
  using assms
  by (auto simp: browserLogin_def await_login_def Let_def split: sum.splits prod.splits option.splits login_event.splits)


text \<open>The login leaves the ladder's own sentinels alone, so it never asks for a second round.\<close>

definition quiet_browser :: "'w login_env \<Rightarrow> bool" where
  "quiet_browser le \<longleftrightarrow>
     (\<forall>w e w'. bl_wait le w = (Cancelled e, w') \<longrightarrow> \<not> err_is e errClientGone) \<and>
     (\<forall>address w e. fst (bl_listen le address w) = Some e \<longrightarrow> \<not> err_is e errClientGone) \<and>
     (\<forall>conf code os w e. fst (Exchange le conf code os w) = Inl e \<longrightarrow> \<not> err_is e errClientGone)"

lemma canonicalize_quiet: "Canonicalize s = Inl e \<Longrightarrow> \<not> err_is e errClientGone"
  by (auto simp: Canonicalize_def url_error_def split: option.splits if_splits)

lemma handler_quiet: "fst (handle_callback st q) = Inl e \<Longrightarrow> \<not> err_is e errClientGone"
  by (auto simp: handle_callback_def split: if_splits)

lemma browserLogin_quiet:
  assumes "quiet_browser le" "fst (browserLogin le f d scopes w) = Inl e"
  shows "\<not> err_is e errClientGone"
proof -
  have x: "Exchange le conf code os v = (Inl e', v') \<Longrightarrow> \<not> err_is e' errClientGone" for conf code os v e' v'
    using assms(1) by (metis quiet_browser_def fst_conv)
  have l: "bl_listen le address v = (Some e', v') \<Longrightarrow> \<not> err_is e' errClientGone" for address v e' v'
    using assms(1) by (metis quiet_browser_def fst_conv)
  have c: "bl_wait le v = (Cancelled e', v') \<Longrightarrow> \<not> err_is e' errClientGone" for v e' v'
    using assms(1) by (metis quiet_browser_def)
  show ?thesis using assms(2) canonicalize_quiet handler_quiet x l c
    by (auto simp: browserLogin_def await_login_def Let_def split: sum.splits prod.splits option.splits login_event.splits)
qed

section \<open>The handlers next to the waiting login\<close>

text \<open>The channel holds one result.  The state keeps the requests whose handler has not reported yet, the channel and
  what the login has got; all requests and all reports so far are recorded.\<close>

datatype wait_state = Waiting | Got "gerr + bytes" | GaveUp gerr

record login_run =
  pending :: "bytes list"
  resCh :: "(gerr + bytes) option"
  wait_for :: wait_state
  requests :: "bytes list"
  reports :: "(gerr + bytes) list"

definition login_start :: login_run where
  "login_start = \<lparr>pending = [], resCh = None, wait_for = Waiting, requests = [], reports = []\<rparr>"

text \<open>\<open>report\<close> is a send that does not block: into the empty channel, or not at all.  The handlers run in any order;
  the login takes a result or gives up when the timer or the context says so.\<close>

inductive login_step :: "bytes \<Rightarrow> login_run \<Rightarrow> login_run \<Rightarrow> bool" for st where
  arrive: "login_step st s (s\<lparr>pending := pending s @ [q], requests := requests s @ [q]\<rparr>)"
| report_first:
    "pending s = a @ q # b \<Longrightarrow> resCh s = None \<Longrightarrow> r = fst (handle_callback st q) \<Longrightarrow>
     login_step st s (s\<lparr>pending := a @ b, resCh := Some r, reports := reports s @ [r]\<rparr>)"
| report_dropped:
    "pending s = a @ q # b \<Longrightarrow> resCh s = Some x \<Longrightarrow> r = fst (handle_callback st q) \<Longrightarrow>
     login_step st s (s\<lparr>pending := a @ b, reports := reports s @ [r]\<rparr>)"
| receive:
    "wait_for s = Waiting \<Longrightarrow> resCh s = Some r \<Longrightarrow> login_step st s (s\<lparr>resCh := None, wait_for := Got r\<rparr>)"
| give_up: "wait_for s = Waiting \<Longrightarrow> login_step st s (s\<lparr>wait_for := GaveUp e\<rparr>)"

inductive_cases login_stepE: "login_step st s s'"

definition login_inv :: "bytes \<Rightarrow> login_run \<Rightarrow> bool" where
  "login_inv st s \<longleftrightarrow>
     set (pending s) \<subseteq> set (requests s) \<and>
     set (reports s) \<subseteq> (fst \<circ> handle_callback st) ` set (requests s) \<and>
     length (requests s) = length (pending s) + length (reports s) \<and>
     (case wait_for s of
        Waiting \<Rightarrow> resCh s = (case reports s of [] \<Rightarrow> None | r # _ \<Rightarrow> Some r)
      | Got r \<Rightarrow> (\<exists>later. reports s = r # later)
      | GaveUp _ \<Rightarrow> True)"

lemma login_inv_start: "login_inv st login_start"
  by (simp add: login_inv_def login_start_def)

lemma login_inv_step: "login_step st s s' \<Longrightarrow> login_inv st s \<Longrightarrow> login_inv st s'"
  by (erule login_stepE) (auto simp: login_inv_def split: wait_state.splits list.splits)

lemma login_reachable: "(login_step st)\<^sup>*\<^sup>* login_start s \<Longrightarrow> login_inv st s"
  by (induction rule: rtranclp_induct) (auto intro: login_inv_start login_inv_step)

text \<open>C17: in every interleaving of the callback handlers with the waiting login, the login gets the first report and
  no other, and a code only from a request that came with the right state and no error.\<close>

theorem first_report_wins:
  assumes "(login_step st)\<^sup>*\<^sup>* login_start s" "wait_for s = Got r"
  shows "(\<exists>later. reports s = r # later) \<and>
    (\<exists>q \<in> set (requests s). r = fst (handle_callback st q)) \<and>
    (case r of Inl e \<Rightarrow> True
     | Inr code \<Rightarrow> (\<exists>q \<in> set (requests s). query_get q ''state'' = st \<and> query_get q ''error'' = [] \<and> code = query_get q ''code''))"
proof -
  have i: "login_inv st s" by (rule login_reachable [OF assms(1)])
  with assms(2) obtain later where later: "reports s = r # later" by (auto simp: login_inv_def)
  with i have "r \<in> (fst \<circ> handle_callback st) ` set (requests s)" by (auto simp: login_inv_def)
  then obtain q where q: "q \<in> set (requests s)" "r = fst (handle_callback st q)" by auto
  have "case r of Inl e \<Rightarrow> True
     | Inr code \<Rightarrow> (\<exists>q \<in> set (requests s). query_get q ''state'' = st \<and> query_get q ''error'' = [] \<and> code = query_get q ''code'')"
    using q by (auto simp: handle_callback_code dest: sym split: sum.split)
  with later q show ?thesis by blast
qed

text \<open>A handler finishes in one step of its own.\<close>

lemma handler_finishes:
  assumes "pending s = a @ q # b"
  shows "\<exists>s'. login_step st s s' \<and> pending s' = a @ b \<and> wait_for s' = wait_for s"
proof (cases "resCh s")
  case None
  show ?thesis by (rule exI, rule conjI, rule report_first [OF assms None refl]) simp
next
  case (Some x)
  show ?thesis by (rule exI, rule conjI, rule report_dropped [OF assms Some refl]) simp
qed

text \<open>C18: no handler is ever parked: from every state, whatever the login does or has done, the handlers in flight
  can all finish, each in one step, and the login need not move for it.\<close>

theorem handlers_finish:
  "\<exists>s'. (login_step st ^^ length (pending s)) s s' \<and> pending s' = [] \<and> wait_for s' = wait_for s"
proof (induction "length (pending s)" arbitrary: s)
  case 0
  then show ?case by auto
next
  case (Suc n)
  then obtain q b where "pending s = [] @ q # b" by (cases "pending s") auto
  from handler_finishes [OF this] obtain s1 where s1: "login_step st s s1" "pending s1 = b" "wait_for s1 = wait_for s" by auto
  with \<open>pending s = [] @ q # b\<close> Suc(2) have n: "n = length (pending s1)" by simp
  from Suc(1) [OF n] obtain s2 where s2: "(login_step st ^^ n) s1 s2" "pending s2 = []" "wait_for s2 = wait_for s1"
    using n by auto
  with s1 have "(login_step st ^^ Suc n) s s2" by (auto simp only: relpowp_Suc_I2)
  with s1 s2 Suc(2) show ?case by auto
qed

text \<open>The login can always take the first report.\<close>

lemma report_received:
  assumes "(login_step st)\<^sup>*\<^sup>* login_start s" "wait_for s = Waiting" "reports s \<noteq> []"
  shows "\<exists>s'. login_step st s s' \<and> wait_for s' = Got (hd (reports s))"
proof -
  have "resCh s = Some (hd (reports s))"
    using login_reachable [OF assms(1)] assms(2,3) by (cases "reports s") (auto simp: login_inv_def)
  from receive [OF assms(2) this, of st] show ?thesis by auto
qed

text \<open>A request without the state, from any page the user has open, ends the login: an \<open>error\<close> parameter is reported
  before the state is looked at, and a wrong state is reported as well.\<close>

lemma stray_callback_aborts:
  "\<exists>e. fst (handle_callback st (form_encode [(''error'', ''x'')])) = Inl e"
  "st \<noteq> [] \<Longrightarrow> \<exists>e. fst (handle_callback st []) = Inl e"
  by (simp_all add: handle_callback_def query_get_def parse_query_encoded)
    (simp add: parse_query_def query_pair_def map_filter_simps)

section \<open>A concrete login\<close>

definition demo_state :: bytes where "demo_state = ''abcdefghijklmnopqrstuvwx''"

definition demo_query :: bytes where "demo_query = form_encode [(''code'', ''xyz''), (''state'', demo_state)]"

definition demo_browser :: "unit login_env" where
  "demo_browser =
     \<lparr>bl_verifier = (\<lambda>w. (demo_state @ ''0123456789'', w)), AuthCodeURL = (\<lambda>_ _ _. ''https://as/authorize''),
      Exchange = (\<lambda>_ code _ w. (Inr \<lparr>xt_AccessToken = ''at-'' @ code, xt_RefreshToken = ''rt'', xt_Expiry = None,
        Extra = (\<lambda>_. None)\<rparr>, w)),
      bl_listen = (\<lambda>_ w. (None, w)), bl_shutdown = id, bl_goos = (\<lambda>_. ''linux''), bl_start = (\<lambda>_ w. (None, w)),
      bl_wait = (\<lambda>w. (Callback demo_query, w)), bl_print = (\<lambda>_. id), bl_zone = (\<lambda>_ _. 0), bl_sniff = (\<lambda>_. [])\<rparr>"

lemma demo_callback: "handle_callback demo_state demo_query = (Inr ''xyz'', login_page)"
  by (simp add: demo_query_def redirect_read)

lemma demo_login:
  assumes "Canonicalize (fl_Endpoint f) = Inr canonical"
  shows "browserLogin demo_browser f d scopes () =
    (Inr \<lparr>AccessToken = ''at-xyz'', RefreshToken = ''rt'', Expiry = None, tk_Issuer = [], tk_ClientID = [], tk_Scopes = scopes\<rparr>, ())"
proof -
  have "take 24 (demo_state @ ''0123456789'') = demo_state" by (simp add: demo_state_def)
  with assms demo_callback show ?thesis
    by (simp add: browserLogin_def await_login_def demo_browser_def Let_def openBrowser_def respScope_def grantedScopes_def)
qed

definition login_flow :: flow where
  "login_flow = \<lparr>fl_Endpoint = ''https://h/mcp'', fl_ClientID = ''me'', fl_Scopes = [], fl_Issuer = [], CallbackPort = 0,
     disco = None, cached = None, reg = None, lastRefreshed = [], lastLoggedIn = []\<rparr>"


theorem first_report_wins_witness:
  "\<exists>s. (login_step demo_state)\<^sup>*\<^sup>* login_start s \<and> wait_for s = Got (Inr ''xyz'') \<and>
    (\<exists>q \<in> set (requests s). query_get q ''state'' = demo_state \<and> query_get q ''code'' = ''xyz'')"
proof -
  let ?s1 = "login_start\<lparr>pending := [demo_query], requests := [demo_query]\<rparr>"
  let ?s2 = "?s1\<lparr>pending := [], resCh := Some (Inr ''xyz''), reports := [Inr ''xyz'']\<rparr>"
  let ?s3 = "?s2\<lparr>resCh := None, wait_for := Got (Inr ''xyz'')\<rparr>"
  have 1: "login_step demo_state login_start ?s1"
    using arrive [of demo_state login_start demo_query] by (simp add: login_start_def)
  have 2: "login_step demo_state ?s1 ?s2"
    using report_first [of ?s1 "[]" demo_query "[]" "Inr ''xyz''" demo_state] by (simp add: login_start_def demo_callback)
  have 3: "login_step demo_state ?s2 ?s3"
    using receive [of ?s2 "Inr ''xyz''" demo_state] by (simp add: login_start_def)
  from 1 2 3 have r: "(login_step demo_state)\<^sup>*\<^sup>* login_start ?s3"
    by (meson converse_rtranclp_into_rtranclp rtranclp.rtrancl_refl)
  have g: "wait_for ?s3 = Got (Inr ''xyz'')" by simp
  from first_report_wins [OF r g] have "\<exists>q \<in> set (requests ?s3). query_get q ''state'' = demo_state \<and> query_get q ''code'' = ''xyz''"
    by auto
  with r g show ?thesis by blast
qed

end
