(* ===== verification/App.thy ===== *)
theory App
  imports Profile Bridge Login
begin

text \<open>
  The application layer (\<open>pkg/app/app.go\<close>): options, the effective profile, request headers, and
  the choice between a static bearer, no authentication and OAuth.  What the program calls but
  does not contain (the network, the keyring, the TOML decoder, the file lock, the browser) is the
  record \<open>services\<close>; the machine is the file system with the keychain, the remote side and what
  was written to standard output and to the message stream.
\<close>

record ('k, 'n) machine = "'k keyed" +
  remote :: 'n
  sys_out :: bytes
  sys_msg :: bytes
  warnings :: "bytes list"

definition print_out :: "bytes \<Rightarrow> ('k, 'n) machine \<Rightarrow> ('k, 'n) machine" where
  "print_out s w = w\<lparr>sys_out := sys_out w @ s\<rparr>"

definition print_msg :: "bytes \<Rightarrow> ('k, 'n) machine \<Rightarrow> ('k, 'n) machine" where
  "print_msg s w = w\<lparr>sys_msg := sys_msg w @ s\<rparr>"

definition warnf :: "bytes \<Rightarrow> ('k, 'n) machine \<Rightarrow> ('k, 'n) machine" where
  "warnf s w = w\<lparr>warnings := warnings w @ [s]\<rparr>"

record ('k, 'n) services =
  sv_keyring :: "'k keyring"
  sv_toml :: toml_decoder
  sv_oauth :: "('k, 'n) machine oauth_env"  \<comment> \<open>network and locks; its stores and login are not used\<close>
  sv_browser :: "('k, 'n) machine login_env"
  sv_executable :: "gerr + bytes"
  sv_sniff :: "bytes \<Rightarrow> bytes"              \<comment> \<open>\<open>http.DetectContentType\<close>\<close>

record options =
  Target :: bytes
  op_ClientID :: bytes
  op_Scopes :: "bytes list"
  op_CallbackPort :: int
  op_Issuer :: bytes
  op_Headers :: "bytes list"
  op_BearerEnv :: bytes
  NoOAuth :: bool
  NoKeychain :: bool
  NoSSE :: bool
  AllowHTTP :: bool
  Timeout :: int
  Verbose :: bool
  Version :: bytes

record app =
  opts :: options
  cfg :: config
  prof :: profile
  headers :: "(bytes \<times> bytes list) list"

section \<open>Building an application\<close>

definition ErrStaticAuth :: gerr where "ErrStaticAuth = Sentinel ''static auth configured''"

definition IsAuthError :: "gerr \<Rightarrow> bool" where
  "IsAuthError e \<longleftrightarrow> as_auth e \<or> (case as_http e of Some (status, _) \<Rightarrow> status = 401 | None \<Rightarrow> False)"

definition checkScheme :: "bytes \<Rightarrow> bool \<Rightarrow> gerr option" where
  "checkScheme raw allowHTTP =
     (case url_parse raw of
        None \<Rightarrow> Some (url_error raw)
      | Some u \<Rightarrow>
          if Scheme u \<noteq> ''http'' \<or> allowHTTP \<or> IsLoopbackHost (Hostname u) then None
          else Some (Message (''refusing plain http for non-loopback host '' @ go_quote (Hostname u) @
                 '' (use --allow-http)'')))"

definition override_profile :: "options \<Rightarrow> profile \<Rightarrow> profile" where
  "override_profile o' p0 =
     (let p1 = (if op_ClientID o' \<noteq> [] then p0\<lparr>pf_ClientID := op_ClientID o'\<rparr> else p0);
          p2 = (if op_Scopes o' \<noteq> [] then p1\<lparr>pf_Scopes := op_Scopes o'\<rparr> else p1);
          p3 = (if op_CallbackPort o' \<noteq> 0 then p2\<lparr>pf_CallbackPort := op_CallbackPort o'\<rparr> else p2);
          p4 = (if op_Issuer o' \<noteq> [] then p3\<lparr>pf_Issuer := op_Issuer o'\<rparr> else p3)
      in if op_BearerEnv o' \<noteq> [] then p4\<lparr>BearerEnv := op_BearerEnv o'\<rparr> else p4)"

definition resolveProfile :: "config \<Rightarrow> options \<Rightarrow> 'z os_scheme \<Rightarrow> gerr + profile" where
  "resolveProfile c o' w =
     (case Resolve c (Target o') of
        Inl e \<Rightarrow> Inl e
      | Inr p0 \<Rightarrow>
          let p = override_profile o' p0 in
          (case checkScheme (URL p) (AllowHTTP o') of
             Some e \<Rightarrow> Inl e
           | None \<Rightarrow>
               if BearerEnv p \<noteq> [] \<and> BearerFromEnv w (BearerEnv p) = [] then
                 Inl (Message (''bearer-env: neither MY_'' @ BearerEnv p @ '' nor '' @ BearerEnv p @ '' is set''))
               else Inr p))"

text \<open>\<open>http.Header\<close> as a map: \<open>Set\<close> and \<open>Add\<close> under the canonical key.\<close>

definition header_set :: "bytes \<Rightarrow> bytes \<Rightarrow> (bytes \<times> bytes list) list \<Rightarrow> (bytes \<times> bytes list) list" where
  "header_set k v h = mput (canon_key k) [v] h"

definition header_add :: "bytes \<Rightarrow> bytes \<Rightarrow> (bytes \<times> bytes list) list \<Rightarrow> (bytes \<times> bytes list) list" where
  "header_add k v h =
     mput (canon_key k) ((case mget h (canon_key k) of None \<Rightarrow> [] | Some vs \<Rightarrow> vs) @ [v]) h"

fun option_headers ::
  "'z os_scheme \<Rightarrow> bytes list \<Rightarrow> (bytes \<times> bytes list) list \<Rightarrow> gerr + (bytes \<times> bytes list) list" where
  "option_headers w [] h = Inr h"
| "option_headers w (kv # kvs) h =
     (case cut_at (CHR '':'') kv of
        None \<Rightarrow> Inl (Message (''bad header '' @ go_quote kv @ '', want K:V''))
      | Some (k, v) \<Rightarrow> option_headers w kvs (header_add (trim_space k) (ExpandEnv w (trim_space v)) h))"

definition buildHeaders :: "profile \<Rightarrow> options \<Rightarrow> 'z os_scheme \<Rightarrow> gerr + (bytes \<times> bytes list) list" where
  "buildHeaders p o' w =
     option_headers w (op_Headers o') (foldl (\<lambda>h (k, v). header_set k v h) [] (ExpandHeaders w (pf_Headers p)))"

definition New :: "('k, 'n) services \<Rightarrow> options \<Rightarrow> ('k, 'n) machine \<Rightarrow> gerr + app" where
  "New sv o' w =
     (case Load (sv_toml sv) [] w of
        Inl e \<Rightarrow> Inl e
      | Inr c \<Rightarrow>
          let a = \<lparr>opts = o', cfg = c, prof = empty_profile, headers = []\<rparr> in
          if Target o' = [] then Inr a
          else
            (case resolveProfile c o' w of
               Inl e \<Rightarrow> Inl e
             | Inr p \<Rightarrow>
                 (case buildHeaders p o' w of
                    Inl e \<Rightarrow> Inl e
                  | Inr h \<Rightarrow> Inr (a\<lparr>prof := p, headers := h\<rparr>))))"

section \<open>Authentication\<close>

definition staticAuth :: "app \<Rightarrow> bool" where
  "staticAuth a \<longleftrightarrow> BearerEnv (prof a) \<noteq> [] \<or> NoOAuth (opts a)"

definition flowFor :: "profile \<Rightarrow> flow" where
  "flowFor p =
     \<lparr>fl_Endpoint = URL p, fl_ClientID = pf_ClientID p, fl_Scopes = pf_Scopes p, fl_Issuer = pf_Issuer p,
      CallbackPort = pf_CallbackPort p, disco = None, cached = None, reg = None, lastRefreshed = [], lastLoggedIn = []\<rparr>"

text \<open>The backend of this run, and the environment of a flow that uses a store.\<close>

definition app_store :: "('k, 'n) services \<Rightarrow> app \<Rightarrow> ('k, 'n) machine \<Rightarrow> store" where
  "app_store sv a w = NewStore (sv_keyring sv) (NoKeychain (opts a)) w"

definition login_env_of :: "('k, 'n) services \<Rightarrow> ('k, 'n) machine login_env" where
  "login_env_of sv = (sv_browser sv)\<lparr>bl_goos := GOOS, bl_print := print_msg, bl_zone := zone, bl_sniff := sv_sniff sv\<rparr>"

definition flow_env ::
  "('k, 'n) services \<Rightarrow> store \<Rightarrow> ('k, 'n) machine \<Rightarrow> ('k, 'n) machine oauth_env" where
  "flow_env sv st w =
     (on_store (sv_keyring sv) st (ClientsDir w) (sv_oauth sv))\<lparr>oe_login := browserLogin (login_env_of sv)\<rparr>"

datatype token_provider = StaticBearer bytes | OAuthFlow flow

definition tokenProvider :: "app \<Rightarrow> 'z os_scheme \<Rightarrow> token_provider option" where
  "tokenProvider a w =
     (if BearerEnv (prof a) \<noteq> [] then Some (StaticBearer (BearerFromEnv w (BearerEnv (prof a))))
      else if NoOAuth (opts a) then None
      else Some (OAuthFlow (flowFor (prof a))))"

text \<open>A provider at work: the flow keeps its state next to the machine.\<close>

definition provide ::
  "('k, 'n) machine oauth_env \<Rightarrow> token_provider \<Rightarrow> bytes \<Rightarrow> bytes \<Rightarrow> flow \<times> ('k, 'n) machine
     \<Rightarrow> (gerr + bytes) \<times> flow \<times> ('k, 'n) machine" where
  "provide env p rejected challenge fw =
     (case p of
        StaticBearer t \<Rightarrow> static_token t rejected challenge fw
      | OAuthFlow _ \<Rightarrow> Token env rejected challenge (fst fw) (snd fw))"

section \<open>Correctness of the wiring\<close>

lemma override_fields:
  "URL (override_profile o' p) = URL p" "pf_Name (override_profile o' p) = pf_Name p"
  "pf_Headers (override_profile o' p) = pf_Headers p"
  "pf_ClientID (override_profile o' p) = (if op_ClientID o' = [] then pf_ClientID p else op_ClientID o')"
  "pf_Scopes (override_profile o' p) = (if op_Scopes o' = [] then pf_Scopes p else op_Scopes o')"
  "pf_CallbackPort (override_profile o' p) = (if op_CallbackPort o' = 0 then pf_CallbackPort p else op_CallbackPort o')"
  "pf_Issuer (override_profile o' p) = (if op_Issuer o' = [] then pf_Issuer p else op_Issuer o')"
  "BearerEnv (override_profile o' p) = (if op_BearerEnv o' = [] then BearerEnv p else op_BearerEnv o')"
  by (simp_all add: override_profile_def Let_def)

lemma New_target:
  assumes "New sv o' w = Inr a" "Target o' \<noteq> []"
  obtains c p0 where "Load (sv_toml sv) [] w = Inr c" "Resolve c (Target o') = Inr p0"
    "prof a = override_profile o' p0" "opts a = o'" "cfg a = c"
    "checkScheme (URL p0) (AllowHTTP o') = None"
    "BearerEnv (prof a) = [] \<or> BearerFromEnv w (BearerEnv (prof a)) \<noteq> []"
proof -
  obtain c where c: "Load (sv_toml sv) [] w = Inr c" using assms(1) by (cases "Load (sv_toml sv) [] w") (simp_all add: New_def)
  obtain p where p: "resolveProfile c o' w = Inr p" "prof a = p" "opts a = o'" "cfg a = c"
    using assms c by (auto simp: New_def Let_def split: sum.splits)
  then obtain p0 where p0: "Resolve c (Target o') = Inr p0" by (cases "Resolve c (Target o')") (simp_all add: resolveProfile_def)
  with p(1) have r: "(case checkScheme (URL p0) (AllowHTTP o') of Some e \<Rightarrow> Inl e | None \<Rightarrow>
      if BearerEnv (override_profile o' p0) \<noteq> [] \<and> BearerFromEnv w (BearerEnv (override_profile o' p0)) = [] then
        Inl (Message (''bearer-env: neither MY_'' @ BearerEnv (override_profile o' p0) @ '' nor '' @
          BearerEnv (override_profile o' p0) @ '' is set''))
      else Inr (override_profile o' p0)) = Inr p"
    by (simp add: resolveProfile_def Let_def override_fields(1))
  then have "checkScheme (URL p0) (AllowHTTP o') = None" "p = override_profile o' p0"
    "BearerEnv p = [] \<or> BearerFromEnv w (BearerEnv p) \<noteq> []"
    by (auto split: option.splits if_splits)
  with c p p0 that show ?thesis by blast
qed

text \<open>C28: an application is only built for an endpoint that is not plain http, or is on the loopback
  interface, or was explicitly allowed; the token never goes out in the clear by accident.\<close>

theorem plain_http_refused:
  assumes "New sv o' w = Inr a" "Target o' \<noteq> []" "url_parse (URL (prof a)) = Some u" "Scheme u = ''http''"
  shows "AllowHTTP o' \<or> IsLoopbackHost (Hostname u)"
proof -
  obtain p0 where "prof a = override_profile o' p0" "checkScheme (URL p0) (AllowHTTP o') = None"
    using New_target [OF assms(1,2)] by metis
  then have "checkScheme (URL (prof a)) (AllowHTTP o') = None" by (simp only: override_fields)
  with assms(3,4) show ?thesis by (simp add: checkScheme_def split: if_splits)
qed

text \<open>the effective profile is the resolved one with every setting given on the command line put over
  it, and nothing else changed.\<close>

theorem flags_over_profile:
  assumes "New sv o' w = Inr a" "Target o' \<noteq> []"
  shows "\<exists>c p. Load (sv_toml sv) [] w = Inr c \<and> config_ok c \<and> Resolve c (Target o') = Inr p \<and>
    prof a = p\<lparr>pf_ClientID := (if op_ClientID o' = [] then pf_ClientID p else op_ClientID o'),
      pf_Scopes := (if op_Scopes o' = [] then pf_Scopes p else op_Scopes o'),
      pf_CallbackPort := (if op_CallbackPort o' = 0 then pf_CallbackPort p else op_CallbackPort o'),
      pf_Issuer := (if op_Issuer o' = [] then pf_Issuer p else op_Issuer o'),
      BearerEnv := (if op_BearerEnv o' = [] then BearerEnv p else op_BearerEnv o')\<rparr>"
proof -
  obtain c p where "Load (sv_toml sv) [] w = Inr c" "Resolve c (Target o') = Inr p"
      "prof a = override_profile o' p" using New_target [OF assms] by blast
  then show ?thesis
    by (intro exI [of _ c] exI [of _ p]) (auto simp: load_ok override_fields intro!: profile.equality)
qed

section \<open>A concrete application\<close>

definition demo_machine :: "(memory, unit) machine" where
  "demo_machine = keyed.extend keyed_disk \<lparr>remote = (), sys_out = [], sys_msg = [], warnings = []\<rparr>"

lemma demo_machine_simps [simp]:
  "nodes demo_machine = nodes empty_disk" "faults demo_machine = []" "keys demo_machine = Map.empty"
  "getenv demo_machine = (\<lambda>_. [])" "GOOS demo_machine = ''linux''" "cwd demo_machine = []"
  "sys_out demo_machine = []" "sys_msg demo_machine = []" "warnings demo_machine = []"
  by (simp_all add: demo_machine_def keyed_disk_def empty_disk_def os.extend_def keyed.extend_def)

definition demo_services :: "(memory, unit) services" where
  "demo_services =
     \<lparr>sv_keyring = memory_keyring, sv_toml = (\<lambda>_. Inr []),
      sv_oauth = \<lparr>oe_http = (\<lambda>_ w. (Inl (Message ''connection refused''), w)), st_load = (\<lambda>_ _. Inl ErrNotFound),
        st_save = (\<lambda>_ _ w. (None, w)), st_delete = (\<lambda>_ w. (None, w)), cs_load = (\<lambda>_ _. Inl ErrNotFound),
        cs_save = (\<lambda>_ _ w. (None, w)), cs_delete = (\<lambda>_ w. (None, w)), lk_acquire = (\<lambda>_ w. (None, w)),
        lk_release = (\<lambda>_ w. w), oe_now = clock, oe_login = (\<lambda>_ _ _ w. (Inr demo_token, w))\<rparr>,
      sv_browser = \<lparr>bl_verifier = (\<lambda>w. (''verifier'', w)), AuthCodeURL = (\<lambda>_ _ _. ''https://as/authorize''),
        Exchange = (\<lambda>_ _ _ w. (Inl (Message ''connection refused''), w)), bl_listen = (\<lambda>_ w. (None, w)),
        bl_shutdown = id, bl_goos = GOOS, bl_start = (\<lambda>_ w. (None, w)), bl_wait = (\<lambda>w. (TimedOut, w)),
        bl_print = print_msg, bl_zone = zone, bl_sniff = (\<lambda>_. [])\<rparr>,
      sv_executable = Inr ''/usr/bin/mcpurl'', sv_sniff = (\<lambda>_. ''text/plain'')\<rparr>"

definition demo_options :: options where
  "demo_options = \<lparr>Target = ''http://127.0.0.1/'', op_ClientID = ''me'', op_Scopes = [], op_CallbackPort = 0, op_Issuer = [],
     op_Headers = [''X-A: b''], op_BearerEnv = [], NoOAuth = False, NoKeychain = False, NoSSE = False, AllowHTTP = False,
     Timeout = 0, Verbose = False, Version = []\<rparr>"

definition demo_app :: app where
  "demo_app = \<lparr>opts = demo_options, cfg = \<lparr>Profiles = [], cfg_Path = ''config.toml''\<rparr>,
     prof = empty_profile\<lparr>URL := ''http://127.0.0.1/'', pf_ClientID := ''me''\<rparr>, headers = [(''X-A'', [''b''])]\<rparr>"

lemma demo_load: "Load (sv_toml demo_services) [] demo_machine = Inr \<lparr>Profiles = [], cfg_Path = ''config.toml''\<rparr>"
proof -
  have "ReadFile [''config.toml''] demo_machine = Inl (Wrap (''open '' @ path_text [''config.toml''] @ '': '') ENOENT [])"
    using empty_disk_ok [of "[]"] read_unlinked [of "[]" "nodes empty_disk" "[''config.toml'']"]
    by (simp add: ReadFile_def store_ok_def) (simp add: empty_disk_def is_file_def absent_def)
  then show ?thesis
    by (simp add: Load_def DefaultPath_def UserHomeDir_def os_path_def abs_path_def ENOENT_cases)
qed

lemma demo_url: "isHTTPURL ''http://127.0.0.1/''" "checkScheme ''http://127.0.0.1/'' False = None"
  by code_simp+

lemma demo_header: "option_headers demo_machine [''X-A: b''] [] = Inr [(''X-A'', [''b''])]"
proof -
  have "cut_at (CHR '':'') ''X-A: b'' = Some (''X-A'', '' b'')" "trim_space '' b'' = ''b''" "trim_space ''X-A'' = ''X-A''"
    "canon_key ''X-A'' = ''X-A''" by code_simp+
  then show ?thesis by (simp add: ExpandEnv_def header_add_def)
qed

lemma demo_new: "New demo_services demo_options demo_machine = Inr demo_app"
  using demo_load demo_url demo_header
  by (simp add: New_def demo_options_def demo_app_def resolveProfile_def Resolve_def override_profile_def
      buildHeaders_def ExpandHeaders_def empty_profile_def)

theorem plain_http_refused_witness:
  "AllowHTTP demo_options \<or> IsLoopbackHost ''127.0.0.1''"
proof -
  have "map_option (\<lambda>u. (Scheme u, Hostname u)) (url_parse ''http://127.0.0.1/'') = Some (''http'', ''127.0.0.1'')" by code_simp
  then obtain u where u: "url_parse ''http://127.0.0.1/'' = Some u" "Scheme u = ''http''" "Hostname u = ''127.0.0.1''" by auto
  show ?thesis using plain_http_refused [OF demo_new, of u] u by (simp add: demo_options_def demo_app_def)
qed

theorem flags_over_profile_witness:
  "\<exists>c p. Load (sv_toml demo_services) [] demo_machine = Inr c \<and> Resolve c ''http://127.0.0.1/'' = Inr p \<and>
    prof demo_app = p\<lparr>pf_ClientID := ''me''\<rparr>"
  using flags_over_profile [OF demo_new] by (auto simp: demo_options_def)

end
