(* ===== verification/Commands.thy ===== *)
theory Commands
  imports App
begin

text \<open>
  The commands of the application (\<open>pkg/app/commands.go\<close>) over the machine: the bridge, login,
  token, logout, show and the configuration snippet.
\<close>

section \<open>Bridge, login, token\<close>

definition bridge_net ::
  "('k, 'n) machine oauth_env \<Rightarrow> app \<Rightarrow> ('k, 'n) machine \<Rightarrow> (flow \<times> ('k, 'n) machine) net" where
  "bridge_net env a w =
     \<lparr>http_do = (\<lambda>req (f, w). let (r, w') = oe_http env req w in (r, f, w')),
      provider = map_option (provide env) (tokenProvider a w),
      request_error = (if url_parse (URL (prof a)) = None then Some (url_error (URL (prof a))) else None)\<rparr>"

definition app_client :: "app \<Rightarrow> client" where
  "app_client a =
     \<lparr>Endpoint = URL (prof a), Headers = headers a, sessionID = [], protocolVer = [], lastEventID = []\<rparr>"

definition app_Bridge ::
  "('k, 'n) services \<Rightarrow> app \<Rightarrow> bytes \<Rightarrow> gerr option \<Rightarrow> ('k, 'n) machine \<Rightarrow> gerr option \<times> ('k, 'n) machine" where
  "app_Bridge sv a input read_err w =
     (let env = flow_env sv (app_store sv a w) w;
          (r, b, f, w1) =
            run (sv_sniff sv) (bridge_net env a w) input read_err (new_bridge (app_client a)) (flowFor (prof a), w)
      in (r, print_out (concat (stdout b)) w1))"

definition app_Login ::
  "('k, 'n) services \<Rightarrow> app \<Rightarrow> ('k, 'n) machine \<Rightarrow> (gerr + token) \<times> ('k, 'n) machine" where
  "app_Login sv a w =
     (if staticAuth a then (Inl (Wrap [] ErrStaticAuth '': login does not apply''), w)
      else
        let (r, _, w1) = Login (flow_env sv (app_store sv a w) w) (flowFor (prof a)) w in (r, w1))"

definition app_AccessToken ::
  "('k, 'n) services \<Rightarrow> app \<Rightarrow> ('k, 'n) machine \<Rightarrow> (gerr + bytes) \<times> ('k, 'n) machine" where
  "app_AccessToken sv a w =
     (case tokenProvider a w of
        None \<Rightarrow> (Inl (Message ''no-oauth: no token to print''), w)
      | Some p \<Rightarrow>
          let (r, _, w1) = provide (flow_env sv (app_store sv a w) w) p [] [] (flowFor (prof a), w) in (r, w1))"

section \<open>Logout\<close>

text \<open>The text of a message that holds an error.\<close>

definition dropTokens ::
  "('k, 'n) services \<Rightarrow> store \<Rightarrow> profile \<Rightarrow> ('k, 'n) machine \<Rightarrow> ('k, 'n) machine" where
  "dropTokens sv st p w =
     (if URL p = [] then w
      else
        let (fg, _, w1) = Forget (flow_env sv st w) (flowFor p) w in
        case fg_err fg of
          Some e \<Rightarrow> warnf (''logout '' @ pf_Name p @ '': '' @ err_text (sv_sniff sv) e) w1
        | None \<Rightarrow>
            let w2 = (if fg_token fg then print_msg (''dropped tokens for '' @ URL p @ [LF]) w1 else w1)
            in if fg_registration fg then print_msg (''dropped client registration for '' @ URL p @ [LF]) w2 else w2)"

definition Logout :: "('k, 'n) services \<Rightarrow> app \<Rightarrow> ('k, 'n) machine \<Rightarrow> ('k, 'n) machine" where
  "Logout sv a w = dropTokens sv (app_store sv a w) (prof a) w"

definition LogoutAll :: "('k, 'n) services \<Rightarrow> app \<Rightarrow> ('k, 'n) machine \<Rightarrow> ('k, 'n) machine" where
  "LogoutAll sv a w =
     (let st = app_store sv a w;
          w1 = foldl (\<lambda>v (_, p). dropTokens sv st p v) w (Profiles (cfg a))
      in snd (WipeFiles w1))"

section \<open>Show\<close>

text \<open>\<open>%-20s\<close> pads to a width in runes.\<close>

function rune_count :: "bytes \<Rightarrow> nat" where
  "rune_count s = (if s = [] then 0 else Suc (rune_count (drop (max 1 (rune_width s)) s)))"
  by pat_completeness auto
termination by (relation "measure length") auto

declare rune_count.simps [simp del]

definition pad_right :: "nat \<Rightarrow> bytes \<Rightarrow> bytes" where
  "pad_right n s = s @ replicate (n - rune_count s) (CHR '' '')"

text \<open>\<open>time.DateOnly\<close> in the local zone.\<close>

definition date_only :: "(int \<Rightarrow> int) \<Rightarrow> int \<Rightarrow> bytes" where
  "date_only zn t = (case rfc3339 (zn t) t of None \<Rightarrow> [] | Some s \<Rightarrow> take 10 s)"

definition show_line :: "bytes \<Rightarrow> bytes \<Rightarrow> bytes" where
  "show_line label s = label @ s @ [LF]"

definition profile_line :: "bytes \<times> profile \<Rightarrow> bytes" where
  "profile_line np = ''@'' @ pad_right 20 (fst np) @ '' '' @ URL (snd np) @ [LF]"

definition client_line :: "('k, 'n) services \<Rightarrow> profile \<Rightarrow> ('k, 'n) machine \<Rightarrow> bytes" where
  "client_line sv p w =
     (if pf_ClientID p \<noteq> [] then show_line ''clientID:     '' (pf_ClientID p)
      else
        case fst (Registration (flow_env sv (PlainFiles []) w) (flowFor p) w) of
          Inr (Some r) \<Rightarrow>
            show_line ''clientID:     '' (rg_ClientID r @ '' (registered dynamically '' @ date_only (zone w) (RegisteredAt r) @ '')'')
        | _ \<Rightarrow> [])"

definition show_profile :: "('k, 'n) services \<Rightarrow> profile \<Rightarrow> ('k, 'n) machine \<Rightarrow> bytes" where
  "show_profile sv p w =
     show_line ''profile:      @'' (pf_Name p) @ show_line ''url:          '' (URL p) @ client_line sv p w @
     (if pf_Issuer p \<noteq> [] then show_line ''issuer:       '' (pf_Issuer p) else []) @
     (if pf_CallbackPort p \<noteq> 0 then show_line ''callbackPort: '' (dec_int (pf_CallbackPort p)) else []) @
     (if pf_Scopes p \<noteq> [] then show_line ''scopes:       '' (join '', '' (pf_Scopes p)) else []) @
     (if BearerEnv p \<noteq> [] then show_line ''bearerEnv:    '' (BearerEnv p @ '' (value not shown)'') else []) @
     (if pf_Headers p \<noteq> [] then show_line ''headers:      '' (join '', '' (mkeys (pf_Headers p))) else [])"

definition Show ::
  "('k, 'n) services \<Rightarrow> app \<Rightarrow> bytes \<Rightarrow> ('k, 'n) machine \<Rightarrow> gerr option \<times> ('k, 'n) machine" where
  "Show sv a name w =
     (if name = [] then
        if Profiles (cfg a) = [] then (None, print_out (''no profiles in '' @ cfg_Path (cfg a) @ [LF]) w)
        else (None, print_out (concat (map profile_line (Profiles (cfg a)))) w)
      else
        case Get (cfg a) name of
          Inl e \<Rightarrow> (Some e, w)
        | Inr p \<Rightarrow> (None, print_out (show_profile sv p w) w))"

section \<open>The configuration snippet\<close>

definition hostLabel :: "bytes \<Rightarrow> bytes" where
  "hostLabel rawURL =
     (case url_parse rawURL of
        Some u \<Rightarrow> if Hostname u \<noteq> [] then hd (split_on (CHR ''.'') (Hostname u)) else ''mcp''
      | None \<Rightarrow> ''mcp'')"

definition line :: "bytes \<Rightarrow> bytes" where "line s = s @ [LF]"

definition config_snippet :: "bytes \<Rightarrow> bytes \<Rightarrow> bytes \<Rightarrow> bytes" where
  "config_snippet name arg url =
     line ''# Claude Desktop / Cursor / Windsurf (stdio bridge):'' @
     line ''{'' @
     line (''  '' @ [DQ] @ ''mcpServers'' @ [DQ] @ '': {'') @
     line (''    '' @ go_quote name @ '': {'') @
     line (''      '' @ [DQ] @ ''command'' @ [DQ] @ '': '' @ [DQ] @ ''mcpurl'' @ [DQ] @ '','') @
     line (''      '' @ [DQ] @ ''args'' @ [DQ] @ '': ['' @ go_quote arg @ '']'') @
     line ''    }'' @
     line ''  }'' @
     line ''}'' @
     line (''# Claude Code (no bridge needed '' @ em_dash @ '' connects directly):'') @
     line (''#   claude mcp add --transport http '' @ name @ '' '' @ url)"

definition ClaudeConfig ::
  "app \<Rightarrow> bytes \<Rightarrow> bytes \<Rightarrow> ('k, 'n) machine \<Rightarrow> gerr option \<times> ('k, 'n) machine" where
  "ClaudeConfig a target name0 w =
     (case Resolve (cfg a) target of
        Inl e \<Rightarrow> (Some e, w)
      | Inr p \<Rightarrow>
          let name1 = (if name0 = [] then pf_Name p else name0);
              name = (if name1 = [] then hostLabel (URL p) else name1);
              arg = (if pf_Name p \<noteq> [] then ''@'' @ pf_Name p else target)
          in (None, print_out (config_snippet name arg (URL p)) w))"

section \<open>Static authentication\<close>

text \<open>with static authentication OAuth is out of play: a login is refused before anything happens, a
  token is the configured bearer or an error, neither touches the machine, and the bridge has no
  flow to ask.\<close>

theorem static_auth_offline:
  assumes "staticAuth a"
  shows "app_Login sv a w = (Inl (Wrap [] ErrStaticAuth '': login does not apply''), w) \<and>
    app_AccessToken sv a w =
      (if BearerEnv (prof a) = [] then Inl (Message ''no-oauth: no token to print'')
       else Inr (BearerFromEnv w (BearerEnv (prof a))), w) \<and>
    (\<forall>f. tokenProvider a w \<noteq> Some (OAuthFlow f))"
  using assms
  by (simp add: app_Login_def app_AccessToken_def staticAuth_def tokenProvider_def provide_def static_token_def)

theorem static_auth_offline_witness:
  "app_Login demo_services (demo_app\<lparr>opts := demo_options\<lparr>NoOAuth := True\<rparr>\<rparr>) demo_machine =
     (Inl (Wrap [] ErrStaticAuth '': login does not apply''), demo_machine)"
  using static_auth_offline [of "demo_app\<lparr>opts := demo_options\<lparr>NoOAuth := True\<rparr>\<rparr>" demo_services demo_machine]
  by (simp add: staticAuth_def)

section \<open>What is shown\<close>

text \<open>A profile without the values of its headers.\<close>

definition without_values :: "profile \<Rightarrow> profile" where
  "without_values p = p\<lparr>pf_Headers := map (\<lambda>(k, v). (k, [])) (pf_Headers p)\<rparr>"

definition hide_values :: "app \<Rightarrow> app" where
  "hide_values a = a\<lparr>cfg := (cfg a)\<lparr>Profiles := map (\<lambda>(n, p). (n, without_values p)) (Profiles (cfg a))\<rparr>\<rparr>"

lemma without_values_fields:
  "pf_Name (without_values p) = pf_Name p" "URL (without_values p) = URL p" "pf_ClientID (without_values p) = pf_ClientID p"
  "pf_CallbackPort (without_values p) = pf_CallbackPort p" "pf_Scopes (without_values p) = pf_Scopes p"
  "pf_Issuer (without_values p) = pf_Issuer p" "BearerEnv (without_values p) = BearerEnv p"
  "mkeys (pf_Headers (without_values p)) = mkeys (pf_Headers p)"
  "(pf_Headers (without_values p) = []) = (pf_Headers p = [])"
  by (auto simp: without_values_def)

lemma show_profile_without: "show_profile sv (without_values p) w = show_profile sv p w"
  unfolding show_profile_def client_line_def flowFor_def without_values_fields ..

lemma mget_without: "mget (map (\<lambda>(n, p). (n, without_values p)) m) n = map_option without_values (mget m n)"
  by (induction m) auto

lemma Get_without:
  "Get (cfg (hide_values a)) name = (case Get (cfg a) name of Inl e \<Rightarrow> Inl e | Inr p \<Rightarrow> Inr (without_values p))"
proof -
  have k: "mkeys (map (\<lambda>(n, p). (n, without_values p)) m) = mkeys m" for m by (induction m) auto
  have p: "Profiles (cfg (hide_values a)) = map (\<lambda>(n, p). (n, without_values p)) (Profiles (cfg a))"
    "cfg_Path (cfg (hide_values a)) = cfg_Path (cfg a)" by (simp_all add: hide_values_def)
  show ?thesis unfolding Get_def Let_def Names_def p mget_without k by (simp split: option.split)
qed

text \<open>C33: what is shown of the profiles does not depend on a single header value: a profile's headers may
  hold secrets, and only their names are printed.\<close>

theorem show_hides_header_values: "Show sv (hide_values a) name w = Show sv a name w"
proof -
  have p: "profile_line \<circ> (\<lambda>(n, p). (n, without_values p)) = profile_line"
    by (auto simp: profile_line_def without_values_fields)
  have l: "Show sv (hide_values a) [] w = Show sv a [] w"
    by (simp add: Show_def hide_values_def p)
  show ?thesis
  proof (cases "name = []")
    case False
    then show ?thesis by (cases "Get (cfg a) name") (simp_all add: Show_def Get_without show_profile_without)
  qed (simp add: l)
qed

section \<open>Logging out of everything\<close>

text \<open>What a deletion leaves of the machine: it stays free of faults, and its directories stay where they were.\<close>

definition calm :: "'z os_scheme \<Rightarrow> 'z os_scheme \<Rightarrow> bool" where
  "calm w w' \<longleftrightarrow> (faults w = [] \<longrightarrow> faults w' = []) \<and> getenv w' = getenv w \<and> GOOS w' = GOOS w \<and> cwd w' = cwd w"

lemma calm_refl [simp]: "calm w w" by (simp add: calm_def)

lemma calm_trans: "calm a b \<Longrightarrow> calm b c \<Longrightarrow> calm a c" by (simp add: calm_def)

lemma sys_calm: "sys refuse change w = (r, w') \<Longrightarrow> calm w w'"
  by (auto simp: sys_def next_fault_def set_nodes_def calm_def split: list.splits option.splits)

lemma print_calm [simp]: "calm w (print_msg s v) = calm w v" "calm w (warnf s v) = calm w v"
  by (simp_all add: calm_def print_msg_def warnf_def)

lemma delete_calm:
  "FileStore_Delete dir key w = (r, w') \<Longrightarrow> calm w w'" "ClientStore_Delete dir key w = (r, w') \<Longrightarrow> calm w w'"
  "KeychainStore_Delete dir key w = (r, w') \<Longrightarrow> calm w w'"
  by (auto simp: FileStore_Delete_def ClientStore_Delete_def KeychainStore_Delete_def sys_remove_def
      dest: sys_calm split: prod.splits option.splits)

lemma Forget_calm: "Forget (flow_env sv st v) f w = (fg, f', w') \<Longrightarrow> calm w w'"
proof -
  have d: "st_delete (flow_env sv st v) key w = (r, w') \<Longrightarrow> calm w w'"
    "cs_delete (flow_env sv st v) key w = (r, w') \<Longrightarrow> calm w w'" for key w r w'
    using delete_calm by (auto simp: flow_env_def on_store_def Store_Delete_def split: store.splits)
  show "Forget (flow_env sv st v) f w = (fg, f', w') \<Longrightarrow> calm w w'"
    by (auto simp: Forget_def Let_def split: prod.splits sum.splits option.splits if_splits
        dest: d intro: calm_trans)
qed

lemma dropTokens_calm: "calm w (dropTokens sv st p w)"
proof -
  obtain fg f w1 where "Forget (flow_env sv st w) (flowFor p) w = (fg, f, w1)" by (rule prod_cases3)
  with Forget_calm [OF this] show ?thesis
    by (auto simp: dropTokens_def Let_def split: option.split)
qed

lemma dropTokens_all_calm: "calm w v \<Longrightarrow> calm w (foldl (\<lambda>v (_, p). dropTokens sv st p v) v ps)"
proof (induction ps arbitrary: v)
  case (Cons e ps)
  then show ?case using calm_trans [OF Cons.prems dropTokens_calm] by (cases e) simp
qed simp

lemma RemoveAll_gone: "RemoveAll p w = (r, w') \<Longrightarrow> faults w = [] \<Longrightarrow> prefix p q \<Longrightarrow> nodes w' q = None"
  by (auto simp: RemoveAll_def sys_def next_fault_def set_nodes_def)

lemma RemoveAll_keeps_absent: "RemoveAll p w = (r, w') \<Longrightarrow> nodes w q = None \<Longrightarrow> nodes w' q = None"
  by (auto simp: RemoveAll_def sys_def next_fault_def set_nodes_def split: list.splits option.splits)

lemma WipeFiles_gone:
  assumes "faults w = []" "prefix (TokensDir w) q \<or> prefix (ClientsDir w) q"
  shows "nodes (snd (WipeFiles w)) q = None"
proof -
  obtain a w1 where a: "RemoveAll (TokensDir w) w = (a, w1)" by (rule prod.exhaust)
  obtain b w2 where b: "RemoveAll (ClientsDir w1) w1 = (b, w2)" by (rule prod.exhaust)
  have c: "calm w w1" using a unfolding RemoveAll_def by (rule sys_calm)
  then have "ClientsDir w1 = ClientsDir w"
    by (simp add: calm_def ClientsDir_def BaseDir_def UserHomeDir_def)
  with assms a b c RemoveAll_gone [OF a] RemoveAll_gone [OF b] RemoveAll_keeps_absent [OF b]
  show ?thesis by (auto simp: WipeFiles_def calm_def)
qed

text \<open>C32: when no file operation fails, logging out of everything leaves no token file, plain or encrypted,
  and no client registration, also for endpoints that no profile names.\<close>

theorem logout_all_wipes:
  assumes "faults w = []" "prefix (TokensDir w) q \<or> prefix (ClientsDir w) q"
  shows "nodes (LogoutAll sv a w) q = None"
proof -
  define st where "st = app_store sv a w"
  have c: "calm w (foldl (\<lambda>v (_, p). dropTokens sv st p v) w (Profiles (cfg a)))"
    using dropTokens_all_calm [OF calm_refl] .
  then have "TokensDir (foldl (\<lambda>v (_, p). dropTokens sv st p v) w (Profiles (cfg a))) = TokensDir w"
    "ClientsDir (foldl (\<lambda>v (_, p). dropTokens sv st p v) w (Profiles (cfg a))) = ClientsDir w"
    by (simp_all add: calm_def TokensDir_def ClientsDir_def BaseDir_def UserHomeDir_def)
  with c assms show ?thesis
    by (simp add: LogoutAll_def st_def [symmetric] Let_def WipeFiles_gone calm_def)
qed

theorem logout_all_wipes_witness:
  "nodes (LogoutAll demo_services demo_app demo_machine) ([''.mcpurl'', ''tokens'', ''k.enc'']) = None"
  by (rule logout_all_wipes) (simp_all add: TokensDir_def BaseDir_def UserHomeDir_def abs_path_def)

end
