(* ===== verification/Float64.thy ===== *)
theory Float64
  imports Complex_Main JsonCodec
begin

text \<open>
  JSON numbers as \<open>float64\<close>: \<open>strconv.ParseFloat\<close> (round to nearest, ties to even) and the shortest
  decimal that reads back as the same value, in the layout of \<open>encoding/json\<close>.  A float is its
  sign, mantissa and exponent, the value \<open>m * 2 ^ e\<close> with \<open>2 ^ 52 \<le> m < 2 ^ 53\<close>, or \<open>m < 2 ^ 52\<close> and
  the least exponent.
\<close>

datatype f64 = F64 (f_neg: bool) (f_mant: int) (f_exp: int)

function bit_length :: "int \<Rightarrow> int" where
  "bit_length n = (if n \<le> 0 then 0 else 1 + bit_length (n div 2))"
  by pat_completeness auto
termination by (relation "measure nat") auto

declare bit_length.simps [simp del]

definition pow :: "int \<Rightarrow> int \<Rightarrow> int" where "pow b k = b ^ nat k"

section \<open>Rounding\<close>

text \<open>The exponent of the binade of a positive ratio.\<close>

definition binade :: "int \<Rightarrow> int \<Rightarrow> int" where
  "binade a b =
     (let k = bit_length a - bit_length b
      in if a * pow 2 (- k) < b * pow 2 k then k - 1 else k)"

definition half_even :: "int \<Rightarrow> int \<Rightarrow> int" where
  "half_even a b =
     (let q = a div b; r = a mod b
      in if 2 * r > b \<or> 2 * r = b \<and> odd q then q + 1 else q)"

text \<open>The nearest mantissa and exponent; \<open>None\<close> beyond the largest finite value.\<close>

definition round_ratio :: "int \<Rightarrow> int \<Rightarrow> (int \<times> int) option" where
  "round_ratio a b =
     (let e = max (binade a b - 52) (- 1074);
          m = half_even (a * pow 2 (- e)) (b * pow 2 e);
          (m, e) = (if m = 2 ^ 53 then (2 ^ 52, e + 1) else (m, e))
      in if e > 971 then None else Some (m, e))"

text \<open>A decimal \<open>d * 10 ^ x\<close>.\<close>

definition round_decimal :: "int \<Rightarrow> int \<Rightarrow> (int \<times> int) option" where
  "round_decimal d x = (if d = 0 then Some (0, - 1074) else round_ratio (d * pow 10 x) (pow 10 (- x)))"

section \<open>Reading a literal\<close>

definition digit_val :: "char \<Rightarrow> int" where "digit_val c = int (byte c) - 48"

definition digits_val :: "bytes \<Rightarrow> int" where
  "digits_val s = foldl (\<lambda>n c. n * 10 + digit_val c) 0 s"

text \<open>The decimal of a literal that the scanner accepted: digits, fraction, exponent.\<close>

definition literal_decimal :: "bytes \<Rightarrow> int \<times> int" where
  "literal_decimal s =
     (let ip = takeWhile is_digit s; r = dropWhile is_digit s;
          (fp, r) = (if prefix ''.'' r then (takeWhile is_digit (tl r), dropWhile is_digit (tl r)) else ([], r));
          x = (case r of
                 [] \<Rightarrow> 0
               | _ # t \<Rightarrow>
                   if prefix ''-'' t then - digits_val (tl t)
                   else if prefix ''+'' t then digits_val (tl t) else digits_val t)
      in (digits_val (ip @ fp), x - int (length fp)))"

definition parse_float :: "bytes \<Rightarrow> f64 option" where
  "parse_float s =
     (let neg = prefix ''-'' s; (d, x) = literal_decimal (if neg then tl s else s)
      in map_option (\<lambda>(m, e). F64 neg m e) (round_decimal d x))"

section \<open>Writing the shortest decimal\<close>

function int_digits :: "int \<Rightarrow> bytes" where
  "int_digits n = (if n < 10 then [char_of (48 + n)] else int_digits (n div 10) @ [char_of (48 + n mod 10)])"
  by pat_completeness auto
termination by (relation "measure nat") auto

declare int_digits.simps [simp del]

text \<open>Digit by digit, the first truncation or its successor that rounds to the value; of two that do
  the nearer one.  \<open>k\<close> digits of \<open>n\<close> are cut off, the decimal point is \<open>p\<close> digits from the right.\<close>

fun shortest_loop :: "int \<times> int \<Rightarrow> int \<Rightarrow> int \<Rightarrow> nat \<Rightarrow> int \<times> int" where
  "shortest_loop v n p 0 = (n, - p)"
| "shortest_loop v n p (Suc k) =
     (let u = pow 10 (int (Suc k)); t = n div u; x = int (Suc k) - p;
          down = (round_decimal t x = Some v); up = (round_decimal (t + 1) x = Some v)
      in if down \<and> up then (half_even n u, x)
         else if down then (t, x)
         else if up then (t + 1, x)
         else shortest_loop v n p k)"

definition shortest :: "int \<Rightarrow> int \<Rightarrow> int \<times> int" where
  "shortest m e =
     (let n = (if e \<ge> 0 then m * pow 2 e else m * pow 5 (- e)); p = (if e \<ge> 0 then 0 else - e)
      in shortest_loop (m, e) n p (length (int_digits n) - 1))"

definition trim_zeros :: "bytes \<Rightarrow> bytes" where
  "trim_zeros s = rev (dropWhile (\<lambda>c. c = CHR ''0'') (rev s))"

text \<open>The two layouts, for digits \<open>ds\<close> with the decimal point after \<open>dp\<close> of them.\<close>

definition format_f :: "bytes \<Rightarrow> int \<Rightarrow> bytes" where
  "format_f ds dp =
     (if dp \<le> 0 then ''0.'' @ replicate (nat (- dp)) (CHR ''0'') @ ds
      else if nat dp \<ge> length ds then ds @ replicate (nat dp - length ds) (CHR ''0'')
      else take (nat dp) ds @ ''.'' @ drop (nat dp) ds)"

definition format_e :: "bytes \<Rightarrow> int \<Rightarrow> bytes" where
  "format_e ds dp =
     take 1 ds @ (if length ds > 1 then ''.'' @ tl ds else []) @ ''e'' @
     (if dp - 1 < 0 then ''-'' else ''+'') @ int_digits \<bar>dp - 1\<bar>"

definition below :: "int \<times> int \<Rightarrow> int \<times> int \<Rightarrow> bool" where
  "below v w = (fst v * pow 2 (snd v - snd w) < fst w * pow 2 (snd w - snd v))"

definition format_float :: "f64 \<Rightarrow> bytes" where
  "format_float f =
     (let m = f_mant f; e = f_exp f in
      (if f_neg f then ''-'' else []) @
      (if m = 0 then ''0''
       else
         let (d, x) = shortest m e; ds = int_digits d; dp = int (length ds) + x; ds' = trim_zeros ds in
         if below (m, e) (the (round_decimal 1 (- 6))) \<or> \<not> below (m, e) (the (round_decimal 1 21))
         then format_e ds' dp else format_f ds' dp))"

text \<open>A JSON number that went through \<open>float64\<close>.\<close>

definition reformat :: "bytes \<Rightarrow> bytes option" where
  "reformat s = map_option format_float (parse_float s)"

section \<open>Rounding a ratio\<close>

lemma bit_length_bounds: "0 < n \<Longrightarrow> 1 \<le> bit_length n \<and> 2 ^ nat (bit_length n - 1) \<le> n \<and> n < 2 ^ nat (bit_length n)"
proof (induction n rule: bit_length.induct)
  case (1 n)
  show ?case
  proof (cases "n = 1")
    case False
    define k where "k = bit_length (n div 2)"
    have k: "1 \<le> k" "2 ^ nat (k - 1) \<le> n div 2" "n div 2 < 2 ^ nat k" using 1 False by (auto simp: k_def)
    have "bit_length n = 1 + k" using 1(2) by (subst bit_length.simps) (simp add: k_def)
    moreover have "(2 :: int) ^ nat k = 2 * 2 ^ nat (k - 1)" "(2 :: int) ^ nat (1 + k) = 2 * 2 ^ nat k"
      using k(1) by (simp_all add: nat_add_distrib flip: power_Suc Suc_nat_eq_nat_zadd1)
    ultimately show ?thesis using k by auto
  qed (simp add: bit_length.simps [of 1] bit_length.simps [of 0])
qed

lemma pow_nonneg: "0 \<le> k \<Longrightarrow> real_of_int (pow b k) = real_of_int b powi k"
  by (simp add: pow_def power_int_def)

lemma pow_neg: "k \<le> 0 \<Longrightarrow> pow b k = 1"
  by (simp add: pow_def)

lemma pow_pos: "0 < b \<Longrightarrow> 0 < pow b k"
  by (simp add: pow_def)

text \<open>A shift by \<open>k\<close>, either up in the numerator or down in the denominator.\<close>

lemma pow_shift: "0 < b \<Longrightarrow> real_of_int (pow b k) / real_of_int (pow b (- k)) = real_of_int b powi k"
  by (cases "0 \<le> k") (simp_all add: pow_nonneg pow_neg power_int_minus divide_inverse)

lemma shifted_ratio:
  "0 < b \<Longrightarrow> 0 < c \<Longrightarrow> real_of_int (a * pow c (- k)) / real_of_int (b * pow c k) = real_of_int a / real_of_int b / real_of_int c powi k"
  using pow_shift [of c "- k"] pow_pos [of c k] pow_pos [of c "- k"] by (simp add: power_int_minus field_simps)

lemma binade_bounds:
  assumes "0 < a" "0 < b"
  shows "2 powi (binade a b) \<le> real_of_int a / real_of_int b \<and> real_of_int a / real_of_int b < 2 powi (binade a b + 1)"
proof -
  define A where "A = bit_length a"
  define B where "B = bit_length b"
  define k where "k = A - B"
  have a: "2 powi (A - 1) \<le> real_of_int a" "real_of_int a < 2 powi A"
    and b: "2 powi (B - 1) \<le> real_of_int b" "real_of_int b < 2 powi B"
    using bit_length_bounds [OF assms(1)] bit_length_bounds [OF assms(2)]
    by (simp_all add: A_def B_def power_int_def flip: of_int_less_iff of_int_le_iff)
  have up: "real_of_int a / real_of_int b < 2 powi (k + 1)"
  proof -
    have "real_of_int a / real_of_int b < 2 powi A / 2 powi (B - 1)"
      using a(2) b(1) assms by (intro frac_less) (auto simp: less_imp_le)
    then show ?thesis by (simp add: k_def algebra_simps flip: power_int_diff)
  qed
  have down: "2 powi (k - 1) \<le> real_of_int a / real_of_int b"
  proof -
    have "2 powi (A - 1) / 2 powi B \<le> real_of_int a / real_of_int b"
      using a(1) b(2) assms by (intro frac_le) (auto simp: less_imp_le)
    then show ?thesis by (simp add: k_def algebra_simps flip: power_int_diff)
  qed
  have "a * pow 2 (- k) < b * pow 2 k \<longleftrightarrow> real_of_int (a * pow 2 (- k)) / real_of_int (b * pow 2 k) < 1"
    using assms pow_pos [of 2 k] by (simp add: divide_less_eq flip: of_int_mult)
  also have "\<dots> \<longleftrightarrow> real_of_int a / real_of_int b < 2 powi k"
    unfolding shifted_ratio [OF assms(2), of 2 a k, OF zero_less_numeral] of_int_numeral
    by (rule divide_less_eq_1_pos) simp
  finally have "binade a b = (if real_of_int a / real_of_int b < 2 powi k then k - 1 else k)"
    by (simp add: binade_def Let_def A_def B_def k_def)
  with up down show ?thesis by auto
qed

lemma powi_less: "(2 :: real) powi i < 2 powi j \<Longrightarrow> i < j"
  by (rule ccontr) (use power_int_increasing [of j i "2 :: real"] in auto)

lemma binade_unique:
  assumes "0 < a" "0 < b" "2 powi k \<le> real_of_int a / real_of_int b" "real_of_int a / real_of_int b < 2 powi (k + 1)"
  shows "binade a b = k"
proof -
  have "(2 :: real) powi (binade a b) < 2 powi (k + 1)" "(2 :: real) powi k < 2 powi (binade a b + 1)"
    using binade_bounds [OF assms(1,2)] assms(3,4) by linarith+
  then have "binade a b < k + 1" "k < binade a b + 1" by (simp_all only: powi_less)
  then show ?thesis by simp
qed

lemma half_even_real:
  assumes "0 < b" "v = real_of_int a / real_of_int b"
  shows "half_even a b = (if 2 * (v - \<lfloor>v\<rfloor>) > 1 \<or> 2 * (v - \<lfloor>v\<rfloor>) = 1 \<and> odd \<lfloor>v\<rfloor> then \<lfloor>v\<rfloor> + 1 else \<lfloor>v\<rfloor>)"
proof -
  have q: "\<lfloor>v\<rfloor> = a div b" using assms by (simp add: floor_divide_of_int_eq)
  have "real_of_int (a mod b) = (v - \<lfloor>v\<rfloor>) * b"
    using assms unfolding q by (simp add: field_simps flip: of_int_mult of_int_add)
  then have r: "real_of_int (2 * (a mod b)) = 2 * (v - \<lfloor>v\<rfloor>) * b" by simp
  have "2 * (a mod b) > b \<longleftrightarrow> real_of_int (2 * (a mod b)) > 1 * real_of_int b"
    "2 * (a mod b) = b \<longleftrightarrow> real_of_int (2 * (a mod b)) = 1 * real_of_int b"
    unfolding mult_1 of_int_less_iff of_int_eq_iff by (rule refl)+
  then have "2 * (a mod b) > b \<longleftrightarrow> 2 * (v - \<lfloor>v\<rfloor>) > 1" "2 * (a mod b) = b \<longleftrightarrow> 2 * (v - \<lfloor>v\<rfloor>) = 1"
    unfolding r using assms(1) by (simp_all only: mult_less_cancel_right_pos of_int_0_less_iff mult_right_cancel)
  then show ?thesis unfolding half_even_def Let_def q by simp
qed

text \<open>The result depends on the ratio only.\<close>

lemma round_ratio_cong:
  assumes "0 < a" "0 < b" "0 < a'" "0 < b'" "real_of_int a / real_of_int b = real_of_int a' / real_of_int b'"
  shows "round_ratio a b = round_ratio a' b'"
proof -
  have bin: "binade a b = binade a' b'"
    using binade_bounds [OF assms(3,4)] assms(5) by (intro binade_unique [OF assms(1,2)]) simp_all
  have "half_even (a * pow 2 (- e)) (b * pow 2 e) = half_even (a' * pow 2 (- e)) (b' * pow 2 e)" for e
  proof -
    have p: "0 < b * pow 2 e" "0 < b' * pow 2 e" using assms pow_pos [of 2 e] by simp_all
    have "real_of_int (a * pow 2 (- e)) / real_of_int (b * pow 2 e) =
        real_of_int (a' * pow 2 (- e)) / real_of_int (b' * pow 2 e)"
      using shifted_ratio [OF assms(2), of 2 a e] shifted_ratio [OF assms(4), of 2 a' e] assms(5) by simp
    with half_even_real [OF p(1) refl] half_even_real [OF p(2) refl] show ?thesis by simp
  qed
  with bin show ?thesis by (simp add: round_ratio_def)
qed

definition float_val :: "int \<times> int \<Rightarrow> bool" where
  "float_val v \<longleftrightarrow>
     (case v of (m, e) \<Rightarrow> - 1074 \<le> e \<and> e \<le> 971 \<and> 0 \<le> m \<and> m < 2 ^ 53 \<and> (e = - 1074 \<or> 2 ^ 52 \<le> m))"

definition float_ok :: "f64 \<Rightarrow> bool" where
  "float_ok f \<longleftrightarrow> float_val (f_mant f, f_exp f)"

text \<open>A value of the format is its own rounding.\<close>

lemma round_exact:
  assumes "0 < a" "0 < b" "float_val (m, e)" "0 < m" "real_of_int a / real_of_int b = real_of_int m * 2 powi e"
  shows "round_ratio a b = Some (m, e)"
proof -
  note v = assms(3) [unfolded float_val_def, simplified]
  have "max (binade a b - 52) (- 1074) = e"
  proof (cases "2 ^ 52 \<le> m")
    case True
    then have m: "(2 :: real) powi 52 \<le> real_of_int m" "real_of_int m < 2 powi 53" using v by simp_all
    have "(2 :: real) powi (e + 52) \<le> real_of_int m * 2 powi e" "real_of_int m * 2 powi e < 2 powi (e + 52 + 1)"
      using m by (simp_all add: power_int_add)
    with assms(5) have "binade a b = e + 52" by (intro binade_unique [OF assms(1,2)]) simp_all
    with v show ?thesis by simp
  next
    case False
    with v have e: "e = - 1074" by simp
    from False have "real_of_int m < 2 powi 52" by simp
    then have "real_of_int m * 2 powi e < 2 powi 52 * 2 powi e" by simp
    also have "\<dots> = 2 powi (- 1022)" by (simp add: e flip: power_int_add)
    finally have "2 powi (binade a b) < (2 :: real) powi (- 1022)" using binade_bounds [OF assms(1,2)] assms(5) by simp
    then have "binade a b < - 1022" by (rule powi_less)
    with e show ?thesis by simp
  qed
  moreover have "half_even (a * pow 2 (- e)) (b * pow 2 e) = m"
  proof -
    have p: "0 < b * pow 2 e" using assms pow_pos [of 2 e] by simp
    have "real_of_int m = real_of_int (a * pow 2 (- e)) / real_of_int (b * pow 2 e)"
      using shifted_ratio [OF assms(2), of 2 a e] assms(5) by simp
    from half_even_real [OF p this] show ?thesis by simp
  qed
  ultimately show ?thesis using v by (simp add: round_ratio_def)
qed

text \<open>Every rounding is a value of the format.\<close>

lemma half_even_bounds:
  assumes "0 < b" "v = real_of_int a / real_of_int b"
  shows "v < real_of_int n \<Longrightarrow> half_even a b \<le> n" "real_of_int n \<le> v \<Longrightarrow> n \<le> half_even a b"
  unfolding half_even_real [OF assms] by (auto simp: le_floor_iff floor_less_iff) linarith+

lemma round_ratio_val:
  assumes "0 < a" "0 < b" "round_ratio a b = Some v"
  shows "float_val v"
proof -
  define e where "e = max (binade a b - 52) (- 1074)"
  define m where "m = half_even (a * pow 2 (- e)) (b * pow 2 e)"
  have p: "0 < b * pow 2 e" using assms pow_pos [of 2 e] by simp
  have r: "real_of_int a / real_of_int b / 2 powi e = real_of_int (a * pow 2 (- e)) / real_of_int (b * pow 2 e)"
    using shifted_ratio [OF assms(2), of 2 a e] by simp
  note hb = half_even_bounds [OF p r, folded m_def]
  have "(2 :: real) powi (binade a b + 1) \<le> 2 powi (e + 53)" by (rule power_int_increasing) (simp_all add: e_def)
  with binade_bounds [OF assms(1,2)] have "real_of_int a / real_of_int b < 2 powi (e + 53)" by linarith
  also have "(2 :: real) powi (e + 53) = real_of_int (2 ^ 53) * 2 powi e" by (simp add: power_int_add)
  finally have "real_of_int a / real_of_int b / 2 powi e < real_of_int (2 ^ 53)"
    by (subst pos_divide_less_eq) simp_all
  from hb(1) [OF this] have m53: "m \<le> 2 ^ 53" .
  have m0: "0 \<le> m" using assms(1,2) by (intro hb(2)) simp
  have m52: "2 ^ 52 \<le> m" if "e \<noteq> - 1074"
  proof (rule hb(2))
    have "binade a b = e + 52" using that by (simp add: e_def max_def split: if_splits)
    with binade_bounds [OF assms(1,2)] have "2 powi (e + 52) \<le> real_of_int a / real_of_int b" by simp
    also have "(2 :: real) powi (e + 52) = real_of_int (2 ^ 52) * 2 powi e" by (simp add: power_int_add)
    finally show "real_of_int (2 ^ 52) \<le> real_of_int a / real_of_int b / 2 powi e"
      by (subst pos_le_divide_eq) simp_all
  qed
  have e: "- 1074 \<le> e" by (simp add: e_def)
  have "round_ratio a b = (let (m, e) = (if m = 2 ^ 53 then (2 ^ 52, e + 1) else (m, e)) in if e > 971 then None else Some (m, e))"
    by (simp add: round_ratio_def e_def m_def Let_def)
  with assms(3) e m0 m52 m53 show ?thesis by (auto simp: float_val_def Let_def split: if_splits)
qed

section \<open>Rounding a decimal\<close>

lemma decimal_ratio: "real_of_int (d * pow 10 x) / real_of_int (pow 10 (- x)) = real_of_int d * 10 powi x"
  using pow_shift [of 10 x] by (simp flip: times_divide_eq_right)

lemma decimal_parts: "0 < d \<Longrightarrow> 0 < d * pow 10 x" "0 < pow 10 (- x)"
  using pow_pos [of 10 x] pow_pos [of 10 "- x"] by simp_all

lemma round_decimal_cong:
  assumes "0 < d" "0 < d'" "real_of_int d * 10 powi x = real_of_int d' * 10 powi x'"
  shows "round_decimal d x = round_decimal d' x'"
  using assms decimal_parts round_ratio_cong [of "d * pow 10 x" "pow 10 (- x)" "d' * pow 10 x'" "pow 10 (- x')"]
  unfolding decimal_ratio by (simp add: round_decimal_def)

lemma round_decimal_exact:
  assumes "0 < d" "float_val (m, e)" "0 < m" "real_of_int d * 10 powi x = real_of_int m * 2 powi e"
  shows "round_decimal d x = Some (m, e)"
  using round_exact [OF decimal_parts(1) [OF assms(1), of x] decimal_parts(2) [of x] assms(2,3)] assms(1,4)
  unfolding decimal_ratio by (simp add: round_decimal_def)

lemma round_decimal_val: "0 \<le> d \<Longrightarrow> round_decimal d x = Some v \<Longrightarrow> float_val v"
  using round_ratio_val [OF decimal_parts(1) [of d x] decimal_parts(2) [of x], of v]
  by (cases "d = 0") (auto simp: round_decimal_def, simp add: float_val_def)

text \<open>The shortest decimal reads back as the value it was made for.\<close>

lemma round_zero: "round_decimal t x = Some (m, e) \<Longrightarrow> 0 < m \<Longrightarrow> t \<noteq> 0"
  by (auto simp: round_decimal_def)

lemma half_even_cases: "half_even n u = n div u \<or> half_even n u = n div u + 1"
  by (simp add: half_even_def Let_def)

lemma shortest_loop_reads:
  assumes "0 < n" "0 < m" "round_decimal n (- p) = Some (m, e)"
  shows "shortest_loop (m, e) n p k = (d, x) \<Longrightarrow> round_decimal d x = Some (m, e) \<and> 0 < d"
proof (induction k)
  case (Suc k)
  define u where "u = pow 10 (int (Suc k))"
  define y where "y = int (Suc k) - p"
  have "0 \<le> n div u" using assms(1) pow_pos [of 10 "int (Suc k)"] by (simp add: u_def pos_imp_zdiv_nonneg_iff)
  then have pos: "round_decimal (n div u) y = Some (m, e) \<Longrightarrow> 0 < n div u" "0 < n div u + 1"
    using round_zero [OF _ assms(2)] by (auto simp: order_less_le)
  have "shortest_loop (m, e) n p (Suc k) =
      (let down = (round_decimal (n div u) y = Some (m, e)); up = (round_decimal (n div u + 1) y = Some (m, e))
       in if down \<and> up then (half_even n u, y) else if down then (n div u, y) else if up then (n div u + 1, y)
         else shortest_loop (m, e) n p k)"
    by (simp add: u_def y_def Let_def)
  with Suc pos half_even_cases [of n u] show ?case by (auto simp: Let_def split: if_splits)
qed (use assms in auto)

lemma shortest_reads:
  assumes "float_val (m, e)" "0 < m" "shortest m e = (d, x)"
  shows "round_decimal d x = Some (m, e) \<and> 0 < d"
proof -
  define n where "n = (if e \<ge> 0 then m * pow 2 e else m * pow 5 (- e))"
  define p where "p = (if e \<ge> 0 then 0 else - e)"
  have n: "0 < n" using assms(2) pow_pos [of 2 e] pow_pos [of 5 "- e"] by (simp add: n_def)
  have "(10 :: real) = 2 * 5" by simp
  then have t: "(10 :: real) powi e = 2 powi e * 5 powi e" by (simp only: power_int_mult_distrib)
  have "real_of_int n * 10 powi (- p) = real_of_int m * 2 powi e"
  proof (cases "0 \<le> e")
    case True
    then show ?thesis by (simp add: n_def p_def pow_nonneg)
  next
    case False
    have "(5 :: real) powi (- e) * 5 powi e = 1" by (simp add: power_int_minus)
    then show ?thesis using False by (simp add: n_def p_def pow_nonneg t)
  qed
  then have r: "round_decimal n (- p) = Some (m, e)" by (rule round_decimal_exact [OF n assms(1,2)])
  have "shortest m e = shortest_loop (m, e) n p (length (int_digits n) - 1)"
    unfolding shortest_def Let_def n_def p_def by (rule refl)
  with assms(3) have "shortest_loop (m, e) n p (length (int_digits n) - 1) = (d, x)" by metis
  then show ?thesis by (rule shortest_loop_reads [OF n assms(2) r])
qed

section \<open>Digits\<close>

lemma digits_val_append: "digits_val (a @ b) = digits_val a * 10 ^ length b + digits_val b"
proof (induction b rule: rev_induct)
  case (snoc c b)
  then show ?case by (simp add: digits_val_def algebra_simps)
qed (simp add: digits_val_def)

lemma digits_val_zeros: "digits_val (replicate n (CHR ''0'')) = 0"
  by (induction n) (simp_all add: digits_val_def digit_val_def)

lemma digits_val_Cons: "digits_val (c # s) = digit_val c * 10 ^ length s + digits_val s"
  using digits_val_append [of "[c]" s] by (simp add: digits_val_def)

lemma digit_of_int:
  assumes "0 \<le> n" "n < 10"
  shows "is_digit (char_of (48 + n))" "digit_val (char_of (48 + n)) = n" "char_of (48 + n) = CHR ''0'' \<longleftrightarrow> n = 0"
proof -
  have "n \<in> {0, 1, 2, 3, 4, 5, 6, 7, 8, 9}" using assms by (simp only: insert_iff empty_iff) presburger
  moreover have "\<forall>n \<in> {0, 1, 2, 3, 4, 5, 6, 7, 8, 9 :: int}. is_digit (char_of (48 + n)) \<and>
      digit_val (char_of (48 + n)) = n \<and> (char_of (48 + n) = CHR ''0'') = (n = 0)"
    by code_simp
  ultimately show "is_digit (char_of (48 + n))" "digit_val (char_of (48 + n)) = n" "char_of (48 + n) = CHR ''0'' \<longleftrightarrow> n = 0"
    by blast+
qed

lemma int_digits_spec:
  "0 \<le> n \<Longrightarrow> list_all is_digit (int_digits n) \<and> int_digits n \<noteq> [] \<and> digits_val (int_digits n) = n \<and>
     (0 < n \<longrightarrow> hd (int_digits n) \<noteq> CHR ''0'')"
proof (induction n rule: int_digits.induct)
  case (1 n)
  show ?case
  proof (cases "n < 10")
    case True
    with 1 digit_of_int [of n] show ?thesis by (simp add: int_digits.simps [of n] digits_val_def)
  next
    case False
    with 1 have IH: "list_all is_digit (int_digits (n div 10))" "int_digits (n div 10) \<noteq> []"
        "digits_val (int_digits (n div 10)) = n div 10" "hd (int_digits (n div 10)) \<noteq> CHR ''0''" by auto
    with False digit_of_int [of "n mod 10"] show ?thesis
      by (simp add: int_digits.simps [of n] digits_val_append) (simp add: digits_val_def)
  qed
qed

lemma digits_nonneg: "list_all is_digit s \<Longrightarrow> 0 \<le> digits_val s"
proof (induction s)
  case (Cons c s)
  then have "0 \<le> digit_val c" by (simp add: is_digit_def digit_val_def)
  with Cons show ?case by (simp add: digits_val_Cons)
qed (simp add: digits_val_def)

text \<open>Trailing zeros are cut off.\<close>

lemma trim_zeros_split: "\<exists>z. s = trim_zeros s @ replicate z (CHR ''0'')"
proof -
  have "rev s = takeWhile (\<lambda>c. c = CHR ''0'') (rev s) @ dropWhile (\<lambda>c. c = CHR ''0'') (rev s)" by simp
  moreover have "takeWhile (\<lambda>c. c = CHR ''0'') (rev s) = replicate (length (takeWhile (\<lambda>c. c = CHR ''0'') (rev s))) (CHR ''0'')"
    by (rule replicate_eqI [symmetric, THEN sym]) (auto dest: set_takeWhileD)
  ultimately have "rev s = replicate (length (takeWhile (\<lambda>c. c = CHR ''0'') (rev s))) (CHR ''0'') @ dropWhile (\<lambda>c. c = CHR ''0'') (rev s)"
    by metis
  then have "s = rev (dropWhile (\<lambda>c. c = CHR ''0'') (rev s)) @ replicate (length (takeWhile (\<lambda>c. c = CHR ''0'') (rev s))) (CHR ''0'')"
    by (metis rev_append rev_replicate rev_rev_ident)
  then show ?thesis unfolding trim_zeros_def by blast
qed

section \<open>A number reads back as it was written\<close>

lemma digits_run:
  "list_all is_digit a \<Longrightarrow> takeWhile is_digit a = a" "list_all is_digit a \<Longrightarrow> dropWhile is_digit a = []"
  "list_all is_digit a \<Longrightarrow> \<not> is_digit c \<Longrightarrow> takeWhile is_digit (a @ c # r) = a"
  "list_all is_digit a \<Longrightarrow> \<not> is_digit c \<Longrightarrow> dropWhile is_digit (a @ c # r) = c # r"
  by (induction a) auto

lemma not_digits: "\<not> is_digit (CHR ''.'')" "\<not> is_digit (CHR ''e'')" "\<not> is_digit (CHR ''-'')" "\<not> is_digit (CHR ''+'')"
  by (simp_all add: is_digit_def)

text \<open>A literal: digits, perhaps a fraction, perhaps an exponent.\<close>

lemma literal_plain: "list_all is_digit a \<Longrightarrow> literal_decimal a = (digits_val a, 0)"
  by (simp add: literal_decimal_def Let_def digits_run)

lemma literal_fraction:
  "list_all is_digit a \<Longrightarrow> list_all is_digit f \<Longrightarrow> literal_decimal (a @ ''.'' @ f) = (digits_val (a @ f), - int (length f))"
  by (simp add: literal_decimal_def Let_def digits_run not_digits)

definition exponent_text :: "int \<Rightarrow> bytes" where
  "exponent_text k = ''e'' @ (if k < 0 then ''-'' else ''+'') @ int_digits \<bar>k\<bar>"

lemma exponent_value:
  "\<exists>t. exponent_text k = CHR ''e'' # t \<and>
    (if prefix ''-'' t then - digits_val (tl t) else if prefix ''+'' t then digits_val (tl t) else digits_val t) = k"
  using int_digits_spec [of "\<bar>k\<bar>"] by (cases "k < 0") (simp_all add: exponent_text_def)

lemma literal_exponent:
  assumes "list_all is_digit a"
  shows "literal_decimal (a @ exponent_text k) = (digits_val a, k)"
    "list_all is_digit f \<Longrightarrow> literal_decimal (a @ ''.'' @ f @ exponent_text k) = (digits_val (a @ f), k - int (length f))"
proof -
  obtain t where t: "exponent_text k = CHR ''e'' # t"
    "(if prefix ''-'' t then - digits_val (tl t) else if prefix ''+'' t then digits_val (tl t) else digits_val t) = k"
    using exponent_value by blast
  show "literal_decimal (a @ exponent_text k) = (digits_val a, k)"
    using assms t(2) by (simp add: literal_decimal_def Let_def digits_run not_digits t(1))
  show "list_all is_digit f \<Longrightarrow> literal_decimal (a @ ''.'' @ f @ exponent_text k) = (digits_val (a @ f), k - int (length f))"
    using assms t(2) by (simp add: literal_decimal_def Let_def digits_run not_digits t(1))
qed

lemma digit_zeros: "list_all is_digit (replicate k (CHR ''0''))"
  by (simp add: list_all_iff is_digit_def)

text \<open>Both layouts stand for the digits with the decimal point where it was.\<close>

definition stands_for :: "bytes \<Rightarrow> bytes \<Rightarrow> int \<Rightarrow> bool" where
  "stands_for s ds dp \<longleftrightarrow>
     (case literal_decimal s of (d, x) \<Rightarrow>
        0 < d \<and> real_of_int d * 10 powi x = real_of_int (digits_val ds) * 10 powi (dp - int (length ds)))"

lemma format_f_reads:
  assumes "list_all is_digit ds" "0 < digits_val ds"
  shows "stands_for (format_f ds dp) ds dp"
proof -
  consider "dp \<le> 0" | "0 < dp" "length ds \<le> nat dp" | "0 < dp" "nat dp < length ds" by linarith
  then show ?thesis
  proof cases
    case 1
    let ?z = "replicate (nat (- dp)) (CHR ''0'')"
    have "literal_decimal (''0'' @ ''.'' @ (?z @ ds)) = (digits_val (''0'' @ ?z @ ds), - int (length (?z @ ds)))"
      using assms(1) by (intro literal_fraction) (simp_all add: digit_zeros, simp add: is_digit_def)
    moreover have "digits_val (''0'' @ ?z @ ds) = digits_val ds"
      by (simp add: digits_val_append digits_val_zeros digits_val_Cons digit_val_def)
    ultimately show ?thesis using 1 assms(2) by (simp add: stands_for_def format_f_def algebra_simps)
  next
    case 2
    let ?k = "nat dp - length ds"
    have "literal_decimal (ds @ replicate ?k (CHR ''0'')) = (digits_val (ds @ replicate ?k (CHR ''0'')), 0)"
      using assms(1) by (intro literal_plain) (simp add: digit_zeros)
    moreover have "digits_val (ds @ replicate ?k (CHR ''0'')) = digits_val ds * 10 ^ ?k"
      by (simp add: digits_val_append digits_val_zeros)
    moreover have "(10 :: real) powi (dp - int (length ds)) = 10 ^ ?k"
    proof -
      have "dp - int (length ds) = int ?k" using 2 by simp
      then show ?thesis by (simp only: power_int_of_nat)
    qed
    ultimately show ?thesis using 2 assms(2) by (simp add: stands_for_def format_f_def)
  next
    case 3
    have "literal_decimal (take (nat dp) ds @ ''.'' @ drop (nat dp) ds) =
        (digits_val (take (nat dp) ds @ drop (nat dp) ds), - int (length (drop (nat dp) ds)))"
      using assms(1) by (intro literal_fraction) (auto simp: list_all_iff dest: in_set_takeD in_set_dropD)
    moreover have "- int (length (drop (nat dp) ds)) = dp - int (length ds)" using 3 by simp
    ultimately show ?thesis using 3 assms(2) by (simp add: stands_for_def format_f_def)
  qed
qed

lemma format_e_reads:
  assumes "list_all is_digit ds" "0 < digits_val ds"
  shows "stands_for (format_e ds dp) ds dp"
proof -
  have ne: "ds \<noteq> []" using assms(2) by (auto simp: digits_val_def)
  then obtain c f where ds: "ds = c # f" by (cases ds) auto
  show ?thesis
  proof (cases "f = []")
    case True
    then have "format_e ds dp = ds @ exponent_text (dp - 1)" by (simp add: format_e_def exponent_text_def ds)
    then show ?thesis using literal_exponent(1) [OF assms(1)] assms(2) True ds by (simp add: stands_for_def)
  next
    case False
    then have "format_e ds dp = [c] @ ''.'' @ f @ exponent_text (dp - 1)" by (simp add: format_e_def exponent_text_def ds)
    moreover have "literal_decimal ([c] @ ''.'' @ f @ exponent_text (dp - 1)) = (digits_val ([c] @ f), dp - 1 - int (length f))"
      using assms(1) ds by (intro literal_exponent(2)) simp_all
    ultimately show ?thesis using assms(2) ds by (simp add: stands_for_def algebra_simps)
  qed
qed

text \<open>Both layouts are number literals.\<close>

definition literal_tail :: "bytes \<Rightarrow> bool" where
  "literal_tail s \<longleftrightarrow>
     (case s of [] \<Rightarrow> False | c # r \<Rightarrow> is_digit c \<and> num_run (if c = CHR ''0'' then Num0 else Num1) r)"

lemma literal_signed:
  "literal_tail s \<Longrightarrow> num_run BeginValue s" "literal_tail s \<Longrightarrow> num_run BeginValue (CHR ''-'' # s)"
  "literal_tail s \<Longrightarrow> \<not> prefix ''-'' s"
  by (auto simp: literal_tail_def num_next_def Let_def is_digit_def split: list.splits if_splits)

lemma num_run_digits:
  "list_all is_digit a \<Longrightarrow> num_run Num1 (a @ r) = num_run Num1 r"
  "list_all is_digit a \<Longrightarrow> num_run Dot0 (a @ r) = num_run Dot0 r"
  "list_all is_digit a \<Longrightarrow> num_run Exp0 (a @ r) = num_run Exp0 r"
  by (induction a) (simp_all add: num_next_def Let_def)

lemma num_run_fraction:
  "f \<noteq> [] \<Longrightarrow> list_all is_digit f \<Longrightarrow> st = Num0 \<or> st = Num1 \<Longrightarrow> num_run st (CHR ''.'' # f @ r) = num_run Dot0 r"
  by (cases f) (auto simp: num_next_def Let_def num_run_digits not_digits)

lemma num_run_exponent: "st = Num1 \<or> st = Dot0 \<Longrightarrow> num_run st (exponent_text k)"
proof -
  obtain c a where ca: "int_digits \<bar>k\<bar> = c # a" "is_digit c" "list_all is_digit a"
    using int_digits_spec [of "\<bar>k\<bar>"] by (cases "int_digits \<bar>k\<bar>") auto
  then show "st = Num1 \<or> st = Dot0 \<Longrightarrow> num_run st (exponent_text k)"
    using num_run_digits(3) [of a "[]"] by (auto simp: exponent_text_def num_next_def Let_def not_digits)
qed

lemma format_f_literal:
  assumes "list_all is_digit ds" "ds \<noteq> []" "hd ds \<noteq> CHR ''0''"
  shows "literal_tail (format_f ds dp)"
proof -
  obtain c f where ds: "ds = c # f" using assms(2) by (cases ds) auto
  consider "dp \<le> 0" | "0 < dp" "length ds \<le> nat dp" | "0 < dp" "nat dp < length ds" by linarith
  then show ?thesis
  proof cases
    case 1
    have "list_all is_digit (replicate (nat (- dp)) (CHR ''0'') @ ds)" using assms(1) by (simp add: digit_zeros)
    with num_run_fraction [of "replicate (nat (- dp)) (CHR ''0'') @ ds" Num0 "[]"] assms(2) 1
    show ?thesis by (simp add: format_f_def literal_tail_def is_digit_def)
  next
    case 2
    have "list_all is_digit (f @ replicate (nat dp - length ds) (CHR ''0''))" using assms(1) ds by (simp add: digit_zeros)
    with num_run_digits(1) [of "f @ replicate (nat dp - length ds) (CHR ''0'')" "[]"] 2 assms(1,3) ds
    show ?thesis by (simp add: format_f_def literal_tail_def)
  next
    case 3
    obtain k where k: "nat dp = Suc k" using 3 by (cases "nat dp") auto
    have d: "list_all is_digit (take k f)" "list_all is_digit (drop k f)" "drop k f \<noteq> []"
      using assms(1) ds 3 k by (auto simp: list_all_iff dest: in_set_takeD in_set_dropD)
    have "num_run Num1 (take k f @ CHR ''.'' # drop k f)"
      using num_run_digits(1) [OF d(1)] num_run_fraction [OF d(3,2), of Num1 "[]"] by simp
    with 3 k assms(1,3) ds show ?thesis by (simp add: format_f_def literal_tail_def)
  qed
qed

lemma format_e_literal:
  assumes "list_all is_digit ds" "ds \<noteq> []" "hd ds \<noteq> CHR ''0''"
  shows "literal_tail (format_e ds dp)"
proof -
  obtain c f where ds: "ds = c # f" using assms(2) by (cases ds) auto
  have "num_run Num1 ((if f = [] then [] else CHR ''.'' # f) @ exponent_text (dp - 1))"
    using num_run_fraction [of f Num1 "exponent_text (dp - 1)"] num_run_exponent assms(1) ds by simp
  moreover have "format_e ds dp = c # (if f = [] then [] else CHR ''.'' # f) @ exponent_text (dp - 1)"
    by (simp add: format_e_def exponent_text_def ds)
  ultimately show ?thesis using ds assms(1,3) by (simp add: literal_tail_def)
qed

text \<open>The digits of a positive value.\<close>

lemma shortest_digits:
  assumes "float_val (m, e)" "0 < m" "shortest m e = (d, x)"
  defines "ds \<equiv> int_digits d" and "ts \<equiv> trim_zeros (int_digits d)"
  shows "list_all is_digit ts" "ts \<noteq> []" "hd ts \<noteq> CHR ''0''" "0 < digits_val ts"
    "stands_for s ts (int (length ds) + x) \<Longrightarrow> (case literal_decimal s of (d, x) \<Rightarrow> round_decimal d x) = Some (m, e)"
proof -
  note d = shortest_reads [OF assms(1-3)]
  note ds = int_digits_spec [of d, folded ds_def]
  obtain z where z: "ds = ts @ replicate z (CHR ''0'')" using trim_zeros_split [of ds] by (auto simp: ts_def ds_def)
  have v: "d = digits_val ts * 10 ^ z" using ds d z by (simp add: digits_val_append digits_val_zeros)
  with d show p: "0 < digits_val ts" by (simp add: zero_less_mult_iff)
  then show ne: "ts \<noteq> []" by (auto simp: digits_val_def)
  show "list_all is_digit ts" using ds d unfolding z by simp
  show "hd ts \<noteq> CHR ''0''" using ds d ne unfolding z by simp
  assume st: "stands_for s ts (int (length ds) + x)"
  obtain D X where l: "literal_decimal s = (D, X)" by (rule prod.exhaust)
  have "length ds = length ts + z" using arg_cong [OF z, of length] by simp
  then have k: "int (length ds) + x - int (length ts) = int z + x" by linarith
  have r: "0 < D" "real_of_int D * 10 powi X = real_of_int (digits_val ts) * 10 powi (int z + x)"
    using st unfolding stands_for_def l prod.case k by simp_all
  have "real_of_int D * 10 powi X = real_of_int d * 10 powi x"
    unfolding r(2) v by (simp add: power_int_add)
  from round_decimal_cong [OF r(1) _ this] d l show "(case literal_decimal s of (d, x) \<Rightarrow> round_decimal d x) = Some (m, e)"
    by simp
qed

text \<open>The text of a value: sign and magnitude.\<close>

lemma format_float_parts:
  assumes "float_ok f"
  shows "\<exists>s. format_float f = (if f_neg f then CHR ''-'' # s else s) \<and> literal_tail s \<and>
    (case literal_decimal s of (d, x) \<Rightarrow> round_decimal d x) = Some (f_mant f, f_exp f)"
proof (cases "f_mant f = 0")
  case True
  have "literal_decimal ''0'' = (0, 0)" by code_simp
  with True assms show ?thesis
    by (intro exI [of _ "''0''"])
      (simp add: format_float_def Let_def literal_tail_def is_digit_def round_decimal_def float_ok_def float_val_def)
next
  case False
  then have v: "float_val (f_mant f, f_exp f)" "0 < f_mant f" using assms by (simp_all add: float_ok_def float_val_def)
  obtain d x where sh: "shortest (f_mant f) (f_exp f) = (d, x)" by (rule prod.exhaust)
  note t = shortest_digits [OF v sh]
  let ?ts = "trim_zeros (int_digits d)" and ?dp = "int (length (int_digits d)) + x"
  have "format_float f = (if f_neg f then CHR ''-'' # format_e ?ts ?dp else format_e ?ts ?dp) \<or>
      format_float f = (if f_neg f then CHR ''-'' # format_f ?ts ?dp else format_f ?ts ?dp)"
    using False by (simp add: format_float_def Let_def sh)
  then show ?thesis
    using format_e_literal [OF t(1-3)] format_f_literal [OF t(1-3)] t(5) [OF format_e_reads [OF t(1,4)]]
      t(5) [OF format_f_reads [OF t(1,4)]] by blast
qed

lemma parse_format_float: "float_ok f \<Longrightarrow> parse_float (format_float f) = Some f"
proof -
  assume "float_ok f"
  then obtain s where s: "format_float f = (if f_neg f then CHR ''-'' # s else s)" "literal_tail s"
      "(case literal_decimal s of (d, x) \<Rightarrow> round_decimal d x) = Some (f_mant f, f_exp f)"
    using format_float_parts by blast
  then show ?thesis
    using literal_signed(3) [OF s(2)] by (cases f; cases "literal_decimal s") (auto simp: parse_float_def Let_def)
qed

lemma format_float_literal: "float_ok f \<Longrightarrow> num_run BeginValue (format_float f)"
  using format_float_parts [of f] literal_signed by auto

lemma parse_float_ok: "parse_float s = Some f \<Longrightarrow> float_ok f"
proof -
  have "0 \<le> fst (literal_decimal t)" for t
    by (auto simp: literal_decimal_def Let_def digits_val_append list_all_iff
        intro!: digits_nonneg add_nonneg_nonneg mult_nonneg_nonneg dest: set_takeWhileD)
  then have "round_decimal d x = Some v \<Longrightarrow> literal_decimal t = (d, x) \<Longrightarrow> float_val v" for t d x v
    using round_decimal_val [of d x v] by (metis fst_conv)
  then show "parse_float s = Some f \<Longrightarrow> float_ok f"
    by (auto simp: parse_float_def Let_def float_ok_def split: prod.splits)
qed

text \<open>An integer beyond the 53 bits of the mantissa comes back as its neighbour.\<close>

lemma large_integer_changes: "reformat ''9007199254740993'' = Some ''9007199254740992''"
  by code_simp

end
