(* ===== verification/ClientConfig.thy ===== *)
theory ClientConfig
  imports Float64 Profile
begin

text \<open>
  The configuration files of MCP clients (\<open>pkg/app/install.go\<close>): a JSON document decoded into
  \<open>any\<close>, one entry of its \<open>mcpServers\<close> set or deleted, and the file rewritten with a backup
  beside it.
\<close>

section \<open>Documents\<close>

text \<open>What \<open>json.Unmarshal\<close> makes of a document without a struct, and the typed entry that
  install puts into it.\<close>

datatype any =
    ANil
  | ABool bool
  | ANum f64
  | AStr bytes
  | AArr "any list"
  | AObj "(bytes \<times> any) list"
  | AEntry bytes "bytes list"        \<comment> \<open>\<open>serverEntry\<close>: command and arguments\<close>

text \<open>\<open>None\<close> when a number is out of range: the error is reported once the document is decoded.\<close>

fun of_json :: "json \<Rightarrow> any option"
  and of_elems :: "json list \<Rightarrow> any list option"
  and of_members :: "(bytes \<times> bytes \<times> json) list \<Rightarrow> (bytes \<times> any) list \<Rightarrow> (bytes \<times> any) list option" where
  "of_json JNull = Some ANil"
| "of_json (JBool b) = Some (ABool b)"
| "of_json (JNum s) = map_option ANum (parse_float s)"
| "of_json (JStr s) = Some (AStr s)"
| "of_json (JArr vs) = map_option AArr (of_elems vs)"
| "of_json (JObj ms) = map_option AObj (of_members ms [])"
| "of_elems [] = Some []"
| "of_elems (v # vs) = do { a \<leftarrow> of_json v; as \<leftarrow> of_elems vs; Some (a # as) }"
| "of_members [] m = Some m"
| "of_members ((k, raw, v) # ms) m = do { a \<leftarrow> of_json v; of_members ms (mput k a m) }"

fun to_json :: "any \<Rightarrow> json"
  and to_elems :: "any list \<Rightarrow> json list"
  and to_members :: "(bytes \<times> any) list \<Rightarrow> (bytes \<times> bytes \<times> json) list" where
  "to_json ANil = JNull"
| "to_json (ABool b) = JBool b"
| "to_json (ANum f) = JNum (format_float f)"
| "to_json (AStr s) = JStr s"
| "to_json (AArr as) = JArr (to_elems as)"
| "to_json (AObj m) = JObj (to_members m)"
| "to_json (AEntry c as) = JObj [(''command'', [], JStr c), (''args'', [], JArr (map JStr as))]"
| "to_elems [] = []"
| "to_elems (a # as) = to_json a # to_elems as"
| "to_members [] = []"
| "to_members ((k, a) # m) = (k, [], to_json a) # to_members m"

text \<open>A type assertion to \<open>map[string]any\<close>, to \<open>[]any\<close> and to \<open>string\<close>, with the zero value
  of the type when it fails.\<close>

definition as_map :: "any option \<Rightarrow> (bytes \<times> any) list option" where
  "as_map v = (case v of Some (AObj m) \<Rightarrow> Some m | _ \<Rightarrow> None)"

definition as_list :: "any option \<Rightarrow> any list" where
  "as_list v = (case v of Some (AArr as) \<Rightarrow> as | _ \<Rightarrow> [])"

definition as_string :: "any option \<Rightarrow> bytes option" where
  "as_string v = (case v of Some (AStr s) \<Rightarrow> Some s | _ \<Rightarrow> None)"

text \<open>Look-up in a map that may be nil.\<close>

definition nil_get :: "(bytes \<times> any) list option \<Rightarrow> bytes \<Rightarrow> any option" where
  "nil_get m k = (case m of None \<Rightarrow> None | Some m \<Rightarrow> mget m k)"

section \<open>The entry of a server\<close>

definition entryProfile :: "any \<Rightarrow> bytes" where
  "entryProfile entry =
     (let args = as_list (nil_get (as_map (Some entry)) ''args'') in
      case find (\<lambda>a. case as_string (Some a) of Some s \<Rightarrow> prefix ''@'' s | None \<Rightarrow> False) args of
        Some (AStr s) \<Rightarrow> trim_prefix s ''@''
      | _ \<Rightarrow> [])"

definition entryCommand :: "any \<Rightarrow> bytes" where
  "entryCommand entry =
     (case as_string (nil_get (as_map (Some entry)) ''command'') of Some s \<Rightarrow> s | None \<Rightarrow> [])"

text \<open>\<open>filepath.Base\<close> of a text.\<close>

definition text_base :: "bytes \<Rightarrow> bytes" where
  "text_base p =
     (if p = [] then ''.''
      else
        let q = rev (dropWhile (\<lambda>c. c = CHR ''/'') (rev p)) in
        if q = [] then ''/'' else last (split_on (CHR ''/'') q))"

definition ownBinary :: "bytes \<Rightarrow> bool" where
  "ownBinary cmd \<longleftrightarrow> trim_suffix (text_base cmd) ''.exe'' = ''mcpurl''"

section \<open>The files\<close>

definition knownClients :: "bytes list" where
  "knownClients = [''claude-desktop'', ''cursor'', ''windsurf'']"

definition clientConfigPath :: "bytes \<Rightarrow> 'z os_scheme \<Rightarrow> gerr + bytes" where
  "clientConfigPath client w =
     (case UserHomeDir w of
        Inl e \<Rightarrow> Inl e
      | Inr home \<Rightarrow>
          if client = ''claude-desktop'' then
            if GOOS w = ''darwin'' then
              Inr (home_file w home [''Library'', ''Application Support'', ''Claude'', ''claude_desktop_config.json''])
            else if GOOS w = ''windows'' then
              Inr (home_file w (getenv w ''APPDATA'') [''Claude'', ''claude_desktop_config.json''])
            else Inr (home_file w home [''.config'', ''Claude'', ''claude_desktop_config.json''])
          else if client = ''cursor'' then Inr (home_file w home [''.cursor'', ''mcp.json''])
          else if client = ''windsurf'' then Inr (home_file w home [''.codeium'', ''windsurf'', ''mcp_config.json''])
          else Inl (Message (''unknown client '' @ go_quote client @ '' (want '' @ join '', '' knownClients @ '')'')))"

text \<open>\<open>json.Unmarshal\<close> into a \<open>map[string]any\<close>: \<open>null\<close> makes the map nil, and any other value
  that is no object is an error.\<close>

definition unmarshal_map :: "bytes \<Rightarrow> (bytes \<times> any) list option option" where
  "unmarshal_map data =
     (case json_parse data of
        Some JNull \<Rightarrow> Some None
      | Some (JObj ms) \<Rightarrow> map_option Some (of_members ms [])
      | _ \<Rightarrow> None)"

text \<open>The document (a nil map is \<open>None\<close>) and the original text (nil when there is no file).\<close>

definition loadClientConfig ::
  "bytes \<Rightarrow> 'z os_scheme \<Rightarrow> gerr + (bytes \<times> any) list option \<times> bytes option" where
  "loadClientConfig path w =
     (case ReadFile (os_path w path) w of
        Inl e \<Rightarrow> if IsNotExist e then Inr (Some [], None) else Inl e
      | Inr original \<Rightarrow>
          if trim_space original = [] then Inr (Some [], Some original)
          else
            (case unmarshal_map original of
               None \<Rightarrow> Inl (Wrap (path @ '' is not valid JSON (fix it first): '') json_error [])
             | Some base \<Rightarrow> Inr (base, Some original)))"

definition replaceConfig ::
  "bytes \<Rightarrow> bytes option \<Rightarrow> bytes \<Rightarrow> 'z os_scheme \<Rightarrow> gerr option \<times> 'z os_scheme" where
  "replaceConfig path original data w =
     (case original of
        None \<Rightarrow> Write (os_path w path) data mode_0600 w
      | Some old \<Rightarrow>
          (case WriteFile (os_path w (path @ ''.bak'')) old mode_0600 w of
             (Some e, w1) \<Rightarrow> (Some (Wrap ''writing backup: '' e []), w1)
           | (None, w1) \<Rightarrow> Write (os_path w path) data mode_0600 w1))"

definition document :: "(bytes \<times> any) list option \<Rightarrow> json" where
  "document base = (case base of None \<Rightarrow> JNull | Some m \<Rightarrow> to_json (AObj m))"

definition writeClientConfig ::
  "bytes \<Rightarrow> (bytes \<times> any) list option \<Rightarrow> bytes option \<Rightarrow> 'z os_scheme \<Rightarrow> gerr option \<times> 'z os_scheme" where
  "writeClientConfig path base original w =
     replaceConfig path original (marshal_indent (document base) @ [LF]) w"

section \<open>Setting and deleting an entry\<close>

text \<open>The run-time panic of a write into a nil map, which ends the program.\<close>

definition panic_nil_map :: gerr where
  "panic_nil_map = Sentinel ''panic: assignment to entry in nil map''"

definition set_server :: "bytes \<Rightarrow> any \<Rightarrow> (bytes \<times> any) list option \<Rightarrow> (bytes \<times> any) list option" where
  "set_server name entry base =
     (let servers = (case as_map (nil_get base ''mcpServers'') of Some m \<Rightarrow> m | None \<Rightarrow> []);
          servers = mput name entry servers
      in map_option (mput ''mcpServers'' (AObj servers)) base)"

definition upsertServerEntry ::
  "bytes \<Rightarrow> bytes \<Rightarrow> any \<Rightarrow> bool \<Rightarrow> 'z os_scheme \<Rightarrow> gerr option \<times> bytes \<times> 'z os_scheme" where
  "upsertServerEntry path name entry dryRun w =
     (case loadClientConfig path w of
        Inl e \<Rightarrow> (Some e, [], w)
      | Inr (base, original) \<Rightarrow>
          (case set_server name entry base of
             None \<Rightarrow> (Some panic_nil_map, [], w)
           | Some base' \<Rightarrow>
               if dryRun then
                 (None, ''# would write to '' @ path @ '':'' @ [LF] @ marshal_indent (document (Some base')) @ [LF], w)
               else let (r, w1) = writeClientConfig path (Some base') original w in (r, [], w1)))"

text \<open>The entry that was there, if any, and the document without it: \<open>servers\<close> is the map in the
  document, so deleting from it changes the document.\<close>

definition removeServerEntry ::
  "bytes \<Rightarrow> bytes \<Rightarrow> 'z os_scheme \<Rightarrow> gerr option \<times> any option \<times> 'z os_scheme" where
  "removeServerEntry path name w =
     (case loadClientConfig path w of
        Inl e \<Rightarrow> (Some e, None, w)
      | Inr (base, None) \<Rightarrow> (None, None, w)
      | Inr (base, Some original) \<Rightarrow>
          (case base of
             None \<Rightarrow> (None, None, w)
           | Some m \<Rightarrow>
               (case as_map (mget m ''mcpServers'') of
                  None \<Rightarrow> (None, None, w)
                | Some servers \<Rightarrow>
                    (case mget servers name of
                       None \<Rightarrow> (None, None, w)
                     | Some entry \<Rightarrow>
                         let m' = mput ''mcpServers'' (AObj (mdel name servers)) m;
                             (r, w1) = writeClientConfig path (Some m') (Some original) w
                         in (r, Some entry, w1)))))"

section \<open>Reading back what was written\<close>

text \<open>A document as it can be decoded: finite numbers, text in UTF-8, keys in order.\<close>

fun any_ok :: "any \<Rightarrow> bool" and elems_ok :: "any list \<Rightarrow> bool" and members_ok :: "(bytes \<times> any) list \<Rightarrow> bool" where
  "any_ok ANil \<longleftrightarrow> True"
| "any_ok (ABool b) \<longleftrightarrow> True"
| "any_ok (ANum f) \<longleftrightarrow> float_ok f"
| "any_ok (AStr s) \<longleftrightarrow> valid_utf8 s"
| "any_ok (AArr as) \<longleftrightarrow> elems_ok as"
| "any_ok (AObj m) \<longleftrightarrow> mwf m \<and> members_ok m"
| "any_ok (AEntry c as) \<longleftrightarrow> valid_utf8 c \<and> list_all valid_utf8 as"
| "elems_ok [] \<longleftrightarrow> True"
| "elems_ok (a # as) \<longleftrightarrow> any_ok a \<and> elems_ok as"
| "members_ok [] \<longleftrightarrow> True"
| "members_ok ((k, a) # m) \<longleftrightarrow> valid_utf8 k \<and> any_ok a \<and> members_ok m"

text \<open>Nested at most \<open>k\<close> deep.\<close>

fun nests :: "nat \<Rightarrow> any \<Rightarrow> bool" and nests_elems :: "nat \<Rightarrow> any list \<Rightarrow> bool"
  and nests_members :: "nat \<Rightarrow> (bytes \<times> any) list \<Rightarrow> bool" where
  "nests k (AArr as) \<longleftrightarrow> 0 < k \<and> nests_elems (k - 1) as"
| "nests k (AObj m) \<longleftrightarrow> 0 < k \<and> nests_members (k - 1) m"
| "nests k (AEntry c as) \<longleftrightarrow> 2 \<le> k"
| "nests k ANil \<longleftrightarrow> True"
| "nests k (ABool b) \<longleftrightarrow> True"
| "nests k (ANum f) \<longleftrightarrow> True"
| "nests k (AStr s) \<longleftrightarrow> True"
| "nests_elems k [] \<longleftrightarrow> True"
| "nests_elems k (a # as) \<longleftrightarrow> nests k a \<and> nests_elems k as"
| "nests_members k [] \<longleftrightarrow> True"
| "nests_members k ((key, a) # m) \<longleftrightarrow> nests k a \<and> nests_members k m"

text \<open>The typed entry reads back as a map.\<close>

fun plain_any :: "any \<Rightarrow> any" and plain_elems :: "any list \<Rightarrow> any list"
  and plain_members :: "(bytes \<times> any) list \<Rightarrow> (bytes \<times> any) list" where
  "plain_any (AArr as) = AArr (plain_elems as)"
| "plain_any (AObj m) = AObj (plain_members m)"
| "plain_any (AEntry c as) = AObj [(''args'', AArr (map AStr as)), (''command'', AStr c)]"
| "plain_any ANil = ANil"
| "plain_any (ABool b) = ABool b"
| "plain_any (ANum f) = ANum f"
| "plain_any (AStr s) = AStr s"
| "plain_elems [] = []"
| "plain_elems (a # as) = plain_any a # plain_elems as"
| "plain_members [] = []"
| "plain_members ((k, a) # m) = (k, plain_any a) # plain_members m"

lemma mput_last: "\<forall>x \<in> set (mkeys m). x < k \<Longrightarrow> mput k v m = m @ [(k, v)]"
  by (induction m) (auto simp: order_less_imp_not_less)

lemma entry_keys:
  "repair ''args'' = ''args''" "repair ''command'' = ''command''" "''args'' < ''command''" "''command'' \<noteq> ''args''"
  by code_simp+

lemma elems_strings:
  "list_all valid_utf8 as \<Longrightarrow> of_elems (reread_elems P gap d (map JStr as)) = Some (map AStr as)"
  by (induction as) (simp_all add: repair_valid)

lemma string_list_fits: "fits_elems k (map JStr as)"
  by (induction as) simp_all

lemma of_to_json:
  "any_ok a \<Longrightarrow> of_json (reread P gap d (to_json a)) = Some (plain_any a)"
  "elems_ok as \<Longrightarrow> of_elems (reread_elems P gap d (to_elems as)) = Some (plain_elems as)"
  "members_ok m \<Longrightarrow> mwf m \<Longrightarrow> \<forall>x \<in> set (mkeys acc). \<forall>k \<in> set (mkeys m). x < k \<Longrightarrow>
     of_members (reread_members P gap d (to_members m)) acc = Some (acc @ plain_members m)"
proof (induction a and as and m arbitrary: d and d and d acc rule: any_ok_elems_ok_members_ok.induct)
  case (3 f d)
  then show ?case by (simp add: parse_format_float)
next
  case (7 c as d)
  then show ?case using entry_keys by (simp add: elems_strings repair_valid)
next
  case (11 k a m)
  have *: "\<forall>x \<in> set (mkeys (acc @ [(k, plain_any a)])). \<forall>k \<in> set (mkeys m). x < k"
    using 11(4,5) by (auto simp: mwf_def)
  have "mput k (plain_any a) acc = acc @ [(k, plain_any a)]" using 11(5) by (intro mput_last) auto
  with 11(1) 11(2) [OF _ _ *] 11(3,4) show ?case by (simp add: repair_valid mwf_def)
qed (simp_all add: repair_valid)

lemma fits_to_json:
  "any_ok a \<Longrightarrow> nests k a \<Longrightarrow> fits k (to_json a)"
  "elems_ok as \<Longrightarrow> nests_elems k as \<Longrightarrow> fits_elems k (to_elems as)"
  "members_ok m \<Longrightarrow> nests_members k m \<Longrightarrow> fits_members k (to_members m)"
proof (induction a and as and m arbitrary: k and k and k rule: any_ok_elems_ok_members_ok.induct)
  case (3 f k)
  then show ?case by (simp add: format_float_literal)
qed (auto simp: string_list_fits)

lemma members_ok_put: "members_ok m \<Longrightarrow> valid_utf8 k \<Longrightarrow> any_ok a \<Longrightarrow> members_ok (mput k a m)"
  by (induction k a m rule: mput.induct) auto

lemma plain_put: "plain_members m = m \<Longrightarrow> plain_any a = a \<Longrightarrow> plain_members (mput k a m) = mput k a m"
  by (induction k a m rule: mput.induct) auto

lemma of_json_ok:
  "utf8_json v \<Longrightarrow> of_json v = Some a \<Longrightarrow> any_ok a \<and> plain_any a = a"
  "utf8_elems vs \<Longrightarrow> of_elems vs = Some as \<Longrightarrow> elems_ok as \<and> plain_elems as = as"
  "utf8_members ms \<Longrightarrow> of_members ms m = Some m' \<Longrightarrow> members_ok m \<Longrightarrow> mwf m \<Longrightarrow> plain_members m = m \<Longrightarrow>
     members_ok m' \<and> mwf m' \<and> plain_members m' = m'"
proof (induction v and vs and ms m arbitrary: a and as and m' rule: of_json_of_elems_of_members.induct)
  case (6 ms)
  then show ?case by auto
next
  case (10 k raw v ms m)
  then obtain b where b: "of_json v = Some b" "of_members ms (mput k b m) = Some m'"
    by (auto simp: Option.bind_eq_Some_conv)
  with 10 show ?case by (simp add: members_ok_put mwf_put plain_put)
qed (auto simp: Option.bind_eq_Some_conv parse_float_ok)

text \<open>The encoder's output with a line feed behind it.\<close>

lemma json_parse_line:
  assumes "spaces P gap" "fits max_nesting_depth v"
  shows "json_parse (json_print P gap d v @ [LF]) = Some (reread P gap d v)"
proof -
  let ?s = "json_print P gap d v @ [LF]"
  obtain t where t: "scan_all scan_reset (json_print P gap d v) = Some t" "ended scan_reset t"
    using print_scanned [OF assms] by blast
  have lf: "scan t LF = end_value scan_reset LF"
    using t(2) by (simp add: ended_def literal_char_def json_space_def)
  have "check_valid t [LF]"
    unfolding check_valid.simps lf
    by (simp add: scan_eof_def end_value_def end_top_def scan_reset_def json_space_def)
  with check_valid_append [OF t(1), of "[LF]"] have "json_valid ?s" by (simp add: json_valid_def)
  moreover have "parse_value (2 * length ?s + 2 + jcost v) ?s = Some (reread P gap d v, [LF])"
    by (rule parses_D [OF parse_print(1) [OF assms]]) (simp_all add: stop_def literal_char_def json_space_def)
  then have "parse_value (2 * length ?s + 2) ?s = Some (reread P gap d v, [LF])"
    using parse_fuel_enough [of ?s "jcost v"] by simp
  ultimately show ?thesis by (simp add: json_parse_def)
qed

lemma unmarshal_written:
  assumes "mwf m" "members_ok m" "nests max_nesting_depth (AObj m)"
  shows "unmarshal_map (marshal_indent (document (Some m)) @ [LF]) = Some (Some (plain_members m))"
proof -
  have ok: "any_ok (AObj m)" using assms(1,2) by simp
  have "json_parse (marshal_indent (to_json (AObj m)) @ [LF]) =
      Some (reread (\<lambda>d. LF # replicate (2 * d) (CHR '' '')) '' '' 0 (to_json (AObj m)))"
    unfolding marshal_indent_def by (rule json_parse_line [OF marshal_indent_spaces fits_to_json(1) [OF ok assms(3)]])
  moreover have "of_members (reread_members (\<lambda>d. LF # replicate (2 * d) (CHR '' '')) '' '' (Suc 0) (to_members m)) [] = Some (plain_members m)"
    using of_to_json(3) [OF assms(2,1), of "[]"] by simp
  ultimately show ?thesis by (simp add: unmarshal_map_def document_def)
qed

lemma unmarshal_ok:
  assumes "unmarshal_map data = Some (Some m)"
  shows "mwf m \<and> members_ok m \<and> plain_members m = m"
proof -
  obtain ms where p: "json_parse data = Some (JObj ms)" "of_members ms [] = Some m"
    using assms by (auto simp: unmarshal_map_def split: option.splits json.splits)
  then have "utf8_members ms" using json_parse_utf8 [of data "JObj ms"] by simp
  with of_json_ok(3) [OF this p(2)] show ?thesis by simp
qed

lemma load_ok_members:
  assumes "loadClientConfig path w = Inr (Some m, original)"
  shows "mwf m \<and> members_ok m \<and> plain_members m = m"
  using assms by (auto simp: loadClientConfig_def dest: unmarshal_ok split: sum.splits if_splits option.splits)

text \<open>The document is not blank.\<close>

lemma trim_left_chars: "set s \<subseteq> set (trim_left seqs s) \<union> set (concat seqs)"
proof (induction seqs s rule: trim_left.induct)
  case (1 seqs s)
  show ?case
  proof (cases "space_len seqs s = 0")
    case True
    then show ?thesis by (simp add: trim_left_id)
  next
    case False
    then obtain p where p: "List.find (\<lambda>p. prefix p s) seqs = Some p" "space_len seqs s = length p"
      by (auto simp: space_len_def split: option.splits)
    then obtain r where s: "s = p @ r" "p \<in> set seqs" using find_prefix_le [OF p(1)] by (auto simp: prefix_def)
    with 1 False p(2) have "set r \<subseteq> set (trim_left seqs r) \<union> set (concat seqs)" by simp
    with s False p(2) show ?thesis by (subst trim_left.simps) auto
  qed
qed

lemma trim_space_keeps: "c \<in> set s \<Longrightarrow> c \<notin> set (concat space_seqs) \<Longrightarrow> c \<in> set (trim_space s)"
  using trim_left_chars [of s space_seqs] trim_left_chars [of "rev (trim_left space_seqs s)" "map rev space_seqs"]
  by (auto simp: trim_space_def)

lemma document_text: "trim_space (marshal_indent (document (Some m)) @ [LF]) \<noteq> []"
proof -
  have "CHR ''{'' \<in> set (marshal_indent (document (Some m)) @ [LF])"
    by (cases "to_members m") (auto simp: marshal_indent_def document_def)
  moreover have "CHR ''{'' \<notin> set (concat space_seqs)" by code_simp
  ultimately show ?thesis using trim_space_keeps by fastforce
qed

lemma load_written:
  assumes "Write (os_path w path) (marshal_indent (document (Some m)) @ [LF]) mode w = (None, w')"
    and "mwf m" "members_ok m" "nests max_nesting_depth (AObj m)"
  shows "loadClientConfig path w' = Inr (Some (plain_members m), Some (marshal_indent (document (Some m)) @ [LF]))"
proof -
  have "os_path w' path = os_path w path"
    using Write_machine [OF assms(1)] by (simp add: os_path_def same_machine_def)
  then show ?thesis
    using read_written [OF assms(1)] unmarshal_written [OF assms(2-)] document_text [of m]
    by (simp add: loadClientConfig_def)
qed

section \<open>The backup\<close>

text \<open>What others see while a file is replaced.\<close>

lemma write_shows:
  assumes "Write p data mode w = (r, w')" "write_target (nodes w) p = p" "b \<noteq> p" "nodes w b \<noteq> None"
  shows "\<exists>states. trace w' = states @ trace w \<and>
    list_all (\<lambda>ns. (ns p = nodes w p \<or> (\<exists>m. ns p = Some (File m data))) \<and> ns b = nodes w b) states \<and>
    (if r = None then \<exists>m. nodes w' p = Some (File m data) else nodes w' p = nodes w p) \<and> nodes w' b = nodes w b"
proof -
  let ?A = "\<lambda>q. q \<noteq> p \<and> nodes w q = None"
  have seen: "\<exists>states. trace v = states @ trace w \<and> list_all (\<lambda>ns. ns p = nodes w p \<and> ns b = nodes w b) states \<and>
      nodes v p = nodes w p \<and> nodes v b = nodes w b" if "touches ?A w v" for v
  proof -
    obtain new where n: "trace v = new @ trace w" "\<forall>ns \<in> set (nodes v # new). \<forall>q. \<not> ?A q \<longrightarrow> ns q = nodes w q"
      using \<open>touches ?A w v\<close> unfolding touches_def by blast
    have "ns p = nodes w p \<and> ns b = nodes w b" if "ns \<in> set (nodes v # new)" for ns
      using bspec [OF n(2) that, THEN spec, of p] bspec [OF n(2) that, THEN spec, of b] assms(4) by simp
    with n(1) show ?thesis by (auto simp: list_all_iff)
  qed
  from Write_steps [OF assms(1)] show ?thesis unfolding assms(2)
  proof
    assume "r \<noteq> None \<and> touches ?A w w'"
    with seen [of w'] show ?thesis by (auto simp: list_all_iff)
  next
    assume "r = None \<and> (\<exists>w1. touches ?A w w1 \<and> nodes w' = (nodes w1)(p \<mapsto> File (write_mode (nodes w) p mode) data) \<and>
      trace w' = nodes w' # trace w1 \<and> (\<forall>q. nodes w1 q \<noteq> nodes w q \<longrightarrow> is_dir (nodes w1) q) \<and>
      is_dir (nodes w1) (butlast p) \<and> p \<noteq> [])"
    then obtain w1 where r: "r = None" and t: "touches ?A w w1"
      and n: "nodes w' = (nodes w1)(p \<mapsto> File (write_mode (nodes w) p mode) data)" "trace w' = nodes w' # trace w1" by blast
    obtain states where st: "trace w1 = states @ trace w" "list_all (\<lambda>ns. ns p = nodes w p \<and> ns b = nodes w b) states"
        "nodes w1 b = nodes w b" using seen [OF t] by blast
    show ?thesis
      by (rule exI [of _ "nodes w' # states"]) (use r n st assms(3) in \<open>auto simp: list_all_iff\<close>)
  qed
qed

lemma WriteFile_machine: "WriteFile p data mode w = (r, w') \<Longrightarrow> same_machine w w'"
proof -
  assume a: "WriteFile p data mode w = (r, w')"
  show ?thesis
  proof (cases "follow (Suc max_links) (nodes w) p")
    case (Some t)
    obtain x w1 where c: "(if nodes w t = None then sys_create t mode w else sys_truncate t w) = (x, w1)" by (rule prod.exhaust)
    obtain y w2 where d: "sys_write t data w1 = (y, w2)" by (rule prod.exhaust)
    obtain z w3 where e: "sys_close w2 = (z, w3)" by (rule prod.exhaust)
    have "same_machine w w1" using c call_machine(2,4) by (auto split: if_splits)
    with write_machine [OF d] call_machine(5) [OF e] have "same_machine w w1" "same_machine w w3"
      by (auto intro: same_machine_trans)
    with a Some c d e show ?thesis by (cases x) (simp_all add: WriteFile_def Let_def del: follow.simps)
  qed (use a in \<open>simp add: WriteFile_def del: follow.simps\<close>)
qed

lemma WriteFile_steps:
  assumes "WriteFile p data mode w = (r, w')" "no_links dir (nodes w)" "prefix dir p"
  shows "touches (\<lambda>q. q = p) w w' \<and> (r = None \<longrightarrow> (\<exists>m. nodes w' p = Some (File m data)))"
proof -
  have f: "follow (Suc max_links) (nodes w) p = Some p" by (rule follow_unlinked [OF assms(2,3)])
  obtain x w1 where c: "(if nodes w p = None then sys_create p mode w else sys_truncate p w) = (x, w1)" by (rule prod.exhaust)
  obtain y w2 where d: "sys_write p data w1 = (y, w2)" by (rule prod.exhaust)
  obtain z w3 where e: "sys_close w2 = (z, w3)" by (rule prod.exhaust)
  have t1: "touches (\<lambda>q. q = p) w w1 \<and> (x = None \<longrightarrow> (\<exists>m. nodes w1 p = Some (File m [])))"
  proof (cases "nodes w p = None")
    case True
    with c have s: "sys_create p mode w = (x, w1)" by simp
    have "nodes w1 p = Some (File mode [])" if "x = None"
      using create_ok [OF s [unfolded that]] by simp
    moreover have "touches (\<lambda>q. q = p) w w1" using fresh_touches(2) [OF s] by (rule touches_mono) simp
    ultimately show ?thesis by auto
  next
    case False
    with c have s: "sys_truncate p w = (x, w1)" by simp
    have "\<exists>m. nodes w1 p = Some (File m [])" if "x = None"
      using sys_ok [OF s [unfolded sys_truncate_def that]] by (auto simp: is_file_def split: option.splits node.splits if_splits)
    moreover have "touches (\<lambda>q. q = p) w w1"
      using s unfolding sys_truncate_def by (rule sys_touches) (simp split: option.split node.split)
    ultimately show ?thesis by simp
  qed
  have t3: "touches (\<lambda>q. q = p) w2 w3 \<and> nodes w3 = nodes w2"
  proof
    show "touches (\<lambda>q. q = p) w2 w3" using e unfolding sys_close_def by (rule sys_touches) simp
    show "nodes w3 = nodes w2" using e by (cases z) (auto simp: sys_close_def dest!: sys_ok sys_fail)
  qed
  have t13: "touches (\<lambda>q. q = p) w w3"
    using touches_trans [OF touches_trans [OF conjunct1 [OF t1] write_touches [OF d]] conjunct1 [OF t3]] .
  show ?thesis
  proof (cases x)
    case (Some err)
    with assms(1) f c t1 show ?thesis by (auto simp: WriteFile_def simp del: follow.simps)
  next
    case None
    then have r: "w' = w3" "r = (if y \<noteq> None then y else z)"
      using assms(1) f c d e by (simp_all add: WriteFile_def Let_def del: follow.simps)
    have "\<exists>m. nodes w3 p = Some (File m data)" if "y = None"
      using write_ok [of p data w1 w2] d that t1 t3 None by (auto simp: append_file_def)
    with r t13 show ?thesis by auto
  qed
qed

text \<open>C24: the backup is complete before the configuration changes: in every state of the file system on
  the way, also after a crash, the file is as it was, or it holds the new text and the backup beside
  it the old one; at the end that is so exactly when no error is reported.\<close>

theorem backup_before_change:
  fixes w w' :: "'z os_scheme"
  assumes "replaceConfig path (Some old) data w = (r, w')" "os_path w path = dir @ [n]"
    "os_path w (path @ ''.bak'') = dir @ [n @ ''.bak'']" "no_links dir (nodes w)"
  shows "(\<exists>states. trace w' = states @ trace w \<and>
      list_all (\<lambda>ns. ns (dir @ [n]) = nodes w (dir @ [n]) \<or>
        (\<exists>m m'. ns (dir @ [n]) = Some (File m data) \<and> ns (dir @ [n @ ''.bak'']) = Some (File m' old))) states) \<and>
    (if r = None then \<exists>m m'. nodes w' (dir @ [n]) = Some (File m data) \<and> nodes w' (dir @ [n @ ''.bak'']) = Some (File m' old)
     else nodes w' (dir @ [n]) = nodes w (dir @ [n]))"
proof -
  let ?p = "dir @ [n]" and ?b = "dir @ [n @ ''.bak'']"
  obtain x w1 where b: "WriteFile ?b old mode_0600 w = (x, w1)" by (rule prod.exhaust)
  note steps = WriteFile_steps [OF b assms(4)]
  obtain s1 where s1: "trace w1 = s1 @ trace w" "\<forall>ns \<in> set (nodes w1 # s1). ns ?p = nodes w ?p"
    using steps by (auto simp: touches_def)
  show ?thesis
  proof (cases x)
    case (Some e)
    with assms(1-3) b have "r \<noteq> None" "w' = w1" by (auto simp: replaceConfig_def)
    with s1 show ?thesis by (auto simp: list_all_iff)
  next
    case None
    with assms(1-3) b have wr: "Write ?p data mode_0600 w1 = (r, w')" by (simp add: replaceConfig_def)
    obtain m where m: "nodes w1 ?b = Some (File m old)" using steps None by auto
    have t: "write_target (nodes w1) ?p = ?p"
      using plain.WriteFile_keeps [OF b assms(4)] by (intro target_unlinked [of dir]) auto
    obtain s2 where s2: "trace w' = s2 @ trace w1"
        "list_all (\<lambda>ns. (ns ?p = nodes w1 ?p \<or> (\<exists>m. ns ?p = Some (File m data))) \<and> ns ?b = nodes w1 ?b) s2"
        "(if r = None then (\<exists>m. nodes w' ?p = Some (File m data)) else nodes w' ?p = nodes w1 ?p) \<and> nodes w' ?b = nodes w1 ?b"
      using write_shows [OF wr t, of ?b] m by auto
    have "list_all (\<lambda>ns. ns ?p = nodes w ?p \<or> (\<exists>m m'. ns ?p = Some (File m data) \<and> ns ?b = Some (File m' old))) (s2 @ s1)"
      using s1 s2(2) m by (auto simp: list_all_iff)
    then show ?thesis using s1 s2(1,3) m by (auto simp del: list_all_append split: if_splits)
  qed
qed

section \<open>Setting and deleting an entry\<close>

lemma replace_written:
  assumes "replaceConfig path original data w = (None, w')"
  shows "\<exists>w1. Write (os_path w1 path) data mode_0600 w1 = (None, w')"
proof (cases original)
  case None
  with assms show ?thesis by (auto simp: replaceConfig_def)
next
  case (Some old)
  obtain x w1 where b: "WriteFile (os_path w (path @ ''.bak'')) old mode_0600 w = (x, w1)" by (rule prod.exhaust)
  have "os_path w1 path = os_path w path" using WriteFile_machine [OF b] by (simp add: os_path_def same_machine_def)
  with assms Some b have "Write (os_path w1 path) data mode_0600 w1 = (None, w')"
    by (cases x) (simp_all add: replaceConfig_def)
  then show ?thesis ..
qed

lemma write_reads_back:
  assumes "writeClientConfig path (Some m) original w = (None, w')" "mwf m" "members_ok m" "nests max_nesting_depth (AObj m)"
  shows "loadClientConfig path w' = Inr (Some (plain_members m), Some (marshal_indent (document (Some m)) @ [LF]))"
proof -
  obtain w1 where "Write (os_path w1 path) (marshal_indent (document (Some m)) @ [LF]) mode_0600 w1 = (None, w')"
    using replace_written assms(1) unfolding writeClientConfig_def by blast
  from load_written [OF this assms(2-)] show ?thesis .
qed

lemma members_get: "members_ok m \<Longrightarrow> mget m k = Some a \<Longrightarrow> any_ok a"
  by (induction m) (auto split: if_splits)

lemma nests_get: "nests_members d m \<Longrightarrow> mget m k = Some a \<Longrightarrow> nests d a"
  by (induction m) (auto split: if_splits)

lemma nests_put: "nests_members d m \<Longrightarrow> nests d a \<Longrightarrow> nests_members d (mput k a m)"
  by (induction k a m rule: mput.induct) auto

lemma plain_mput: "plain_members (mput k a m) = mput k (plain_any a) (plain_members m)"
  by (induction k a m rule: mput.induct) auto

lemma plain_get: "mget (plain_members m) k = map_option plain_any (mget m k)"
  by (induction m) auto

text \<open>The servers of a document, none when there is no such object.\<close>

definition servers_of :: "(bytes \<times> any) list \<Rightarrow> (bytes \<times> any) list" where
  "servers_of m = (case as_map (mget m ''mcpServers'') of Some s \<Rightarrow> s | None \<Rightarrow> [])"

lemma set_server_eq:
  "set_server name entry (Some m) = Some (mput ''mcpServers'' (AObj (mput name entry (servers_of m))) m)"
  by (simp add: set_server_def servers_of_def nil_get_def Let_def)

lemma servers_ok:
  assumes "mwf m" "members_ok m" "nests max_nesting_depth (AObj m)"
  shows "mwf (servers_of m)" "members_ok (servers_of m)" "nests_members (max_nesting_depth - 2) (servers_of m)"
proof -
  have "mwf (servers_of m) \<and> members_ok (servers_of m) \<and> nests_members (max_nesting_depth - 2) (servers_of m)"
  proof (cases "\<exists>s. mget m ''mcpServers'' = Some (AObj s)")
    case True
    then obtain s where s: "mget m ''mcpServers'' = Some (AObj s)" by blast
    with members_get [OF assms(2) s] nests_get [OF _ s, of "max_nesting_depth - 1"] assms(3)
    show ?thesis by (simp add: servers_of_def as_map_def max_nesting_depth_def)
  next
    case False
    then have "servers_of m = []" by (simp add: servers_of_def as_map_def split: option.split any.split)
    then show ?thesis by simp
  qed
  then show "mwf (servers_of m)" "members_ok (servers_of m)" "nests_members (max_nesting_depth - 2) (servers_of m)" by blast+
qed

lemma plain_servers: "plain_members m = m \<Longrightarrow> plain_members (servers_of m) = servers_of m"
proof -
  assume m: "plain_members m = m"
  have "plain_any a = a" if "mget m ''mcpServers'' = Some a" for a
    using plain_get [of m "''mcpServers''"] that by (simp add: m)
  then show ?thesis by (auto simp: servers_of_def as_map_def split: option.split any.split)
qed

lemma mcp_key: "valid_utf8 ''mcpServers''"
  by code_simp

text \<open>The document after setting an entry, and after deleting one.\<close>

lemma put_servers_ok:
  assumes "mwf m" "members_ok m" "nests max_nesting_depth (AObj m)" "mwf s" "members_ok s" "nests_members (max_nesting_depth - 2) s"
  defines "m' \<equiv> mput ''mcpServers'' (AObj s) m"
  shows "mwf m'" "members_ok m'" "nests max_nesting_depth (AObj m')"
  using assms by (auto simp: mwf_put members_ok_put mcp_key max_nesting_depth_def intro!: nests_put)

lemma upsert_result:
  assumes "loadClientConfig path w = Inr (Some m, original)" "upsertServerEntry path name entry False w = (None, out, w')"
    "valid_utf8 name" "any_ok entry" "nests (max_nesting_depth - 2) entry" "nests max_nesting_depth (AObj m)"
  shows "\<exists>text. loadClientConfig path w' =
    Inr (Some (mput ''mcpServers'' (AObj (mput name (plain_any entry) (servers_of m))) m), Some text)"
proof -
  let ?s = "mput name entry (servers_of m)"
  note m = load_ok_members [OF assms(1)]
  have s: "mwf ?s" "members_ok ?s" "nests_members (max_nesting_depth - 2) ?s"
    using servers_ok [of m] m assms(3-) by (simp_all add: mwf_put members_ok_put nests_put)
  note ok = put_servers_ok [OF _ _ assms(6) s]
  have "writeClientConfig path (Some (mput ''mcpServers'' (AObj ?s) m)) original w = (None, w')"
    using assms(1,2) by (simp add: upsertServerEntry_def set_server_eq Let_def split: prod.splits)
  from write_reads_back [OF this] ok m show ?thesis by (simp add: plain_mput plain_servers)
qed

lemma remove_undoes_upsert:
  assumes "loadClientConfig path w = Inr (Some m, original)" "mget m ''mcpServers'' = Some (AObj s)" "mget s name = None"
    "valid_utf8 name" "any_ok entry" "nests (max_nesting_depth - 2) entry" "nests max_nesting_depth (AObj m)"
    "upsertServerEntry path name entry False w = (None, out, w1)" "removeServerEntry path name w1 = (None, e, w2)"
  shows "e = Some (plain_any entry) \<and> (\<exists>text. loadClientConfig path w2 = Inr (Some m, Some text))"
proof -
  let ?p = "mput name (plain_any entry) s" and ?k = "''mcpServers''"
  have sm: "servers_of m = s" using assms(2) by (simp add: servers_of_def as_map_def)
  obtain doc where l: "loadClientConfig path w1 = Inr (Some (mput ?k (AObj ?p) m), Some doc)"
    using upsert_result [OF assms(1,8,4-7)] sm by blast
  have m: "mwf m" "members_ok m" "plain_members m = m" using load_ok_members [OF assms(1)] by simp_all
  have s: "mwf s" using servers_ok(1) [OF m(1,2) assms(7)] sm by simp
  have restored: "mput ?k (AObj (mdel name ?p)) (mput ?k (AObj ?p) m) = m"
    using m(1) s assms(2,3) by (simp add: smap.put_put smap.del_put smap.del_absent smap.put_same)
  have g: "mget (mput ?k (AObj ?p) m) ?k = Some (AObj ?p)" "mget ?p name = Some (plain_any entry)"
    by (simp_all add: smap.get_put)
  obtain r w3 where wr: "writeClientConfig path (Some m) (Some doc) w1 = (r, w3)" by (rule prod.exhaust)
  have e: "r = None" "w3 = w2" "e = Some (plain_any entry)"
    using assms(9) wr unfolding removeServerEntry_def l by (simp_all add: as_map_def g restored Let_def)
  then have "writeClientConfig path (Some m) (Some doc) w1 = (None, w2)" using wr by simp
  from write_reads_back [OF this m(1,2) assms(7)] m(3) e(3) show ?thesis by simp
qed

section \<open>When nothing fails\<close>

text \<open>A directory in which the configuration \<open>n\<close> can be replaced.\<close>

definition calm_dir :: "path \<Rightarrow> bytes \<Rightarrow> 'z os_scheme \<Rightarrow> bool" where
  "calm_dir dir n w \<longleftrightarrow> faults w = [] \<and> (\<forall>q. prefix q dir \<longrightarrow> is_dir (nodes w) q) \<and> no_links dir (nodes w) \<and>
     \<not> is_dir (nodes w) (dir @ [n]) \<and> \<not> is_dir (nodes w) (dir @ [n @ ''.bak'']) \<and>
     (\<forall>k. nodes w (dir @ [n @ ''.tmp-'' @ k]) = None) \<and> CHR ''/'' \<notin> set n"

lemma calm_dir_change:
  assumes "calm_dir dir n w" "faults w' = []" "no_links dir (nodes w')" "\<not> is_dir (nodes w') p"
    "p = dir @ [n] \<or> p = dir @ [n @ ''.bak'']" "\<And>q. q \<noteq> p \<Longrightarrow> nodes w' q = nodes w q \<or> is_dir (nodes w') q \<and> prefix q dir"
  shows "calm_dir dir n w'"
proof -
  have d: "is_dir (nodes w') q" if "prefix q dir" for q
  proof -
    have "q \<noteq> p" using that assms(5) by (auto dest: prefix_length_le)
    with assms(6) [OF this] assms(1) that show ?thesis by (auto simp: calm_dir_def is_dir_def)
  qed
  have o: "nodes w' (dir @ [c]) = nodes w (dir @ [c])" if "dir @ [c] \<noteq> p" for c
    using assms(6) [OF that] by (auto dest: prefix_length_le)
  have "nodes w' (dir @ [n @ ''.tmp-'' @ k]) = None" for k
    using o [of "n @ ''.tmp-'' @ k"] assms(1,5) by (auto simp: calm_dir_def)
  moreover have "\<not> is_dir (nodes w') (dir @ [c])" if "c = n \<or> c = n @ ''.bak''" for c
  proof (cases "dir @ [c] = p")
    case False
    with o [of c] assms(1) that show ?thesis by (auto simp: calm_dir_def is_dir_def)
  qed (use assms(4) in simp)
  ultimately show ?thesis using assms(1-3) d by (simp add: calm_dir_def)
qed

lemma replace_runs:
  assumes "calm_dir dir n w" "os_path w path = dir @ [n]" "os_path w (path @ ''.bak'') = dir @ [n @ ''.bak'']"
  shows "\<exists>w'. replaceConfig path original data w = (None, w') \<and> calm_dir dir n w' \<and> same_machine w w'"
proof -
  have wr: "\<exists>w'. Write (dir @ [n]) data mode_0600 v = (None, w') \<and> calm_dir dir n w' \<and> same_machine v w'"
    if c: "calm_dir dir n v" for v :: "'a os_scheme"
  proof -
    have t: "write_target (nodes v) (dir @ [n]) = dir @ [n]"
      using c by (intro target_unlinked [of dir]) (simp_all add: calm_dir_def)
    obtain w' where w': "Write (dir @ [n]) data mode_0600 v = (None, w')" "faults w' = []"
      using write_runs [of v "dir @ [n]" data mode_0600] c
      unfolding t by (auto simp: calm_dir_def first_temp_def base_name_def)
    have "nodes w' q = nodes v q \<or> is_dir (nodes w') q \<and> prefix q dir" if "q \<noteq> dir @ [n]" for q
      using Write_changes [OF w'(1), of q] that unfolding t by auto
    moreover have "\<not> is_dir (nodes w') (dir @ [n])"
      using Write_steps [OF w'(1)] unfolding t by (auto simp: is_dir_def)
    ultimately have "calm_dir dir n w'"
      using c w'(2) plain.Write_keeps [OF w'(1), of dir]
      by (intro calm_dir_change [OF c, of w' "dir @ [n]"]) (auto simp: calm_dir_def)
    with w' Write_machine [OF w'(1)] show ?thesis by blast
  qed
  show ?thesis
  proof (cases original)
    case None
    with wr [OF assms(1)] assms(2) show ?thesis by (simp add: replaceConfig_def)
  next
    case (Some old)
    obtain w1 m where b: "WriteFile (dir @ [n @ ''.bak'']) old mode_0600 w = (None, w1)"
        "nodes w1 = (nodes w)(dir @ [n @ ''.bak''] \<mapsto> File m old)" "quiet w w1"
      using write_file_runs [of w "dir @ [n @ ''.bak'']" old mode_0600] assms(1)
      by (auto simp: calm_dir_def no_links_def)
    have "calm_dir dir n w1"
      using assms(1) b plain.WriteFile_keeps [OF b(1), of dir]
      by (intro calm_dir_change [OF assms(1), of w1 "dir @ [n @ ''.bak'']"]) (auto simp: calm_dir_def quiet_def is_dir_def)
    then obtain w' where "Write (dir @ [n]) data mode_0600 w1 = (None, w')" "calm_dir dir n w'" "same_machine w1 w'"
      using wr by blast
    with Some b assms(2,3) WriteFile_machine [OF b(1)] show ?thesis
      by (auto simp: replaceConfig_def intro: same_machine_trans)
  qed
qed

lemma upsert_runs:
  assumes "calm_dir dir n w" "os_path w path = dir @ [n]" "os_path w (path @ ''.bak'') = dir @ [n @ ''.bak'']"
    "loadClientConfig path w = Inr (Some m, original)"
  shows "\<exists>w'. upsertServerEntry path name entry False w = (None, [], w') \<and> calm_dir dir n w' \<and> same_machine w w'"
proof -
  let ?m = "mput ''mcpServers'' (AObj (mput name entry (servers_of m))) m"
  obtain w' where "writeClientConfig path (Some ?m) original w = (None, w')" "calm_dir dir n w'" "same_machine w w'"
    using replace_runs [OF assms(1-3), of original "marshal_indent (document (Some ?m)) @ [LF]"]
    unfolding writeClientConfig_def by blast
  with assms(4) show ?thesis by (simp add: upsertServerEntry_def set_server_eq)
qed

lemma remove_runs:
  assumes "calm_dir dir n w" "os_path w path = dir @ [n]" "os_path w (path @ ''.bak'') = dir @ [n @ ''.bak'']"
    "loadClientConfig path w = Inr (Some m, Some doc)"
  shows "\<exists>e w'. removeServerEntry path name w = (None, e, w')"
proof (cases "\<exists>s a. as_map (mget m ''mcpServers'') = Some s \<and> mget s name = Some a")
  case True
  then obtain s a where sa: "as_map (mget m ''mcpServers'') = Some s" "mget s name = Some a" by blast
  then show ?thesis using assms(4) replace_runs [OF assms(1-3), of "Some doc"
      "marshal_indent (document (Some (mput ''mcpServers'' (AObj (mdel name s)) m))) @ [LF]"]
    by (auto simp: removeServerEntry_def writeClientConfig_def Let_def)
next
  case False
  then show ?thesis using assms(4)
    by (cases "as_map (mget m ''mcpServers'')") (auto simp: removeServerEntry_def split: option.split)
qed

text \<open>C25: installing an entry is surgical.  When it succeeds, the file reads back as the document it held,
  with the entry under its name; every other server and every other key is what it was.\<close>

theorem upsert_surgical:
  assumes "loadClientConfig path w = Inr (Some m, original)" "upsertServerEntry path name entry False w = (None, out, w')"
    "valid_utf8 name" "any_ok entry" "nests (max_nesting_depth - 2) entry" "nests max_nesting_depth (AObj m)"
  shows "\<exists>m' s text. loadClientConfig path w' = Inr (Some m', Some text) \<and> mget m' ''mcpServers'' = Some (AObj s) \<and>
    (\<forall>k. mget m' k = (if k = ''mcpServers'' then Some (AObj s) else mget m k)) \<and>
    (\<forall>n. mget s n = (if n = name then Some (plain_any entry) else mget (servers_of m) n))"
proof -
  obtain doc where "loadClientConfig path w' =
      Inr (Some (mput ''mcpServers'' (AObj (mput name (plain_any entry) (servers_of m))) m), Some doc)"
    using upsert_result [OF assms] by blast
  then show ?thesis by (auto simp: smap.get_put)
qed


text \<open>a client configuration that is the document \<open>null\<close> passes for valid JSON and crashes the
  installation: the decoder makes the map nil, and setting the entry is a write into a nil map.\<close>

theorem null_config_panics:
  assumes "ReadFile (os_path w path) w = Inr ''null''"
  shows "upsertServerEntry path name entry dryRun w = (Some panic_nil_map, [], w)"
proof -
  have "trim_space ''null'' \<noteq> []" by code_simp
  moreover have "map_option (\<lambda>x. x = None) (unmarshal_map ''null'') = Some True" by code_simp
  then have "unmarshal_map ''null'' = Some None" by auto
  ultimately show ?thesis using assms by (simp add: upsertServerEntry_def loadClientConfig_def set_server_def)
qed

section \<open>A concrete disk\<close>

definition demo_doc :: "(bytes \<times> any) list" where
  "demo_doc = [(''mcpServers'', AObj [(''other'', AEntry ''x'' [])])]"

definition demo_read :: "(bytes \<times> any) list" where
  "demo_read = [(''mcpServers'', AObj [(''other'', AObj [(''args'', AArr []), (''command'', AStr ''x'')])])]"

definition config_disk :: os where
  "config_disk = empty_disk\<lparr>nodes := (nodes empty_disk)([''c.json''] \<mapsto>
     File mode_0600 (marshal_indent (document (Some demo_doc)) @ [LF]))\<rparr>"

lemma config_calm: "calm_dir [] ''c.json'' config_disk"
  by (auto simp: calm_dir_def config_disk_def empty_disk_def is_dir_def no_links_def)

lemma config_paths:
  "os_path config_disk ''/c.json'' = [] @ [''c.json'']" "os_path config_disk (''/c.json'' @ ''.bak'') = [] @ [''c.json'' @ ''.bak'']"
  by (simp_all add: os_path_def abs_path_def)

lemma demo_doc_ok: "mwf demo_doc" "members_ok demo_doc" "nests max_nesting_depth (AObj demo_doc)" "plain_members demo_doc = demo_read"
  "nests max_nesting_depth (AObj demo_read)"
proof -
  have u: "valid_utf8 ''mcpServers''" "valid_utf8 ''other''" "valid_utf8 ''x''" by code_simp+
  then show "mwf demo_doc" "members_ok demo_doc" "nests max_nesting_depth (AObj demo_doc)" "plain_members demo_doc = demo_read"
    "nests max_nesting_depth (AObj demo_read)"
    by (simp_all add: demo_doc_def demo_read_def mwf_def max_nesting_depth_def)
qed

lemma config_load: "loadClientConfig ''/c.json'' config_disk =
    Inr (Some demo_read, Some (marshal_indent (document (Some demo_doc)) @ [LF]))"
proof -
  have "ReadFile [''c.json''] config_disk = Inr (marshal_indent (document (Some demo_doc)) @ [LF])"
    by (simp add: ReadFile_def read_node_def config_disk_def)
  then show ?thesis
    using unmarshal_written [OF demo_doc_ok(1-3)] document_text [of demo_doc] config_paths(1) demo_doc_ok(4)
    by (simp add: loadClientConfig_def)
qed

lemma demo_entry: "valid_utf8 ''n''" "any_ok (AEntry ''/bin/mcpurl'' [''@n''])"
    "nests (max_nesting_depth - 2) (AEntry ''/bin/mcpurl'' [''@n''])"
proof -
  have "valid_utf8 ''/bin/mcpurl''" "valid_utf8 ''@n''" by code_simp+
  then show "valid_utf8 ''n''" "any_ok (AEntry ''/bin/mcpurl'' [''@n''])"
    "nests (max_nesting_depth - 2) (AEntry ''/bin/mcpurl'' [''@n''])" by (simp_all add: max_nesting_depth_def) code_simp
qed

theorem upsert_surgical_witness:
  "\<exists>(w' :: os) m' text s. loadClientConfig ''/c.json'' w' = Inr (Some m', Some text) \<and>
    mget m' ''mcpServers'' = Some (AObj s) \<and>
    mget s ''n'' = Some (AObj [(''args'', AArr [AStr ''@n'']), (''command'', AStr ''/bin/mcpurl'')]) \<and>
    mget s ''other'' = Some (AObj [(''args'', AArr []), (''command'', AStr ''x'')])"
proof -
  obtain w' where "upsertServerEntry ''/c.json'' ''n'' (AEntry ''/bin/mcpurl'' [''@n'']) False config_disk = (None, [], w')"
    using upsert_runs [OF config_calm config_paths config_load] by blast
  from upsert_surgical [OF config_load this demo_entry demo_doc_ok(5)] obtain m' s doc where
    "loadClientConfig ''/c.json'' w' = Inr (Some m', Some doc)" "mget m' ''mcpServers'' = Some (AObj s)"
    "\<forall>n. mget s n = (if n = ''n'' then Some (plain_any (AEntry ''/bin/mcpurl'' [''@n''])) else mget (servers_of demo_read) n)"
    by blast
  then show ?thesis
    by (intro exI [of _ w'] exI [of _ m'] exI [of _ doc] exI [of _ s]) (simp add: servers_of_def demo_read_def as_map_def)
qed


theorem backup_before_change_witness:
  "\<exists>r w'. replaceConfig ''/c.json'' (Some ''old'') ''new'' config_disk = (r, w') \<and>
    (if r = None then \<exists>m m'. nodes w' [''c.json''] = Some (File m ''new'') \<and> nodes w' [''c.json.bak''] = Some (File m' ''old'')
     else nodes w' [''c.json''] = nodes config_disk [''c.json''])"
proof -
  obtain r w' where r: "replaceConfig ''/c.json'' (Some ''old'') ''new'' config_disk = (r, w')" by (rule prod.exhaust)
  have "no_links [] (nodes config_disk)" using config_calm by (simp add: calm_dir_def)
  from backup_before_change [OF r config_paths this] r show ?thesis by auto
qed

theorem null_config_panics_witness:
  "upsertServerEntry ''/c.json'' ''n'' ANil False (empty_disk\<lparr>nodes := [[''c.json''] \<mapsto> File 0 ''null'']\<rparr>) =
    (Some panic_nil_map, [], empty_disk\<lparr>nodes := [[''c.json''] \<mapsto> File 0 ''null'']\<rparr>)"
  by (rule null_config_panics) (simp add: ReadFile_def read_node_def os_path_def abs_path_def empty_disk_def)

end
