(* ===== verification/TomlEdit.thy ===== *)
theory TomlEdit
  imports Prelude
begin

text \<open>
  Text-level editing of \<open>config.toml\<close> (\<open>pkg/app/tomledit.go\<close>): replacing or dropping one
  \<open>[profiles.<name>]\<close> block.  The loops over line indices are kept as recursions over
  the same indices.  The lemmas show what the edit may touch: everything before and after
  one run of lines is kept byte for byte, that run holds no foreign table header, and a
  contiguous section is gone after a removal.
\<close>

section \<open>Lines and table headers\<close>

definition blank_line :: "bytes \<Rightarrow> bool" where
  "blank_line line \<longleftrightarrow> trim_space line = []"

definition comment_line :: "bytes \<Rightarrow> bool" where
  "comment_line line \<longleftrightarrow> prefix ''#'' (trim_space line)"

definition table_key :: "bytes \<Rightarrow> bytes option" where
  "table_key line =
     (let s = trim_space line in
      if \<not> prefix ''['' s then None
      else case cut_at (CHR '']'') (tl s) of
             None \<Rightarrow> None
           | Some (inner, _) \<Rightarrow> Some (trim_space inner))"

text \<open>The loop of \<open>splitTOMLKey\<close> over the runes of the key: the open quote (if any), the
  part being collected (reversed) and the parts so far.\<close>

fun split_key_loop :: "bytes \<Rightarrow> char option \<Rightarrow> bytes \<Rightarrow> bytes list \<Rightarrow> bytes list" where
  "split_key_loop [] q cur parts = parts @ [trim_space (rev cur)]"
| "split_key_loop (r # rs) (Some q) cur parts =
     (if r = q then split_key_loop rs None cur parts
      else split_key_loop rs (Some q) (r # cur) parts)"
| "split_key_loop (r # rs) None cur parts =
     (if r = DQ \<or> r = CHR 0x27 then split_key_loop rs (Some r) cur parts
      else if r = CHR ''.'' then split_key_loop rs None [] (parts @ [trim_space (rev cur)])
      else split_key_loop rs None (r # cur) parts)"

definition split_toml_key :: "bytes \<Rightarrow> bytes list" where
  "split_toml_key key = split_key_loop (subst_invalid rune_error key) None [] []"

definition profile_section :: "bytes \<Rightarrow> bytes \<Rightarrow> bool" where
  "profile_section key name =
     (case split_toml_key key of
        p0 # p1 # _ \<Rightarrow> p0 = ''profiles'' \<and> p1 = name
      | _ \<Rightarrow> False)"

section \<open>The splice\<close>

text \<open>The first loop of \<open>spliceProfileBlock\<close>: \<open>i\<close> is the index of the line at hand and
  \<open>start\<close> is \<open>None\<close> for Go's \<open>-1\<close>.  The result is \<open>(start, end)\<close>.\<close>

fun find_block :: "bytes \<Rightarrow> nat \<Rightarrow> nat option \<Rightarrow> bytes list \<Rightarrow> nat option \<times> nat" where
  "find_block name i start [] = (start, i)"
| "find_block name i start (line # rest) =
     (case table_key line of
        None \<Rightarrow> find_block name (Suc i) start rest
      | Some key \<Rightarrow>
          if profile_section key name
          then find_block name (Suc i) (case start of None \<Rightarrow> Some i | Some s \<Rightarrow> Some s) rest
          else case start of
                 None \<Rightarrow> find_block name (Suc i) None rest
               | Some s \<Rightarrow> (Some s, i))"

fun back_over_blanks :: "bytes list \<Rightarrow> nat \<Rightarrow> nat" where
  "back_over_blanks lines 0 = 0"
| "back_over_blanks lines (Suc n) =
     (if blank_line (lines ! n) then back_over_blanks lines n else Suc n)"

fun give_back :: "bytes list \<Rightarrow> nat \<Rightarrow> nat \<Rightarrow> nat" where
  "give_back lines start 0 = 0"
| "give_back lines start (Suc n) =
     (if Suc n > start \<and> (blank_line (lines ! n) \<or> comment_line (lines ! n))
      then give_back lines start n else Suc n)"

function skip_blanks :: "bytes list \<Rightarrow> nat \<Rightarrow> nat" where
  "skip_blanks lines e =
     (if e < length lines \<and> blank_line (lines ! e) then skip_blanks lines (Suc e) else e)"
  by pat_completeness auto
termination by (relation "measure (\<lambda>(lines, e). length lines - e)") auto

declare skip_blanks.simps [simp del]

definition splice_profile_block :: "bytes \<Rightarrow> bytes \<Rightarrow> bytes \<Rightarrow> bytes \<times> bool" where
  "splice_profile_block src name block =
     (let lines = split_after LF src in
      case find_block name 0 None lines of
        (None, _) \<Rightarrow> (src, False)
      | (Some s0, e0) \<Rightarrow>
          let start = back_over_blanks lines s0;
              e1 = give_back lines start e0;
              e2 = (if start = 0 \<and> block = [] then skip_blanks lines e1 else e1);
              out = concat (take start lines) @ block @ concat (drop e2 lines)
          in (if out \<noteq> [] \<and> \<not> suffix [LF] out then out @ [LF] else out, True))"

section \<open>What the scan finds\<close>

text \<open>A line \<^emph>\<open>addresses\<close> the profile when it is a table header of its section or of a table
  nested in it; it is \<^emph>\<open>ours\<close> when it is no foreign table header.\<close>

definition addresses :: "bytes \<Rightarrow> bytes \<Rightarrow> bool" where
  "addresses name line \<longleftrightarrow>
     (case table_key line of None \<Rightarrow> False | Some key \<Rightarrow> profile_section key name)"

definition ours :: "bytes \<Rightarrow> bytes \<Rightarrow> bool" where
  "ours name line \<longleftrightarrow> table_key line = None \<or> addresses name line"

lemma addresses_ours [simp]: "addresses name l \<Longrightarrow> ours name l"
  by (simp add: ours_def)

lemma find_block_started:
  "find_block name i (Some s) ls = (Some s, i + length (takeWhile (ours name) ls))"
  by (induction ls arbitrary: i) (auto simp: ours_def addresses_def split: option.splits)

lemma find_block_fresh:
  "find_block name i None ls =
     (if \<exists>l \<in> set ls. addresses name l
      then let n = length (takeWhile (\<lambda>l. \<not> addresses name l) ls)
           in (Some (i + n), i + n + length (takeWhile (ours name) (drop n ls)))
      else (None, i + length ls))"
proof (induction ls arbitrary: i)
  case Nil
  then show ?case by simp
next
  case (Cons l ls)
  show ?case
  proof (cases "addresses name l")
    case True
    then show ?thesis
      by (auto simp: addresses_def find_block_started ours_def split: option.splits)
  next
    case False
    then have "find_block name i None (l # ls) = find_block name (Suc i) None ls"
      by (auto simp: addresses_def split: option.splits)
    with False Cons show ?thesis by (simp add: Let_def)
  qed
qed

lemma back_over_blanks_le: "back_over_blanks ls n \<le> n"
  by (induction n) auto

lemma back_over_blanks_blank:
  "back_over_blanks ls n \<le> j \<Longrightarrow> j < n \<Longrightarrow> blank_line (ls ! j)"
  by (induction n) (auto simp: less_Suc_eq split: if_splits)

lemma give_back_bounds: "give_back ls s n \<le> n \<and> (s \<le> n \<longrightarrow> s \<le> give_back ls s n)"
  by (induction n) auto

lemma give_back_given:
  "give_back ls s n \<le> j \<Longrightarrow> j < n \<Longrightarrow> blank_line (ls ! j) \<or> comment_line (ls ! j)"
  by (induction n) (auto simp: less_Suc_eq split: if_splits)

lemma give_back_stops:
  "s < give_back ls s n \<Longrightarrow> \<not> blank_line (ls ! (give_back ls s n - 1)) \<and>
     \<not> comment_line (ls ! (give_back ls s n - 1))"
  by (induction n) auto

lemma skip_blanks_bounds: "e \<le> skip_blanks ls e \<and> (e \<le> length ls \<longrightarrow> skip_blanks ls e \<le> length ls)"
  by (induction ls e rule: skip_blanks.induct) (subst (1 2) skip_blanks.simps, auto)

lemma skip_blanks_blank: "e \<le> j \<Longrightarrow> j < skip_blanks ls e \<Longrightarrow> blank_line (ls ! j)"
proof (induction ls e rule: skip_blanks.induct)
  case (1 ls e)
  show ?case
  proof (cases "e < length ls \<and> blank_line (ls ! e)")
    case True
    with "1.prems" have j: "j < skip_blanks ls (Suc e)" by (simp add: skip_blanks.simps [of ls e])
    show ?thesis
    proof (cases "e = j")
      case True
      with \<open>e < length ls \<and> blank_line (ls ! e)\<close> show ?thesis by simp
    next
      case False
      with "1.prems" j "1.IH" True show ?thesis by simp
    qed
  next
    case False
    with "1.prems" show ?thesis by (simp add: skip_blanks.simps [of ls e])
  qed
qed

text \<open>Blank lines and comments are never table headers.\<close>

lemma table_key_blank [simp]: "blank_line l \<Longrightarrow> table_key l = None"
  by (simp add: blank_line_def table_key_def)

lemma table_key_comment [simp]: "comment_line l \<Longrightarrow> table_key l = None"
  by (auto simp: comment_line_def table_key_def prefix_def)

lemma not_addresses_headerless [simp]: "table_key l = None \<Longrightarrow> \<not> addresses name l"
  by (simp add: addresses_def)

lemma nth_takeWhile_length:
  "\<exists>l \<in> set ls. P l \<Longrightarrow> length (takeWhile (\<lambda>l. \<not> P l) ls) < length ls
     \<and> P (ls ! length (takeWhile (\<lambda>l. \<not> P l) ls))"
  by (induction ls) auto

section \<open>What the splice changes\<close>

definition close_line :: "bytes \<Rightarrow> bytes" where
  "close_line out = (if out \<noteq> [] \<and> \<not> suffix [LF] out then out @ [LF] else out)"

text \<open>\<open>cut_lines name block ls pre mid post\<close>: the splice keeps \<open>pre\<close> and \<open>post\<close> and
  gives up \<open>mid\<close>, which runs from the blank lines above the first header of the profile
  to the next foreign table, less the comments and blank lines that belong below.\<close>

definition cut_lines ::
  "bytes \<Rightarrow> bytes \<Rightarrow> bytes list \<Rightarrow> bytes list \<Rightarrow> bytes list \<Rightarrow> bytes list \<Rightarrow> bool" where
  "cut_lines name block ls pre mid post \<longleftrightarrow>
     ls = pre @ mid @ post \<and>
     (\<forall>l \<in> set pre. \<not> addresses name l) \<and>
     (\<forall>l \<in> set mid. ours name l) \<and>
     (\<exists>l \<in> set mid. addresses name l) \<and>
     (\<exists>core tail. mid = core @ tail \<and> core \<noteq> [] \<and> \<not> blank_line (last core) \<and>
        \<not> comment_line (last core) \<and> list_all blank_line tail) \<and>
     (post = [] \<or> (\<exists>k. (\<forall>j < k. j < length post \<longrightarrow> blank_line (post ! j) \<or> comment_line (post ! j))
        \<and> (k < length post \<longrightarrow> \<not> ours name (post ! k))))"

lemma splice_indices:
  assumes ex: "\<exists>l \<in> set ls. addresses name l"
  obtains s0 e0 where "find_block name 0 None ls = (Some s0, e0)" "s0 < e0" "e0 \<le> length ls"
    "addresses name (ls ! s0)" "\<And>j. j < s0 \<Longrightarrow> \<not> addresses name (ls ! j)"
    "\<And>j. s0 \<le> j \<Longrightarrow> j < e0 \<Longrightarrow> ours name (ls ! j)"
    "e0 < length ls \<Longrightarrow> \<not> ours name (ls ! e0)"
proof -
  let ?s = "length (takeWhile (\<lambda>l. \<not> addresses name l) ls)"
  let ?w = "takeWhile (ours name) (drop ?s ls)"
  have s: "?s < length ls" "addresses name (ls ! ?s)"
    using nth_takeWhile_length [OF ex] by auto
  have d: "drop ?s ls = ls ! ?s # drop (Suc ?s) ls" using s(1) by (rule Cons_nth_drop_Suc [symmetric])
  have w: "?w \<noteq> []" using s(2) by (simp add: d)
  have wl: "length ?w \<le> length ls - ?s"
    using length_takeWhile_le [of "ours name" "drop ?s ls"] by simp
  show thesis
  proof
    show "find_block name 0 None ls = (Some ?s, ?s + length ?w)"
      using ex by (simp add: find_block_fresh Let_def)
    show "?s < ?s + length ?w" using w by simp
    show "?s + length ?w \<le> length ls" using wl s(1) by linarith
    show "addresses name (ls ! ?s)" by (rule s(2))
    show "\<not> addresses name (ls ! j)" if "j < ?s" for j
      using that by (metis (no_types, lifting) nth_mem set_takeWhileD takeWhile_nth)
    show "ours name (ls ! j)" if "?s \<le> j" "j < ?s + length ?w" for j
    proof -
      have "j - ?s < length ?w" using that by linarith
      then have "ours name (?w ! (j - ?s))" by (meson nth_mem set_takeWhileD)
      then show ?thesis using that s(1) \<open>j - ?s < length ?w\<close>
        by (simp add: takeWhile_nth)
    qed
    show "\<not> ours name (ls ! (?s + length ?w))" if "?s + length ?w < length ls"
      using that nth_length_takeWhile [of "ours name" "drop ?s ls"] s(1)
      by (simp add: less_diff_conv add.commute)
  qed
qed

text \<open>The parts of the cut: what is taken out is ours, what follows it is not, and it ends in a line
  of its own before the blank lines.\<close>

lemma cut_nth:
  assumes "l \<in> set (take (e2 - st) (drop st ls))" "st \<le> e2" "e2 \<le> length ls"
  obtains j where "st \<le> j" "j < e2" "l = ls ! j"
  using assms by (auto simp: in_set_conv_nth) (metis le_add1 less_diff_conv add.commute)

lemma cut_mid:
  assumes "st = back_over_blanks ls s0" "e1 \<le> e0" "st \<le> e2" "e2 \<le> length ls"
    "\<And>j. s0 \<le> j \<Longrightarrow> j < e0 \<Longrightarrow> ours name (ls ! j)" "\<And>j. e1 \<le> j \<Longrightarrow> j < e2 \<Longrightarrow> blank_line (ls ! j)"
    "l \<in> set (take (e2 - st) (drop st ls))"
  shows "ours name l"
proof -
  obtain j where j: "st \<le> j" "j < e2" "l = ls ! j" using cut_nth [OF assms(7,3,4)] by blast
  consider "j < s0" | "s0 \<le> j" "j < e1" | "e1 \<le> j" by linarith
  then show ?thesis
  proof cases
    case 1
    then have "blank_line l" using j back_over_blanks_blank by (simp add: assms(1))
    then show ?thesis by (simp add: ours_def)
  next
    case 2
    then show ?thesis using assms(2,5) j by simp
  next
    case 3
    then show ?thesis using assms(6) j by (simp add: ours_def)
  qed
qed

lemma cut_core:
  assumes "st \<le> s0" "s0 < e1" "e1 \<le> e2" "e2 \<le> length ls" "e1 = give_back ls st e0"
    "\<And>j. e1 \<le> j \<Longrightarrow> j < e2 \<Longrightarrow> blank_line (ls ! j)"
  shows "\<exists>core tail. take (e2 - st) (drop st ls) = core @ tail \<and> core \<noteq> [] \<and> \<not> blank_line (last core) \<and>
      \<not> comment_line (last core) \<and> list_all blank_line tail"
proof (intro exI conjI)
  let ?core = "take (e1 - st) (drop st ls)" and ?tail = "take (e2 - e1) (drop e1 ls)"
  have len: "length ?core = e1 - st" using assms(3,4) by simp
  have "take (e2 - st) (drop st ls) = take ((e1 - st) + (e2 - e1)) (drop st ls)" using assms(1-3) by simp
  also have "\<dots> = ?core @ take (e2 - e1) (drop (e1 - st) (drop st ls))" by (rule take_add)
  finally show "take (e2 - st) (drop st ls) = ?core @ ?tail" using assms(1,2) by simp
  show ne: "?core \<noteq> []" using len assms(1,2) by (metis diff_is_0_eq leD le_trans length_0_conv not_less)
  have "last ?core = ls ! (e1 - 1)" using ne len assms(1,2) by (simp add: last_conv_nth)
  then show "\<not> blank_line (last ?core)" "\<not> comment_line (last ?core)"
    using give_back_stops [of st ls e0] assms(1,2) by (simp_all add: assms(5))
  show "list_all blank_line ?tail" using assms(3,4,6) by (auto simp: list_all_length)
qed

lemma cut_tail:
  assumes "e1 = give_back ls st e0" "e1 \<le> e2" "e1 \<le> e0" "e2 \<le> length ls"
    "\<And>j. e1 \<le> j \<Longrightarrow> j < e2 \<Longrightarrow> blank_line (ls ! j)" "e0 < length ls \<Longrightarrow> \<not> ours name (ls ! e0)"
  shows "drop e2 ls = [] \<or> (\<exists>k. (\<forall>j < k. j < length (drop e2 ls) \<longrightarrow>
      blank_line (drop e2 ls ! j) \<or> comment_line (drop e2 ls ! j)) \<and>
      (k < length (drop e2 ls) \<longrightarrow> \<not> ours name (drop e2 ls ! k)))"
proof (cases "e2 \<le> e0")
  case True
  have "\<forall>j < e0 - e2. j < length (drop e2 ls) \<longrightarrow> blank_line (drop e2 ls ! j) \<or> comment_line (drop e2 ls ! j)"
    using give_back_given [of ls st e0] assms(2) by (auto simp: assms(1))
  moreover have "e0 - e2 < length (drop e2 ls) \<longrightarrow> \<not> ours name (drop e2 ls ! (e0 - e2))"
    using True assms(6) by auto
  ultimately show ?thesis by blast
next
  case False
  then have "e0 < length ls" "blank_line (ls ! e0)" using assms(3-5) by auto
  with assms(6) have False by (simp add: ours_def)
  then show ?thesis ..
qed

lemma splice_shape:
  assumes ex: "\<exists>l \<in> set (split_after LF src). addresses name l"
  obtains pre mid post where "cut_lines name block (split_after LF src) pre mid post"
    "splice_profile_block src name block = (close_line (concat pre @ block @ concat post), True)"
proof -
  let ?ls = "split_after LF src"
  obtain s0 e0 where fb: "find_block name 0 None ?ls = (Some s0, e0)"
    and b: "s0 < e0" "e0 \<le> length ?ls" and h: "addresses name (?ls ! s0)"
    and before: "\<And>j. j < s0 \<Longrightarrow> \<not> addresses name (?ls ! j)"
    and inside: "\<And>j. s0 \<le> j \<Longrightarrow> j < e0 \<Longrightarrow> ours name (?ls ! j)"
    and foreign: "e0 < length ?ls \<Longrightarrow> \<not> ours name (?ls ! e0)"
    using splice_indices [OF ex] by metis
  define st where "st = back_over_blanks ?ls s0"
  define e1 where "e1 = give_back ?ls st e0"
  define e2 where "e2 = (if st = 0 \<and> block = [] then skip_blanks ?ls e1 else e1)"
  have st: "st \<le> s0" by (simp add: st_def back_over_blanks_le)
  have e1: "e1 \<le> e0" using give_back_bounds by (simp add: e1_def)
  have "\<not> (blank_line (?ls ! s0) \<or> comment_line (?ls ! s0))"
  proof
    assume "blank_line (?ls ! s0) \<or> comment_line (?ls ! s0)"
    then have "table_key (?ls ! s0) = None" by auto
    with h show False by simp
  qed
  then have s0e1: "s0 < e1"
    using give_back_given [of ?ls st e0 s0] b(1) by (cases "s0 < e1") (auto simp: e1_def)
  have e2: "e1 \<le> e2" "e2 \<le> length ?ls"
    using skip_blanks_bounds e1 b(2) by (auto simp: e2_def intro: order.trans)
  have blanks: "blank_line (?ls ! j)" if "e1 \<le> j" "j < e2" for j
    using that skip_blanks_blank by (auto simp: e2_def split: if_splits)
  let ?pre = "take st ?ls" and ?mid = "take (e2 - st) (drop st ?ls)" and ?post = "drop e2 ?ls"
  have ord: "st \<le> e2" using st s0e1 e2 by simp
  then have "?post = drop (e2 - st) (drop st ?ls)" by simp
  then have split: "?ls = ?pre @ ?mid @ ?post" by (simp only: append_take_drop_id)
  have mid: "\<forall>l \<in> set ?mid. ours name l" using cut_mid [OF st_def e1 ord e2(2) inside blanks] by blast
  have "?mid ! (s0 - st) = ?ls ! s0" "s0 - st < length ?mid" using st s0e1 e2 by auto
  then have in_mid: "?ls ! s0 \<in> set ?mid" by (metis nth_mem)
  have pre: "\<forall>l \<in> set ?pre. \<not> addresses name l"
    using before st by (force simp: in_set_conv_nth)
  show thesis
  proof
    show "cut_lines name block ?ls ?pre ?mid ?post"
      unfolding cut_lines_def
      using split pre mid in_mid h cut_core [OF st s0e1 e2 e1_def blanks] cut_tail [OF e1_def e2(1) e1 e2(2) blanks foreign]
      by blast
    show "splice_profile_block src name block = (close_line (concat ?pre @ block @ concat ?post), True)"
      by (simp only: splice_profile_block_def fb Let_def prod.case option.case close_line_def
            flip: st_def e1_def e2_def)
  qed
qed

section \<open>Removal leaves no header behind\<close>

text \<open>A section is contiguous when no foreign table header stands between two of its headers.\<close>

definition contiguous :: "bytes \<Rightarrow> bytes list \<Rightarrow> bool" where
  "contiguous name ls \<longleftrightarrow>
     list_all (\<lambda>l. \<not> addresses name l)
       (dropWhile (ours name) (dropWhile (\<lambda>l. \<not> addresses name l) ls))"

lemma trim_left_snoc_LF:
  "trim_left space_seqs (s @ [LF]) =
     (if trim_left space_seqs s = [] then [] else trim_left space_seqs s @ [LF])"
proof (induction "space_seqs" s rule: trim_left.induct)
  case (1 s)
  show ?case
  proof (cases "s = []")
    case True
    then show ?thesis by (simp add: trim_left.simps space_len_def space_seqs_def)
  next
    case False
    then have "space_len space_seqs (s @ [LF]) = space_len space_seqs s"
      by (simp add: space_len_def space_seqs_def prefix_snoc)
    moreover have "drop (space_len space_seqs s) (s @ [LF]) = drop (space_len space_seqs s) s @ [LF]"
      using space_len_le [of space_seqs s] by simp
    ultimately show ?thesis using 1 False
      by (simp add: trim_left.simps [of _ "s @ [LF]"] trim_left.simps [of _ s])
  qed
qed

lemma trim_space_snoc_LF [simp]: "trim_space (s @ [LF]) = trim_space s"
proof -
  have "trim_left (map rev space_seqs) (LF # t) = trim_left (map rev space_seqs) t" for t
    by (subst trim_left.simps) (simp add: space_len_def space_seqs_def)
  then show ?thesis by (simp add: trim_space_def trim_left_snoc_LF)
qed

lemma addresses_snoc_LF [simp]: "addresses name (l @ [LF]) = addresses name l"
  by (simp add: addresses_def table_key_def)

lemma addresses_Nil [simp]: "\<not> addresses name []"
  by (simp add: addresses_def table_key_def trim_space_def trim_left.simps space_len_def space_seqs_def)

lemma split_after_concat_lines:
  "\<forall>x \<in> set body. c \<notin> set x \<Longrightarrow>
   split_after c (concat (map (\<lambda>x. x @ [c]) body) @ t) = map (\<lambda>x. x @ [c]) body @ split_after c t"
  by (induction body) (auto simp: split_after_line)

lemma addresses_close_line:
  "list_ex (addresses name) (split_after LF (close_line s)) = list_ex (addresses name) (split_after LF s)"
proof -
  obtain body l where b: "split_after LF s = map (\<lambda>x. x @ [LF]) body @ [l]" "LF \<notin> set l"
      "\<forall>x \<in> set body. LF \<notin> set x" using split_after_lines [of LF s] by (elim exE conjE) (rule that)
  have "concat (split_after LF s) = concat (map (\<lambda>x. x @ [LF]) body) @ l"
    by (simp only: b(1)) simp
  then have s: "s = concat (map (\<lambda>x. x @ [LF]) body) @ l" by simp
  have "split_after LF (s @ [LF]) = map (\<lambda>x. x @ [LF]) body @ [l @ [LF], []]"
    using b(2,3) split_after_line [of LF l "[]"] by (simp add: s split_after_concat_lines)
  then show ?thesis by (simp add: close_line_def b(1))
qed

lemma split_after_pieces:
  assumes "split_after LF src = pre @ mid @ post" and "mid \<noteq> []"
  shows "split_after LF (concat pre @ concat post) = pre @ (if post = [] then [[]] else post)"
proof -
  obtain body l where b: "split_after LF src = map (\<lambda>x. x @ [LF]) body @ [l]" "LF \<notin> set l"
      "\<forall>x \<in> set body. LF \<notin> set x" using split_after_lines [of LF src] by (elim exE conjE) (rule that)
  define n where "n = length pre"
  have "length pre + length mid + length post = Suc (length body)"
    using arg_cong [OF assms(1), of length] by (simp add: b(1))
  then have n: "n \<le> length body"
    using assms(2) by (cases mid) (simp_all add: n_def)
  have pre: "pre = map (\<lambda>x. x @ [LF]) (take n body)"
  proof -
    have "pre = take n (split_after LF src)" by (simp add: assms(1) n_def)
    with n show ?thesis by (simp add: b(1) take_map)
  qed
  have front: "split_after LF (concat pre @ t) = pre @ split_after LF t" for t
    unfolding pre by (rule split_after_concat_lines) (use b(3) in \<open>auto dest: in_set_takeD\<close>)
  show ?thesis
  proof (cases post rule: rev_cases)
    case Nil
    then show ?thesis using front [of "[]"] by simp
  next
    case (snoc post' y)
    define m where "m = length pre + length mid"
    have y: "y = l" using assms(1) b(1) snoc by simp
    have "(pre @ mid) @ post' = map (\<lambda>x. x @ [LF]) body"
      using assms(1) b(1) snoc by simp
    then have m: "post' = drop m (map (\<lambda>x. x @ [LF]) body)"
      by (metis append_eq_conv_conj length_append m_def)
    have "split_after LF (concat post) = post"
      using b(2,3) snoc y split_after_concat_lines [of "drop m body" LF l]
      by (auto simp: m drop_map split_after_rest dest: in_set_dropD)
    then show ?thesis using front [of "concat post"] snoc by simp
  qed
qed

lemma contiguous_post:
  assumes "cut_lines name block ls pre mid post" and "contiguous name ls"
  shows "\<forall>l \<in> set post. \<not> addresses name l"
proof (cases "post = []")
  case False
  with assms(1) obtain k where k: "\<And>j. j < k \<Longrightarrow> j < length post \<Longrightarrow> table_key (post ! j) = None"
      "k < length post \<Longrightarrow> \<not> ours name (post ! k)"
    unfolding cut_lines_def by (metis table_key_blank table_key_comment)
  have shape: "ls = pre @ mid @ post" "list_all (\<lambda>l. \<not> addresses name l) pre"
      "list_all (ours name) mid" "\<exists>l \<in> set mid. addresses name l"
    using assms(1) by (auto simp: cut_lines_def list_all_iff)
  then have "dropWhile (\<lambda>l. \<not> addresses name l) ls = dropWhile (\<lambda>l. \<not> addresses name l) mid @ post"
    by (auto simp: list_all_iff dropWhile_append)
  moreover have "dropWhile (ours name) (dropWhile (\<lambda>l. \<not> addresses name l) mid @ post) = dropWhile (ours name) post"
    using shape(3) by (auto simp: list_all_iff dropWhile_append dest: set_dropWhileD)
  moreover have "dropWhile (ours name) post = drop k post"
  proof -
    have "takeWhile (ours name) post = take k post"
      by (rule takeWhile_eq_take_P_nth) (use k in \<open>auto simp: ours_def\<close>)
    then show ?thesis
      by (metis append_take_drop_id same_append_eq takeWhile_dropWhile_id)
  qed
  ultimately have rest: "\<forall>l \<in> set (drop k post). \<not> addresses name l"
    using assms(2) by (simp add: contiguous_def list_all_iff)
  show ?thesis
  proof
    fix l assume "l \<in> set post"
    then consider "l \<in> set (take k post)" | "l \<in> set (drop k post)"
      by (metis append_take_drop_id in_set_conv_decomp Un_iff set_append)
    then show "\<not> addresses name l"
      by cases (use k(1) rest in \<open>auto simp: in_set_conv_nth\<close>)
  qed
qed simp

section \<open>The contract of the editor\<close>

lemma splice_unaddressed:
  "\<not> list_ex (addresses name) (split_after LF src) \<Longrightarrow> splice_profile_block src name block = (src, False)"
  by (auto simp: splice_profile_block_def find_block_fresh list_ex_iff)

lemma removed_unaddressed:
  assumes "contiguous name (split_after LF src)"
  shows "\<not> list_ex (addresses name) (split_after LF (fst (splice_profile_block src name [])))"
proof (cases "list_ex (addresses name) (split_after LF src)")
  case False
  then show ?thesis by (simp add: splice_unaddressed)
next
  case True
  then obtain pre mid post where c: "cut_lines name [] (split_after LF src) pre mid post"
    and out: "splice_profile_block src name [] = (close_line (concat pre @ [] @ concat post), True)"
    using splice_shape [of src name "[]"] by (auto simp: list_ex_iff)
  have parts: "split_after LF src = pre @ mid @ post" "mid \<noteq> []" "\<forall>l \<in> set pre. \<not> addresses name l"
    using c by (auto simp: cut_lines_def)
  have "\<forall>l \<in> set post. \<not> addresses name l" by (rule contiguous_post [OF c assms])
  with parts(3) have "\<not> list_ex (addresses name) (split_after LF (concat pre @ concat post))"
    by (auto simp: split_after_pieces [OF parts(1,2)] list_ex_iff)
  then show ?thesis by (simp add: out addresses_close_line)
qed


abbreviation sample_toml :: bytes where
  "sample_toml \<equiv> ''[profiles.gone]'' @ [LF] @ ''url = 1'' @ [LF, LF] @
     ''# staging'' @ [LF] @ ''[profiles.tail]'' @ [LF]"


text \<open>removing a profile whose tables stand together removes all of them: no header of
  the profile is left, and a second removal reports that there is none.\<close>

theorem splice_removes_section:
  assumes "contiguous name (split_after LF src)"
  shows "\<not> list_ex (addresses name) (split_after LF (fst (splice_profile_block src name []))) \<and>
    splice_profile_block (fst (splice_profile_block src name [])) name block
      = (fst (splice_profile_block src name []), False)"
  using removed_unaddressed [OF assms] splice_unaddressed by blast

theorem splice_removes_section_witness:
  "contiguous ''gone'' (split_after LF sample_toml) \<and>
   splice_profile_block (fst (splice_profile_block sample_toml ''gone'' [])) ''gone'' ''x''
     = (fst (splice_profile_block sample_toml ''gone'' []), False)"
proof -
  have c: "contiguous ''gone'' (split_after LF sample_toml)" by code_simp
  show ?thesis using c splice_removes_section [OF c] by blast
qed

text \<open>the editor reports success exactly when some line of the file is a table header of
  the profile, and without one it returns the file unchanged.\<close>

theorem splice_reports_absence:
  "snd (splice_profile_block src name block) = list_ex (addresses name) (split_after LF src) \<and>
   (snd (splice_profile_block src name block) \<or> fst (splice_profile_block src name block) = src)"
proof (cases "list_ex (addresses name) (split_after LF src)")
  case True
  then have "\<exists>l \<in> set (split_after LF src). addresses name l" by (simp add: list_ex_iff)
  then obtain out where "splice_profile_block src name block = (out, True)"
    by (rule splice_shape [of src name block])
  with True show ?thesis by simp
next
  case False
  then show ?thesis by (simp add: splice_unaddressed)
qed

text \<open>a nested table of the profile that stands below a foreign table is not removed with
  the section: the file still declares the profile after the removal.\<close>

theorem splice_leaves_detached_tables:
  "(let src = ''[profiles.gone]'' @ [LF] @ ''[profiles.tail]'' @ [LF] @ ''[profiles.gone.headers]'' @ [LF]
    in splice_profile_block src ''gone'' []
       = (''[profiles.tail]'' @ [LF] @ ''[profiles.gone.headers]'' @ [LF], True))"
  by code_simp

end
