(* ===== verification/Install.thy ===== *)
theory Install
  imports Commands ClientConfig TomlEdit
begin

text \<open>
  Install and uninstall (\<open>pkg/app/install.go\<close>): the profile in \<open>config.toml\<close>, edited as text, and
  the entry in a client's configuration that refers to it.
\<close>

section \<open>Profiles as text\<close>

definition mergeProfile :: "profile \<Rightarrow> profile \<Rightarrow> profile" where
  "mergeProfile old fresh =
     (let p0 = old\<lparr>URL := URL fresh\<rparr>;
          p1 = (if pf_ClientID fresh \<noteq> [] then p0\<lparr>pf_ClientID := pf_ClientID fresh\<rparr> else p0);
          p2 = (if pf_Scopes fresh \<noteq> [] then p1\<lparr>pf_Scopes := pf_Scopes fresh\<rparr> else p1);
          p3 = (if pf_CallbackPort fresh \<noteq> 0 then p2\<lparr>pf_CallbackPort := pf_CallbackPort fresh\<rparr> else p2);
          p4 = (if pf_Issuer fresh \<noteq> [] then p3\<lparr>pf_Issuer := pf_Issuer fresh\<rparr> else p3)
      in if BearerEnv fresh \<noteq> [] then p4\<lparr>BearerEnv := BearerEnv fresh\<rparr> else p4)"

definition sameProfile :: "profile \<Rightarrow> profile \<Rightarrow> bool" where
  "sameProfile a b \<longleftrightarrow> URL a = URL b \<and> pf_ClientID a = pf_ClientID b \<and> pf_CallbackPort a = pf_CallbackPort b \<and>
     pf_Issuer a = pf_Issuer b \<and> BearerEnv a = BearerEnv b \<and> pf_Scopes a = pf_Scopes b"

definition toml_pair :: "bytes \<Rightarrow> bytes \<Rightarrow> bytes" where
  "toml_pair key v = key @ '' = '' @ v @ [LF]"

definition profileTOML :: "bytes \<Rightarrow> profile \<Rightarrow> bytes" where
  "profileTOML name p =
     [LF] @ ''[profiles.'' @ name @ '']'' @ [LF] @ toml_pair ''url'' (go_quote (URL p)) @
     (if pf_ClientID p \<noteq> [] then toml_pair ''clientID'' (go_quote (pf_ClientID p)) else []) @
     (if pf_CallbackPort p \<noteq> 0 then toml_pair ''callbackPort'' (dec_int (pf_CallbackPort p)) else []) @
     (if pf_Scopes p \<noteq> [] then toml_pair ''scopes'' (''['' @ join '', '' (map go_quote (pf_Scopes p)) @ '']'') else []) @
     (if pf_Issuer p \<noteq> [] then toml_pair ''issuer'' (go_quote (pf_Issuer p)) else []) @
     (if BearerEnv p \<noteq> [] then toml_pair ''bearerEnv'' (go_quote (BearerEnv p)) else []) @
     (if pf_Headers p \<noteq> [] then
        [LF] @ ''  [profiles.'' @ name @ ''.headers]'' @ [LF] @
        concat (map (\<lambda>(k, v). ''  '' @ toml_pair (go_quote k) (go_quote v)) (pf_Headers p))
      else [])"

text \<open>\<open>filepath.Dir\<close>, as a path.\<close>

definition dir_path :: "'z os_scheme \<Rightarrow> bytes \<Rightarrow> path" where
  "dir_path w p = abs_path (cwd w) (rev (dropWhile (\<lambda>c. c \<noteq> CHR ''/'') (rev p)))"

definition appendProfile :: "bytes \<Rightarrow> bytes \<Rightarrow> 'z os_scheme \<Rightarrow> gerr option \<times> 'z os_scheme" where
  "appendProfile path block w =
     (case MkdirAll (dir_path w path) mode_0700 w of
        (Some e, w1) \<Rightarrow> (Some e, w1)
      | (None, w1) \<Rightarrow> append_string (os_path w path) block mode_0600 w1)"

definition editProfileBlock :: "app \<Rightarrow> bytes \<Rightarrow> bytes \<Rightarrow> 'z os_scheme \<Rightarrow> gerr option \<times> 'z os_scheme" where
  "editProfileBlock a name block w =
     (case ReadFile (os_path w (cfg_Path (cfg a))) w of
        Inl e \<Rightarrow> (Some e, w)
      | Inr original \<Rightarrow>
          (case splice_profile_block original name block of
             (out, ok) \<Rightarrow>
               if \<not> ok then
                 (Some (Message (''profile @'' @ name @ '' is not a [profiles.'' @ name @ ''] section in '' @
                    cfg_Path (cfg a) @ '' '' @ em_dash @ '' edit the file by hand'')), w)
               else replaceConfig (cfg_Path (cfg a)) (Some original) out w))"

text \<open>The profiles are a map that the command changes in place.\<close>

definition put_profile :: "bytes \<Rightarrow> profile \<Rightarrow> app \<Rightarrow> app" where
  "put_profile name p a = a\<lparr>cfg := (cfg a)\<lparr>Profiles := mput name p (Profiles (cfg a))\<rparr>\<rparr>"

definition del_profile :: "bytes \<Rightarrow> app \<Rightarrow> app" where
  "del_profile name a = a\<lparr>cfg := (cfg a)\<lparr>Profiles := mdel name (Profiles (cfg a))\<rparr>\<rparr>"

definition ensureProfile ::
  "app \<Rightarrow> bytes \<Rightarrow> bool \<Rightarrow> ('k, 'n) machine \<Rightarrow> gerr option \<times> app \<times> ('k, 'n) machine" where
  "ensureProfile a name dryRun w =
     (let existing = mget (Profiles (cfg a)) name;
          merged = (case existing of None \<Rightarrow> prof a | Some old \<Rightarrow> mergeProfile old (prof a))
      in if (case existing of None \<Rightarrow> False | Some old \<Rightarrow> sameProfile old merged) then
           (None, a, print_msg (''profile @'' @ name @ '' already exists, reusing'' @ [LF]) w)
         else
           let desired = merged\<lparr>pf_Name := name\<rparr>;
               block = profileTOML name desired;
               path = cfg_Path (cfg a)
           in if dryRun then
                (None, a, print_out (''# would '' @ (if existing \<noteq> None then ''update in'' else ''append to'') @
                   '' '' @ path @ '':'' @ [LF] @ block) w)
              else if existing \<noteq> None then
                (case editProfileBlock a name block w of
                   (Some e, w1) \<Rightarrow> (Some e, a, w1)
                 | (None, w1) \<Rightarrow>
                     (None, put_profile name desired a,
                      print_msg (''profile @'' @ name @ '' updated in '' @ path @ '' (backup: .bak)'' @ [LF]) w1))
              else
                (case appendProfile path block w of
                   (Some e, w1) \<Rightarrow> (Some e, a, w1)
                 | (None, w1) \<Rightarrow>
                     (None, put_profile name desired a,
                      print_msg (''profile @'' @ name @ '' saved to '' @ path @ [LF]) w1)))"

section \<open>Install\<close>

definition install_entry ::
  "('k, 'n) services \<Rightarrow> bytes \<Rightarrow> bytes \<Rightarrow> bytes \<Rightarrow> bytes \<Rightarrow> bool \<Rightarrow> ('k, 'n) machine
     \<Rightarrow> gerr option \<times> ('k, 'n) machine" where
  "install_entry sv client path profName entryName dryRun w =
     (case sv_executable sv of
        Inl e \<Rightarrow> (Some (Wrap ''locating own binary: '' e []), w)
      | Inr exe \<Rightarrow>
          (case upsertServerEntry path entryName (AEntry exe [''@'' @ profName]) dryRun w of
             (Some e, out, w1) \<Rightarrow> (Some e, w1)
           | (None, out, w1) \<Rightarrow>
               if dryRun then (None, print_out out w1)
               else
                 (None, print_msg (''restart '' @ client @ '' to pick it up'' @ [LF])
                    (print_msg (''installed '' @ go_quote entryName @ '' into '' @ path @ '' (backup: .bak)'' @ [LF]) w1))))"

definition Install ::
  "('k, 'n) services \<Rightarrow> app \<Rightarrow> bytes \<Rightarrow> bytes \<Rightarrow> bool \<Rightarrow> ('k, 'n) machine
     \<Rightarrow> gerr option \<times> app \<times> ('k, 'n) machine" where
  "Install sv a client name dryRun w =
     (case clientConfigPath client w of
        Inl e \<Rightarrow> (Some e, a, w)
      | Inr path \<Rightarrow>
          let stored = pf_Name (prof a);
              profName = (if stored \<noteq> [] then stored else if name \<noteq> [] then name else hostLabel (URL (prof a)));
              entryName = (if name \<noteq> [] then name else profName)
          in case (if stored \<noteq> [] then (None, a, w) else ensureProfile a profName dryRun w) of
               (Some e, a1, w1) \<Rightarrow> (Some e, a1, w1)
             | (None, a1, w1) \<Rightarrow>
                 let (r, w2) = install_entry sv client path profName entryName dryRun w1 in (r, a1, w2))"

section \<open>Uninstall\<close>

text \<open>Entries of other clients that still refer to the profile, in the order of their names.\<close>

definition other_client :: "bytes \<Rightarrow> bytes \<Rightarrow> bytes \<Rightarrow> ('k, 'n) machine \<Rightarrow> ('k, 'n) machine" where
  "other_client skip profName client w =
     (if client = skip then w
      else
        case clientConfigPath client w of
          Inl _ \<Rightarrow> w
        | Inr path \<Rightarrow>
            (case loadClientConfig path w of
               Inr (base, Some _) \<Rightarrow>
                 foldl (\<lambda>v (entryName, entry).
                     if entryProfile entry = profName then
                       warnf (client @ '' still has entry '' @ go_quote entryName @ '' pointing at @'' @ profName @
                         '' ('' @ path @ '')'') v
                     else v)
                   w (case as_map (nil_get base ''mcpServers'') of Some s \<Rightarrow> s | None \<Rightarrow> [])
             | _ \<Rightarrow> w))"

definition warnOtherClients :: "bytes \<Rightarrow> bytes \<Rightarrow> ('k, 'n) machine \<Rightarrow> ('k, 'n) machine" where
  "warnOtherClients skip profName w = foldl (\<lambda>v client. other_client skip profName client v) w knownClients"

definition entry_gone :: "bytes \<Rightarrow> bytes \<Rightarrow> any option \<Rightarrow> ('k, 'n) machine \<Rightarrow> bytes \<times> ('k, 'n) machine" where
  "entry_gone name path entry w =
     (case entry of
        None \<Rightarrow> (name, print_msg (''no entry '' @ go_quote name @ '' in '' @ path @ [LF]) w)
      | Some entry \<Rightarrow>
          let w1 = print_msg (''removed '' @ go_quote name @ '' from '' @ path @ '' (backup: .bak)'' @ [LF]) w;
              cmd = entryCommand entry;
              w2 = (if cmd \<noteq> [] \<and> \<not> ownBinary cmd then
                      warnf (go_quote name @ '' was not an mcpurl entry (command: '' @ cmd @ '') '' @ em_dash @
                        '' restore it from '' @ path @ ''.bak if that was a typo'') w1
                    else w1);
              ref = entryProfile entry
          in (if ref \<noteq> [] then ref else name, w2))"

definition drop_profile ::
  "('k, 'n) services \<Rightarrow> app \<Rightarrow> bytes \<Rightarrow> bytes \<Rightarrow> profile \<Rightarrow> ('k, 'n) machine
     \<Rightarrow> gerr option \<times> app \<times> ('k, 'n) machine" where
  "drop_profile sv a client profName p w =
     (case editProfileBlock a profName [] w of
        (Some e, w1) \<Rightarrow> (Some e, a, w1)
      | (None, w1) \<Rightarrow>
          let w2 = print_msg (''removed profile @'' @ profName @ '' from '' @ cfg_Path (cfg a) @ '' (backup: .bak)'' @ [LF]) w1;
              w3 = dropTokens sv (app_store sv a w2) p w2
          in (None, del_profile profName a, warnOtherClients client profName w3))"

definition Uninstall ::
  "('k, 'n) services \<Rightarrow> app \<Rightarrow> bytes \<Rightarrow> bytes \<Rightarrow> ('k, 'n) machine \<Rightarrow> gerr option \<times> app \<times> ('k, 'n) machine" where
  "Uninstall sv a client name0 w =
     (let name = trim_prefix name0 ''@'' in
      case clientConfigPath client w of
        Inl e \<Rightarrow> (Some e, a, w)
      | Inr path \<Rightarrow>
          (case removeServerEntry path name w of
             (Some e, _, w1) \<Rightarrow> (Some e, a, w1)
           | (None, entry, w1) \<Rightarrow>
               (case entry_gone name path entry w1 of
                  (profName, w2) \<Rightarrow>
                    (case mget (Profiles (cfg a)) profName of
                       Some p \<Rightarrow> drop_profile sv a client profName p w2
                     | None \<Rightarrow>
                         let w3 = print_msg (''no profile @'' @ profName @ '' in '' @ cfg_Path (cfg a) @ [LF]) w2
                         in if entry = None then
                              (Some (Message (''nothing to remove: no entry '' @ go_quote name @ '' in '' @ path @
                                 '' and no profile @'' @ profName @ '' in '' @ cfg_Path (cfg a))), a, w3)
                            else (None, a, w3)))))"

section \<open>Installing again\<close>

lemma merge_fields:
  "URL (mergeProfile old fresh) = URL fresh"
  "pf_ClientID (mergeProfile old fresh) = (if pf_ClientID fresh = [] then pf_ClientID old else pf_ClientID fresh)"
  "pf_Scopes (mergeProfile old fresh) = (if pf_Scopes fresh = [] then pf_Scopes old else pf_Scopes fresh)"
  "pf_CallbackPort (mergeProfile old fresh) = (if pf_CallbackPort fresh = 0 then pf_CallbackPort old else pf_CallbackPort fresh)"
  "pf_Issuer (mergeProfile old fresh) = (if pf_Issuer fresh = [] then pf_Issuer old else pf_Issuer fresh)"
  "BearerEnv (mergeProfile old fresh) = (if BearerEnv fresh = [] then BearerEnv old else BearerEnv fresh)"
  "pf_Headers (mergeProfile old fresh) = pf_Headers old" "pf_Name (mergeProfile old fresh) = pf_Name old"
  by (simp_all add: mergeProfile_def Let_def)

lemma merge_again: "sameProfile (fresh\<lparr>pf_Name := n\<rparr>) (mergeProfile (fresh\<lparr>pf_Name := n\<rparr>) fresh)"
  "sameProfile ((mergeProfile old fresh)\<lparr>pf_Name := n\<rparr>) (mergeProfile ((mergeProfile old fresh)\<lparr>pf_Name := n\<rparr>) fresh)"
  by (simp_all add: sameProfile_def merge_fields)

lemma put_profile_fields: "prof (put_profile n p a) = prof a" "opts (put_profile n p a) = opts a"
  "Profiles (cfg (put_profile n p a)) = mput n p (Profiles (cfg a))" "cfg_Path (cfg (put_profile n p a)) = cfg_Path (cfg a)"
  by (simp_all add: put_profile_def)

lemma ensure_cases:
  assumes "ensureProfile a name False w = (None, a', w')"
  shows "prof a' = prof a \<and> (\<exists>p. mget (Profiles (cfg a')) name = Some p \<and> sameProfile p (mergeProfile p (prof a)) \<and> URL p = URL (prof a))"
proof (cases "mget (Profiles (cfg a)) name")
  case None
  then have "a' = put_profile name ((prof a)\<lparr>pf_Name := name\<rparr>) a"
    using assms by (auto simp: ensureProfile_def Let_def split: prod.splits option.splits)
  then show ?thesis by (simp add: put_profile_fields smap.get_put merge_again)
next
  case (Some old)
  show ?thesis
  proof (cases "sameProfile old (mergeProfile old (prof a))")
    case True
    with Some assms have "a' = a" by (simp add: ensureProfile_def)
    moreover have "URL old = URL (prof a)" using True by (simp add: sameProfile_def merge_fields)
    ultimately show ?thesis using Some True by simp
  next
    case False
    with Some have "a' = put_profile name ((mergeProfile old (prof a))\<lparr>pf_Name := name\<rparr>) a"
      using assms by (auto simp: ensureProfile_def Let_def split: prod.splits option.splits)
    then show ?thesis by (simp add: put_profile_fields smap.get_put merge_again) (simp add: merge_fields)
  qed
qed



section \<open>Dry runs\<close>

text \<open>C27: a dry run writes nothing: the file system, its history and the configuration in memory are what
  they were, whatever the outcome; only text is printed.\<close>

theorem dry_run_writes_nothing:
  "case Install sv a client name True w of
     (r, a', w') \<Rightarrow> a' = a \<and> (\<exists>out msg. w' = w\<lparr>sys_out := out, sys_msg := msg\<rparr>)"
proof -
  have id: "w = w\<lparr>sys_out := sys_out w, sys_msg := sys_msg w\<rparr>" by simp
  have pr: "print_msg t w = w\<lparr>sys_out := sys_out w, sys_msg := sys_msg w @ t\<rparr>"
    "print_out t w = w\<lparr>sys_out := sys_out w @ t, sys_msg := sys_msg w\<rparr>" for t
    by (simp_all add: print_msg_def print_out_def)
  have e: "\<exists>r out msg. ensureProfile a n True w = (r, a, w\<lparr>sys_out := out, sys_msg := msg\<rparr>)" for n
    unfolding ensureProfile_def Let_def pr if_True by (split if_split) blast
  have u: "\<exists>r out. upsertServerEntry path n en True v = (r, out, v)" for path n en and v :: "('a, 'b) machine"
    by (auto simp: upsertServerEntry_def split: sum.split option.split)
  have i: "\<exists>r out. install_entry sv client path p n True v = (r, v\<lparr>sys_out := out\<rparr>)" for path p n and v :: "('a, 'b) machine"
  proof (cases "sv_executable sv")
    case (Inr exe)
    obtain r out where "upsertServerEntry path n (AEntry exe [''@'' @ p]) True v = (r, out, v)" using u by blast
    with Inr show ?thesis
      by (cases r) (auto simp: install_entry_def print_out_def intro: exI [of _ "sys_out v"])
  qed (auto simp: install_entry_def intro: exI [of _ "sys_out v"])
  show ?thesis
  proof (cases "clientConfigPath client w")
    case (Inr path)
    let ?stored = "pf_Name (prof a)"
    let ?p = "if ?stored \<noteq> [] then ?stored else if name \<noteq> [] then name else hostLabel (URL (prof a))"
    obtain r out msg where 1: "(if ?stored \<noteq> [] then (None, a, w) else ensureProfile a ?p True w) =
        (r, a, w\<lparr>sys_out := out, sys_msg := msg\<rparr>)"
    proof (cases "?stored = []")
      case True
      with e [of ?p] that show ?thesis by auto
    next
      case False
      with that [of None "sys_msg w" "sys_out w"] show ?thesis by simp
    qed
    obtain r2 out2 where 2: "install_entry sv client path ?p (if name \<noteq> [] then name else ?p) True (w\<lparr>sys_out := out, sys_msg := msg\<rparr>) =
        (r2, w\<lparr>sys_out := out, sys_msg := msg, sys_out := out2\<rparr>)"
      using i [of path ?p "if name \<noteq> [] then name else ?p" "w\<lparr>sys_out := out, sys_msg := msg\<rparr>"] by blast
    have 3: "w\<lparr>sys_out := out, sys_msg := msg, sys_out := out2\<rparr> = w\<lparr>sys_out := out2, sys_msg := msg\<rparr>" by simp
    show ?thesis
      unfolding Install_def Inr sum.case Let_def 1 prod.case 2 3 by (cases r; simp only: option.case prod.case; blast)
  next
    case (Inl e)
    show ?thesis unfolding Install_def Inl sum.case prod.case using id by blast
  qed
qed

section \<open>Removing a profile\<close>

text \<open>removing a profile's section takes exactly that from the file: when the edit succeeds, the file reads
  back as the spliced text, no header of the profile is left in it, and it was there before.\<close>

theorem profile_removed_on_disk:
  assumes "ReadFile (os_path w (cfg_Path (cfg a))) w = Inr original" "contiguous name (split_after LF original)"
    "editProfileBlock a name [] w = (None, w')"
  shows "list_ex (addresses name) (split_after LF original) \<and>
    (\<exists>rest. ReadFile (os_path w' (cfg_Path (cfg a))) w' = Inr rest \<and> \<not> list_ex (addresses name) (split_after LF rest) \<and>
      rest = fst (splice_profile_block original name []))"
proof -
  let ?rest = "fst (splice_profile_block original name [])"
  have found: "snd (splice_profile_block original name [])"
    and wr: "replaceConfig (cfg_Path (cfg a)) (Some original) ?rest w = (None, w')"
    using assms(1,3) by (auto simp: editProfileBlock_def split: prod.splits if_splits)
  have "list_ex (addresses name) (split_after LF original)"
  proof (rule ccontr)
    assume "\<not> list_ex (addresses name) (split_after LF original)"
    from splice_unaddressed [OF this, of "[]"] found show False by simp
  qed
  moreover obtain w1 where "Write (os_path w1 (cfg_Path (cfg a))) ?rest mode_0600 w1 = (None, w')"
    using replace_written [OF wr] by blast
  then have "ReadFile (os_path w' (cfg_Path (cfg a))) w' = Inr ?rest"
    using read_written Write_machine by (metis os_path_def same_machine_def)
  ultimately show ?thesis using removed_unaddressed [OF assms(2)] by blast
qed

definition toml_disk :: os where
  "toml_disk = empty_disk\<lparr>nodes := (nodes empty_disk)([''config.toml''] \<mapsto> File mode_0600 sample_toml)\<rparr>"

definition toml_app :: app where
  "toml_app = demo_app\<lparr>cfg := \<lparr>Profiles = [], cfg_Path = ''/config.toml''\<rparr>\<rparr>"

theorem profile_removed_on_disk_witness:
  "\<exists>w' rest. editProfileBlock toml_app ''gone'' [] toml_disk = (None, w') \<and>
    ReadFile [''config.toml''] w' = Inr rest \<and> \<not> list_ex (addresses ''gone'') (split_after LF rest)"
proof -
  have c: "contiguous ''gone'' (split_after LF sample_toml)" and ok: "snd (splice_profile_block sample_toml ''gone'' [])"
    by code_simp+
  have calm: "calm_dir [] ''config.toml'' toml_disk"
    by (auto simp: calm_dir_def toml_disk_def empty_disk_def is_dir_def no_links_def)
  have p: "os_path v ''/config.toml'' = [] @ [''config.toml'']" "os_path v (''/config.toml'' @ ''.bak'') = [] @ [''config.toml'' @ ''.bak'']"
    for v :: os by (simp_all add: os_path_def abs_path_def)
  have r: "ReadFile (os_path toml_disk (cfg_Path (cfg toml_app))) toml_disk = Inr sample_toml"
    using p(1) [of toml_disk] by (simp add: toml_app_def toml_disk_def ReadFile_def read_node_def)
  obtain w' where "replaceConfig ''/config.toml'' (Some sample_toml) (fst (splice_profile_block sample_toml ''gone'' [])) toml_disk = (None, w')"
    using replace_runs [OF calm p] by blast
  then have e: "editProfileBlock toml_app ''gone'' [] toml_disk = (None, w')"
    unfolding editProfileBlock_def r sum.case using ok by (simp add: case_prod_beta toml_app_def)
  from profile_removed_on_disk [OF r c e] e p(1) [of w'] show ?thesis by (auto simp: toml_app_def)
qed

section \<open>Names that TOML reads as a bare key\<close>

definition bare_char :: "char \<Rightarrow> bool" where
  "bare_char c \<longleftrightarrow> name_char c \<or> c = CHR ''-''"

lemma space_free: "set s \<inter> set (concat seqs) = {} \<Longrightarrow> [] \<notin> set seqs \<Longrightarrow> space_len seqs s = 0"
proof -
  assume s: "set s \<inter> set (concat seqs) = {}" "[] \<notin> set seqs"
  have "\<not> prefix p s" if p: "p \<in> set seqs" for p
  proof
    assume "prefix p s"
    then obtain r where r: "s = p @ r" by (auto simp: prefix_def)
    have "p \<noteq> []" using p s(2) by metis
    then obtain c q where q: "p = c # q" by (cases p) simp_all
    have "c \<in> set (concat seqs)" using p q by (auto intro: bexI [of _ "c # q"])
    with s(1) r q show False by auto
  qed
  then have "List.find (\<lambda>p. prefix p s) seqs = None" by (simp add: find_None_iff)
  then show ?thesis by (simp add: space_len_def)
qed

lemma trim_space_free: "set s \<inter> set (concat space_seqs) = {} \<Longrightarrow> trim_space s = s"
proof -
  assume s: "set s \<inter> set (concat space_seqs) = {}"
  have "[] \<notin> set space_seqs" by (simp add: space_seqs_def)
  then have "space_len space_seqs s = 0" "space_len (map rev space_seqs) (rev s) = 0"
    using space_free [of s space_seqs] space_free [of "rev s" "map rev space_seqs"] s by auto
  then show ?thesis by (simp add: trim_space_def trim_left_id)
qed

lemma bare_not_space: "list_all (\<lambda>c. c = CHR ''['' \<or> c = CHR '']'' \<or> c = CHR ''.'' \<or> bare_char c) s \<Longrightarrow> trim_space s = s"
proof (rule trim_space_free)
  assume a: "list_all (\<lambda>c. c = CHR ''['' \<or> c = CHR '']'' \<or> c = CHR ''.'' \<or> bare_char c) s"
  have "list_all (\<lambda>c. \<not> (c = CHR ''['' \<or> c = CHR '']'' \<or> c = CHR ''.'' \<or> bare_char c)) (concat space_seqs)" by code_simp
  with a show "set s \<inter> set (concat space_seqs) = {}" unfolding list_all_iff by blast
qed

lemma bare_chars:
  "bare_char c \<Longrightarrow> c \<noteq> LF \<and> c \<noteq> CHR '']'' \<and> c \<noteq> DQ \<and> c \<noteq> CHR 0x27 \<and> c \<noteq> CHR ''.''"
  "bare_char c \<Longrightarrow> byte c < (0x80 :: nat)"
  by (auto simp: bare_char_def name_char_def is_digit_def is_letter_def)

lemma split_key_bare:
  "list_all bare_char s \<Longrightarrow> split_key_loop (s @ t) None cur parts = split_key_loop t None (rev s @ cur) parts"
proof (induction s arbitrary: cur)
  case (Cons c s)
  with bare_chars(1) [of c] show ?case by simp
qed simp

lemma header_addresses:
  assumes "list_all bare_char name"
  shows "addresses name (''[profiles.'' @ name @ '']'' @ [LF])"
proof -
  have p: "list_all bare_char ''profiles''" by code_simp
  have t: "trim_space (''[profiles.'' @ name @ '']'') = ''[profiles.'' @ name @ '']''"
    using assms p by (intro bare_not_space) (auto simp: list_all_iff)
  have b: "CHR '']'' \<notin> set (''profiles.'' @ name)"
    using assms bare_chars(1) by (fastforce simp: list_all_iff)
  have k: "trim_space (''profiles.'' @ name) = ''profiles.'' @ name"
    using assms p by (intro bare_not_space) (auto simp: list_all_iff)
  have "table_key (''[profiles.'' @ name @ '']'' @ [LF]) = Some (''profiles.'' @ name)"
    using trim_space_snoc_LF [of "''[profiles.'' @ name @ '']''"] t k cut_at_append [OF b, of "[]"]
    by (simp add: table_key_def Let_def)
  moreover have "profile_section (''profiles.'' @ name) name"
  proof -
    have a: "is_ascii (''profiles.'' @ name)"
      using assms bare_chars(2) by (auto simp: is_ascii_def list_all_iff)
    have n: "trim_space name = name" "trim_space ''profiles'' = ''profiles''"
      using assms p by (auto intro!: bare_not_space simp: list_all_iff)
    have "split_toml_key (''profiles.'' @ name) = [''profiles'', name]"
      using split_key_bare [OF p, of "CHR ''.'' # name" "[]" "[]"] split_key_bare [OF assms, of "[]" "[]"] n
      unfolding split_toml_key_def subst_invalid_ascii [OF a] by simp
    then show ?thesis by (simp add: profile_section_def)
  qed
  ultimately show ?thesis by (simp add: addresses_def)
qed

lemma split_after_later: "\<exists>ls. split_after c (src @ c # x) = ls @ split_after c x"
proof (induction src)
  case Nil
  show ?case by (intro exI [of _ "[[c]]"]) simp
next
  case (Cons d src)
  then obtain ls where ls: "split_after c (src @ c # x) = ls @ split_after c x" by blast
  show ?case
  proof (cases ls)
    case Nil
    have "concat (split_after c (src @ c # x)) = concat (split_after c x)" using ls Nil by simp
    then show ?thesis by simp
  next
    case (Cons l ls')
    with ls show ?thesis
      by (cases "d = c") (auto intro: exI [of _ "[c] # ls"] exI [of _ "(d # l) # ls'"])
  qed
qed

text \<open>what install appends, install and uninstall find again: behind any text, with or without a final
  line feed, the block of a profile whose name is a bare TOML key is a section the editor replaces.\<close>

theorem saved_profile_editable:
  assumes "list_all bare_char name"
  shows "snd (splice_profile_block (src @ profileTOML name p) name block)"
proof -
  have lf: "LF \<notin> set (''[profiles.'' @ name @ '']'')"
    using assms bare_chars(1) by (fastforce simp: list_all_iff)
  obtain more where "profileTOML name p = LF # (''[profiles.'' @ name @ '']'') @ LF # more"
    by (simp add: profileTOML_def)
  moreover have "\<exists>ls. split_after LF (src @ LF # x) = ls @ split_after LF x" for x
    by (rule split_after_later)
  ultimately have "\<exists>ls. split_after LF (src @ profileTOML name p) = ls @ split_after LF ((''[profiles.'' @ name @ '']'') @ LF # more)"
    by metis
  then have "''[profiles.'' @ name @ '']'' @ [LF] \<in> set (split_after LF (src @ profileTOML name p))"
    using split_after_line [OF lf, of more] by auto
  with header_addresses [OF assms] have "\<exists>l \<in> set (split_after LF (src @ profileTOML name p)). addresses name l" by blast
  from splice_shape [OF this, of block] show ?thesis by (metis snd_conv)
qed

theorem saved_profile_editable_witness:
  "snd (splice_profile_block ([] @ profileTOML ''acme-1'' (empty_profile\<lparr>URL := ''u''\<rparr>)) ''acme-1'' [])"
proof -
  have "list_all bare_char ''acme-1''" by code_simp
  then show ?thesis by (rule saved_profile_editable)
qed

text \<open>any other name is written as it is, unquoted: a dotted name makes a table of another profile, which
  the editor does not find again, and the default name for an IPv6 endpoint is no TOML key at all.\<close>

theorem unquoted_profile_names:
  "\<not> snd (splice_profile_block (profileTOML ''a.b'' (empty_profile\<lparr>URL := ''u''\<rparr>)) ''a.b'' []) \<and>
   snd (splice_profile_block (profileTOML ''a.b'' (empty_profile\<lparr>URL := ''u''\<rparr>)) ''a'' []) \<and>
   hostLabel ''http://[::1]:8080/mcp'' = ''::1'' \<and> prefix ([LF] @ ''[profiles.::1]'' @ [LF]) (profileTOML ''::1'' p)"
proof -
  have "hostLabel ''http://[::1]:8080/mcp'' = ''::1''" by code_simp
  moreover have "\<not> snd (splice_profile_block (profileTOML ''a.b'' (empty_profile\<lparr>URL := ''u''\<rparr>)) ''a.b'' [])" by code_simp
  moreover have "snd (splice_profile_block (profileTOML ''a.b'' (empty_profile\<lparr>URL := ''u''\<rparr>)) ''a'' [])" by code_simp
  moreover have "prefix ([LF] @ ''[profiles.::1]'' @ [LF]) (profileTOML ''::1'' p)" by (simp add: profileTOML_def)
  ultimately show ?thesis by blast
qed

end
