(* ===== verification/Cli.thy ===== *)
theory Cli
  imports Install
begin

text \<open>
  The command line (\<open>cmd/mcpurl/main.go\<close>): the flags as the standard \<open>flag\<close> package parses them,
  the target anywhere between them, the commands over the machine, and the exit codes.  The
  flag listing that \<open>flag\<close> prints with an error is reduced to its first line.
\<close>

section \<open>Values of flags\<close>

text \<open>\<open>strconv.ParseBool\<close>.\<close>

definition parse_bool :: "bytes \<Rightarrow> bool option" where
  "parse_bool s =
     (if s \<in> set [''1'', ''t'', ''T'', ''true'', ''TRUE'', ''True''] then Some True
      else if s \<in> set [''0'', ''f'', ''F'', ''false'', ''FALSE'', ''False''] then Some False
      else None)"

text \<open>\<open>strconv.ParseInt(_, 0, 64)\<close>: a base by prefix, and underscores between digits.\<close>

definition parse_error :: bytes where "parse_error = ''parse error''"
definition range_error :: bytes where "range_error = ''value out of range''"

definition lower_digit :: "char \<Rightarrow> nat option" where
  "lower_digit c =
     (let n = byte c; l = (if 65 \<le> n \<and> n \<le> 90 then n + 32 else n) in
      if is_digit c then Some (n - 48) else if 97 \<le> l \<and> l \<le> (122 :: nat) then Some (l - 87) else None)"

definition base_of :: "bytes \<Rightarrow> nat \<times> bytes" where
  "base_of s =
     (case s of
        c # d # r \<Rightarrow>
          if c \<noteq> CHR ''0'' then (10, s)
          else if r \<noteq> [] \<and> lower_char d = CHR ''b'' then (2, r)
          else if r \<noteq> [] \<and> lower_char d = CHR ''o'' then (8, r)
          else if r \<noteq> [] \<and> lower_char d = CHR ''x'' then (16, r)
          else (8, d # r)
      | [c] \<Rightarrow> if c = CHR ''0'' then (8, []) else (10, s)
      | [] \<Rightarrow> (10, s))"

fun digits_in :: "nat \<Rightarrow> bytes \<Rightarrow> nat \<Rightarrow> bytes + nat" where
  "digits_in b [] n = Inr n"
| "digits_in b (c # s) n =
     (if c = CHR ''_'' then digits_in b s n
      else case lower_digit c of
             None \<Rightarrow> Inl parse_error
           | Some d \<Rightarrow>
               if \<not> d < b then Inl parse_error
               else if n * b + d \<ge> 2 ^ 64 then Inl range_error
               else digits_in b s (n * b + d))"

text \<open>\<open>underscoreOK\<close>: an underscore only between digits, a base prefix counting as one.\<close>

fun underscores_ok :: "bool \<Rightarrow> bool option \<Rightarrow> bytes \<Rightarrow> bool" where
  "underscores_ok hex saw [] \<longleftrightarrow> saw \<noteq> Some False"
| "underscores_ok hex saw (c # s) \<longleftrightarrow>
     (if is_digit c \<or> hex \<and> (case lower_digit c of Some d \<Rightarrow> d < 16 | None \<Rightarrow> False) then underscores_ok hex (Some True) s
      else if c = CHR ''_'' then saw = Some True \<and> underscores_ok hex (Some False) s
      else saw \<noteq> Some False \<and> underscores_ok hex None s)"

definition underscore_text :: "bytes \<Rightarrow> bool" where
  "underscore_text s =
     (case s of
        c # d # r \<Rightarrow>
          if c = CHR ''0'' \<and> lower_char d \<in> set ''box'' then underscores_ok (lower_char d = CHR ''x'') (Some True) r
          else underscores_ok False None s
      | _ \<Rightarrow> underscores_ok False None s)"

definition parse_uint :: "bytes \<Rightarrow> bytes + nat" where
  "parse_uint s =
     (if s = [] then Inl parse_error
      else
        let (b, r) = base_of s in
        case digits_in b r 0 of
          Inl e \<Rightarrow> Inl e
        | Inr n \<Rightarrow> if CHR ''_'' \<in> set r \<and> \<not> underscore_text s then Inl parse_error else Inr n)"

definition parse_int :: "bytes \<Rightarrow> bytes + int" where
  "parse_int s =
     (let neg = prefix ''-'' s; r = (if neg \<or> prefix ''+'' s then tl s else s) in
      case parse_uint r of
        Inl e \<Rightarrow> Inl e
      | Inr n \<Rightarrow>
          if neg then if n > 2 ^ 63 then Inl range_error else Inr (- int n)
          else if n \<ge> 2 ^ 63 then Inl range_error else Inr (int n))"

text \<open>\<open>time.ParseDuration\<close>, with the fraction of a unit rounded down.\<close>

definition unit_size :: "bytes \<Rightarrow> int option" where
  "unit_size u =
     map_of [(''ns'', 1), (''us'', 1000), ([CHR 0xC2, CHR 0xB5] @ ''s'', 1000), ([CHR 0xCE, CHR 0xBC] @ ''s'', 1000),
       (''ms'', 1000000), (''s'', 1000000000), (''m'', 60000000000), (''h'', 3600000000000)] u"

lemma unit_shorter: "takeWhile P r \<noteq> [] \<Longrightarrow> length r \<le> length s \<Longrightarrow> length (dropWhile P r) < length s"
  using length_dropWhile_le [of P "tl r"] by (cases r) (auto split: if_splits)

lemma fraction_shorter: "length (dropWhile is_digit s) \<le> length s" "length (dropWhile is_digit (tl (dropWhile is_digit s))) \<le> length s"
  using length_dropWhile_le [of is_digit "tl (dropWhile is_digit s)"] length_dropWhile_le [of is_digit s] by simp_all

function duration_parts :: "bytes \<Rightarrow> int \<Rightarrow> int option" where
  "duration_parts s d =
     (if s = [] then Some d
      else
        let whole = takeWhile is_digit s; r = dropWhile is_digit s;
            dot = prefix ''.'' r;
            frac = (if dot then takeWhile is_digit (tl r) else []);
            r2 = (if dot then dropWhile is_digit (tl r) else r);
            u = takeWhile (\<lambda>c. c \<noteq> CHR ''.'' \<and> \<not> is_digit c) r2;
            r3 = dropWhile (\<lambda>c. c \<noteq> CHR ''.'' \<and> \<not> is_digit c) r2
        in if whole = [] \<and> frac = [] then None
           else
             case unit_size u of
               None \<Rightarrow> None
             | Some k \<Rightarrow>
                 let v = digits_val whole * k; w = v + digits_val frac * k div 10 ^ length frac
                 in if u = [] \<or> v > 2 ^ 63 \<or> w > 2 ^ 63 \<or> d + w > 2 ^ 63 then None else duration_parts r3 (d + w))"
  by pat_completeness auto
termination
proof (relation "measure (\<lambda>(s, d). length s)", goal_cases)
  case 1
  show ?case by simp
next
  case 2
  then show ?case by (auto intro!: unit_shorter simp: fraction_shorter)
qed

declare duration_parts.simps [simp del]

definition parse_duration :: "bytes \<Rightarrow> int option" where
  "parse_duration s =
     (let neg = prefix ''-'' s; r = (if neg \<or> prefix ''+'' s then tl s else s) in
      if r = ''0'' then Some 0
      else if r = [] then None
      else
        case duration_parts r 0 of
          None \<Rightarrow> None
        | Some d \<Rightarrow> if neg then Some (- d) else if d > 2 ^ 63 - 1 then None else Some d)"

section \<open>The flag package\<close>

text \<open>A flag: its name, whether it stands without a value, and what setting it does.\<close>

type_synonym 'o flag = "bytes \<times> bool \<times> (bytes \<Rightarrow> 'o \<Rightarrow> bytes + 'o)"

definition ErrHelp :: gerr where "ErrHelp = Sentinel ''flag: help requested''"

datatype 'o seen = Stop "bytes list" | Bad gerr | Seen "bytes list" 'o

definition flag_name :: "bytes \<Rightarrow> bytes" where
  "flag_name s = (if prefix ''--'' s then drop 2 s else tl s)"

text \<open>A name and a value joined by an equals sign, which cannot come first.\<close>

definition split_value :: "bytes \<Rightarrow> bytes \<times> bytes option" where
  "split_value name =
     (case cut_at (CHR ''='') (tl name) of
        None \<Rightarrow> (name, None)
      | Some (a, v) \<Rightarrow> (hd name # a, Some v))"

definition set_flag :: "bool \<Rightarrow> bytes \<Rightarrow> (bytes \<Rightarrow> 'o \<Rightarrow> bytes + 'o) \<Rightarrow> bytes option \<Rightarrow> bytes list \<Rightarrow> 'o \<Rightarrow> 'o seen" where
  "set_flag is_bool name put value args o1 =
     (if is_bool then
        (case value of
           Some v \<Rightarrow>
             (case put v o1 of
                Inl e \<Rightarrow> Bad (Message (''invalid boolean value '' @ go_quote v @ '' for -'' @ name @ '': '' @ e))
              | Inr o2 \<Rightarrow> Seen args o2)
         | None \<Rightarrow>
             (case put ''true'' o1 of
                Inl e \<Rightarrow> Bad (Message (''invalid boolean flag '' @ name @ '': '' @ e))
              | Inr o2 \<Rightarrow> Seen args o2))
      else
        (case (case value of Some v \<Rightarrow> Some (v, args) | None \<Rightarrow> (case args of [] \<Rightarrow> None | v # r \<Rightarrow> Some (v, r))) of
           None \<Rightarrow> Bad (Message (''flag needs an argument: -'' @ name))
         | Some (v, r) \<Rightarrow>
             (case put v o1 of
                Inl e \<Rightarrow> Bad (Message (''invalid value '' @ go_quote v @ '' for flag -'' @ name @ '': '' @ e))
              | Inr o2 \<Rightarrow> Seen r o2)))"

definition positional :: "bytes \<Rightarrow> bool" where
  "positional s \<longleftrightarrow> length s < 2 \<or> \<not> prefix ''-'' s"

definition parse_one :: "'o flag list \<Rightarrow> bytes list \<Rightarrow> 'o \<Rightarrow> 'o seen" where
  "parse_one fs args o1 =
     (case args of
        [] \<Rightarrow> Stop []
      | s # r \<Rightarrow>
          if positional s then Stop args
          else if s = ''--'' then Stop r
          else
            let name = flag_name s in
            if name = [] \<or> prefix ''-'' name \<or> prefix ''='' name then Bad (Message (''bad flag syntax: '' @ s))
            else
              let (name, value) = split_value name in
              case map_of fs name of
                None \<Rightarrow>
                  Bad (if name = ''help'' \<or> name = ''h'' then ErrHelp
                       else Message (''flag provided but not defined: -'' @ name))
              | Some (is_bool, put) \<Rightarrow> set_flag is_bool name put value r o1)"

lemma set_flag_shorter: "set_flag b name put value args o1 = Seen r o2 \<Longrightarrow> length r \<le> length args"
  by (auto simp: set_flag_def split: if_splits option.splits sum.splits list.splits)

lemma parse_one_shorter: "parse_one fs args o1 = Seen r o2 \<Longrightarrow> length r < length args"
  by (auto simp: parse_one_def Let_def split: list.splits if_splits option.splits prod.splits dest!: set_flag_shorter)

function parse_flags :: "'o flag list \<Rightarrow> bytes list \<Rightarrow> 'o \<Rightarrow> gerr + (bytes list \<times> 'o)" where
  "parse_flags fs args o1 =
     (case parse_one fs args o1 of
        Stop r \<Rightarrow> Inr (r, o1)
      | Bad e \<Rightarrow> Inl e
      | Seen r o2 \<Rightarrow> parse_flags fs r o2)"
  by pat_completeness auto
termination by (relation "measure (\<lambda>(fs, args, o1). length args)") (auto dest: parse_one_shorter)

declare parse_flags.simps [simp del]

section \<open>The flags of the commands\<close>

record cli =
  cl_opts :: options
  cl_all :: bool
  cl_client :: bytes
  cl_name :: bytes
  cl_dry :: bool

definition string_flag :: "bytes \<Rightarrow> (bytes \<Rightarrow> cli \<Rightarrow> cli) \<Rightarrow> cli flag" where
  "string_flag name upd = (name, False, \<lambda>v o'. Inr (upd v o'))"

definition bool_flag :: "bytes \<Rightarrow> (bool \<Rightarrow> cli \<Rightarrow> cli) \<Rightarrow> cli flag" where
  "bool_flag name upd =
     (name, True, \<lambda>v o'. case parse_bool v of None \<Rightarrow> Inl parse_error | Some b \<Rightarrow> Inr (upd b o'))"

definition int_flag :: "bytes \<Rightarrow> (int \<Rightarrow> cli \<Rightarrow> cli) \<Rightarrow> cli flag" where
  "int_flag name upd = (name, False, \<lambda>v o'. case parse_int v of Inl e \<Rightarrow> Inl e | Inr i \<Rightarrow> Inr (upd i o'))"

definition duration_flag :: "bytes \<Rightarrow> (int \<Rightarrow> cli \<Rightarrow> cli) \<Rightarrow> cli flag" where
  "duration_flag name upd =
     (name, False, \<lambda>v o'. case parse_duration v of None \<Rightarrow> Inl parse_error | Some d \<Rightarrow> Inr (upd d o'))"

text \<open>The repeatable and the comma-separated flag.\<close>

definition stringList_Set :: "bytes \<Rightarrow> bytes list \<Rightarrow> bytes list" where
  "stringList_Set v l = l @ [v]"

definition commaList_Set :: "bytes \<Rightarrow> bytes list" where
  "commaList_Set v = map trim_space (split_on (CHR '','') v)"

definition on_opts :: "(options \<Rightarrow> options) \<Rightarrow> cli \<Rightarrow> cli" where
  "on_opts f c = c\<lparr>cl_opts := f (cl_opts c)\<rparr>"

definition newFlagSet :: "cli flag list" where
  "newFlagSet =
     [string_flag ''client-id'' (\<lambda>v. on_opts (op_ClientID_update (\<lambda>_. v))),
      string_flag ''scopes'' (\<lambda>v. on_opts (op_Scopes_update (\<lambda>_. commaList_Set v))),
      int_flag ''callback-port'' (\<lambda>v. on_opts (op_CallbackPort_update (\<lambda>_. v))),
      string_flag ''issuer'' (\<lambda>v. on_opts (op_Issuer_update (\<lambda>_. v))),
      string_flag ''header'' (\<lambda>v. on_opts (op_Headers_update (stringList_Set v))),
      string_flag ''bearer-env'' (\<lambda>v. on_opts (op_BearerEnv_update (\<lambda>_. v))),
      bool_flag ''no-oauth'' (\<lambda>v. on_opts (NoOAuth_update (\<lambda>_. v))),
      bool_flag ''no-keychain'' (\<lambda>v. on_opts (NoKeychain_update (\<lambda>_. v))),
      bool_flag ''no-sse'' (\<lambda>v. on_opts (NoSSE_update (\<lambda>_. v))),
      bool_flag ''allow-http'' (\<lambda>v. on_opts (AllowHTTP_update (\<lambda>_. v))),
      duration_flag ''timeout'' (\<lambda>v. on_opts (Timeout_update (\<lambda>_. v))),
      bool_flag ''v'' (\<lambda>v. on_opts (Verbose_update (\<lambda>_. v)))]"

definition logout_flags :: "cli flag list" where
  "logout_flags = newFlagSet @ [bool_flag ''all'' (\<lambda>v. cl_all_update (\<lambda>_. v))]"

definition install_flags :: "cli flag list" where
  "install_flags = newFlagSet @ [string_flag ''client'' (\<lambda>v. cl_client_update (\<lambda>_. v)),
     string_flag ''name'' (\<lambda>v. cl_name_update (\<lambda>_. v)), bool_flag ''dry-run'' (\<lambda>v. cl_dry_update (\<lambda>_. v))]"

definition uninstall_flags :: "cli flag list" where
  "uninstall_flags = [string_flag ''client'' (\<lambda>v. cl_client_update (\<lambda>_. v))]"

definition claude_flags :: "cli flag list" where
  "claude_flags = [string_flag ''name'' (\<lambda>v. cl_name_update (\<lambda>_. v))]"

definition no_options :: options where
  "no_options = \<lparr>Target = [], op_ClientID = [], op_Scopes = [], op_CallbackPort = 0, op_Issuer = [], op_Headers = [],
     op_BearerEnv = [], NoOAuth = False, NoKeychain = False, NoSSE = False, AllowHTTP = False, Timeout = 0,
     Verbose = False, Version = []\<rparr>"

text \<open>The values before parsing: the defaults of the flags.\<close>

definition cli_defaults :: cli where
  "cli_defaults = \<lparr>cl_opts = no_options\<lparr>Timeout := 10000000000\<rparr>, cl_all = False, cl_client = ''claude-desktop'',
     cl_name = [], cl_dry = False\<rparr>"

section \<open>The target among the flags\<close>

lemma parse_flags_shorter: "parse_flags fs args o1 = Inr (r, o2) \<Longrightarrow> length r \<le> length args"
proof (induction fs args o1 rule: parse_flags.induct)
  case (1 fs args o1)
  show ?case
  proof (cases "parse_one fs args o1")
    case (Stop x)
    with 1(2) have "r = x" by (simp add: parse_flags.simps)
    with Stop show ?thesis by (auto simp: parse_one_def set_flag_def Let_def split: list.splits if_splits option.splits prod.splits sum.splits)
  next
    case (Bad e)
    with 1(2) show ?thesis by (simp add: parse_flags.simps)
  next
    case (Seen x y)
    with 1 have "length r \<le> length x" by (simp add: parse_flags.simps [of fs args])
    with parse_one_shorter [OF Seen] show ?thesis by simp
  qed
qed

function target_loop :: "'o flag list \<Rightarrow> bytes \<Rightarrow> bytes list \<Rightarrow> 'o \<Rightarrow> gerr + (bytes \<times> 'o)" where
  "target_loop fs target args o1 =
     (case parse_flags fs args o1 of
        Inl e \<Rightarrow> Inl e
      | Inr ([], o2) \<Rightarrow> Inr (target, o2)
      | Inr (arg # r, o2) \<Rightarrow>
          if target \<noteq> [] then Inl (Message (''unexpected argument '' @ go_quote arg))
          else target_loop fs arg r o2)"
  by pat_completeness auto
termination by (relation "measure (\<lambda>(fs, target, args, o1). length args)") (auto dest!: parse_flags_shorter)

declare target_loop.simps [simp del]

definition parseTarget :: "'o flag list \<Rightarrow> bytes list \<Rightarrow> 'o \<Rightarrow> gerr + (bytes \<times> 'o)" where
  "parseTarget fs args o1 = target_loop fs [] args o1"

section \<open>Exit codes and messages\<close>

definition exitOK :: nat where "exitOK = 0"
definition exitTransport :: nat where "exitTransport = 1"
definition exitUsage :: nat where "exitUsage = 2"
definition exitAuth :: nat where "exitAuth = 3"

definition appName :: bytes where "appName = ''mcpurl''"
definition version :: bytes where "version = ''dev''"

text \<open>\<open>fail\<close>, and what the flag package itself prints before it returns an error.\<close>

definition fail ::
  "('k, 'n) services \<Rightarrow> nat \<Rightarrow> gerr \<Rightarrow> ('k, 'n) machine \<Rightarrow> nat \<times> ('k, 'n) machine" where
  "fail sv code e w = (code, print_msg (appName @ '': '' @ err_text (sv_sniff sv) e @ [LF]) w)"

definition flag_report :: "('k, 'n) services \<Rightarrow> bytes \<Rightarrow> gerr \<Rightarrow> ('k, 'n) machine \<Rightarrow> ('k, 'n) machine" where
  "flag_report sv name e w =
     (case e of
        Message s \<Rightarrow>
          if prefix ''unexpected argument '' s then w
          else print_msg (s @ [LF] @ ''Usage of '' @ name @ '':'' @ [LF]) w
      | _ \<Rightarrow> print_msg (''Usage of '' @ name @ '':'' @ [LF]) w)"

definition set_target :: "bytes \<Rightarrow> cli \<Rightarrow> options" where
  "set_target target c = (cl_opts c)\<lparr>Target := target, Version := version\<rparr>"

definition setup_app ::
  "('k, 'n) services \<Rightarrow> bytes \<Rightarrow> bytes list \<Rightarrow> ('k, 'n) machine \<Rightarrow> (gerr + app) \<times> ('k, 'n) machine" where
  "setup_app sv name args w =
     (case parseTarget newFlagSet args cli_defaults of
        Inl e \<Rightarrow> (Inl e, flag_report sv name e w)
      | Inr (target, c) \<Rightarrow>
          if target = [] then (Inl (Message (''usage: '' @ name @ '' [flags] <url | @profile>'')), w)
          else (New sv (set_target target c) w, w))"

section \<open>The commands\<close>

definition cmdBridge ::
  "('k, 'n) services \<Rightarrow> bytes list \<Rightarrow> bytes \<Rightarrow> gerr option \<Rightarrow> ('k, 'n) machine \<Rightarrow> nat \<times> ('k, 'n) machine" where
  "cmdBridge sv args input read_err w =
     (case setup_app sv appName args w of
        (Inl e, w1) \<Rightarrow> fail sv exitUsage e w1
      | (Inr a, w1) \<Rightarrow>
          (case app_Bridge sv a input read_err w1 of
             (None, w2) \<Rightarrow> (exitOK, w2)
           | (Some e, w2) \<Rightarrow> if IsAuthError e then fail sv exitAuth e w2 else fail sv exitTransport e w2))"

definition cmdLogin ::
  "('k, 'n) services \<Rightarrow> bytes list \<Rightarrow> ('k, 'n) machine \<Rightarrow> nat \<times> ('k, 'n) machine" where
  "cmdLogin sv args w =
     (case setup_app sv (appName @ '' login'') args w of
        (Inl e, w1) \<Rightarrow> fail sv exitUsage e w1
      | (Inr a, w1) \<Rightarrow>
          (case app_Login sv a w1 of
             (Inl e, w2) \<Rightarrow> if err_is e ErrStaticAuth then fail sv exitUsage e w2 else fail sv exitAuth e w2
           | (Inr t, w2) \<Rightarrow>
               (exitOK, print_msg (''logged in; access token expires '' @ expiry_text (zone w2) (Expiry t) @ [LF]) w2)))"

definition cmdToken ::
  "('k, 'n) services \<Rightarrow> bytes list \<Rightarrow> ('k, 'n) machine \<Rightarrow> nat \<times> ('k, 'n) machine" where
  "cmdToken sv args w =
     (case setup_app sv (appName @ '' token'') args w of
        (Inl e, w1) \<Rightarrow> fail sv exitUsage e w1
      | (Inr a, w1) \<Rightarrow>
          (case app_AccessToken sv a w1 of
             (Inl e, w2) \<Rightarrow> fail sv exitAuth e w2
           | (Inr tok, w2) \<Rightarrow> (exitOK, print_out (tok @ [LF]) w2)))"

definition cmdLogout ::
  "('k, 'n) services \<Rightarrow> bytes list \<Rightarrow> ('k, 'n) machine \<Rightarrow> nat \<times> ('k, 'n) machine" where
  "cmdLogout sv args w =
     (case parseTarget logout_flags args cli_defaults of
        Inl e \<Rightarrow> fail sv exitUsage e (flag_report sv (appName @ '' logout'') e w)
      | Inr (target, c) \<Rightarrow>
          if cl_all c then
            (case New sv (cl_opts c) w of
               Inl e \<Rightarrow> fail sv exitUsage e w
             | Inr a \<Rightarrow> (exitOK, LogoutAll sv a w))
          else if target = [] then fail sv exitUsage (Message ''usage: mcpurl logout <url | @profile | --all>'') w
          else
            (case New sv ((cl_opts c)\<lparr>Target := target\<rparr>) w of
               Inl e \<Rightarrow> fail sv exitUsage e w
             | Inr a \<Rightarrow> (exitOK, Logout sv a w)))"

definition cmdInstall ::
  "('k, 'n) services \<Rightarrow> bytes list \<Rightarrow> ('k, 'n) machine \<Rightarrow> nat \<times> ('k, 'n) machine" where
  "cmdInstall sv args w =
     (case parseTarget install_flags args cli_defaults of
        Inl e \<Rightarrow> fail sv exitUsage e (flag_report sv (appName @ '' install'') e w)
      | Inr (target, c) \<Rightarrow>
          if target = [] then fail sv exitUsage (Message ''usage: mcpurl install [flags] <url | @profile>'') w
          else
            (case New sv (set_target target c) w of
               Inl e \<Rightarrow> fail sv exitUsage e w
             | Inr a \<Rightarrow>
                 (case Install sv a (cl_client c) (cl_name c) (cl_dry c) w of
                    (Some e, _, w1) \<Rightarrow> fail sv exitUsage e w1
                  | (None, _, w1) \<Rightarrow> (exitOK, w1))))"

definition cmdUninstall ::
  "('k, 'n) services \<Rightarrow> bytes list \<Rightarrow> ('k, 'n) machine \<Rightarrow> nat \<times> ('k, 'n) machine" where
  "cmdUninstall sv args w =
     (let usage = Message ''usage: mcpurl uninstall <name | @profile> [--client ...]'' in
      case parseTarget uninstall_flags args cli_defaults of
        Inl e \<Rightarrow> fail sv exitUsage usage (flag_report sv (appName @ '' uninstall'') e w)
      | Inr (name, c) \<Rightarrow>
          if name = [] then fail sv exitUsage usage w
          else
            (case New sv no_options w of
               Inl e \<Rightarrow> fail sv exitUsage e w
             | Inr a \<Rightarrow>
                 (case Uninstall sv a (cl_client c) name w of
                    (Some e, _, w1) \<Rightarrow> fail sv exitUsage e w1
                  | (None, _, w1) \<Rightarrow> (exitOK, w1))))"

definition cmdShow ::
  "('k, 'n) services \<Rightarrow> bytes list \<Rightarrow> ('k, 'n) machine \<Rightarrow> nat \<times> ('k, 'n) machine" where
  "cmdShow sv args w =
     (case New sv no_options w of
        Inl e \<Rightarrow> fail sv exitUsage e w
      | Inr a \<Rightarrow>
          (case Show sv a (case args of [] \<Rightarrow> [] | name # _ \<Rightarrow> name) w of
             (Some e, w1) \<Rightarrow> fail sv exitUsage e w1
           | (None, w1) \<Rightarrow> (exitOK, w1)))"

definition cmdClaudeConfig ::
  "('k, 'n) services \<Rightarrow> bytes list \<Rightarrow> ('k, 'n) machine \<Rightarrow> nat \<times> ('k, 'n) machine" where
  "cmdClaudeConfig sv args w =
     (let usage = Message ''usage: mcpurl claude-config <url | @profile> [--name NAME]'' in
      case parseTarget claude_flags args cli_defaults of
        Inl e \<Rightarrow> fail sv exitUsage usage (flag_report sv (appName @ '' claude-config'') e w)
      | Inr (target, c) \<Rightarrow>
          if target = [] then fail sv exitUsage usage w
          else
            (case New sv no_options w of
               Inl e \<Rightarrow> fail sv exitUsage e w
             | Inr a \<Rightarrow>
                 (case ClaudeConfig a target (cl_name c) w of
                    (Some e, w1) \<Rightarrow> fail sv exitUsage e w1
                  | (None, w1) \<Rightarrow> (exitOK, w1))))"

section \<open>Dispatch\<close>

definition both_ways :: bytes where "both_ways = [CHR 0xE2, CHR 0x86, CHR 0x94]"

definition usage :: bytes where
  "usage =
     line (''mcpurl '' @ em_dash @ '' stdio '' @ both_ways @ '' Streamable HTTP MCP bridge with local OAuth 2.1 (PKCE).'') @
     line ([]) @
     line (''Usage:'') @
     line (''  mcpurl [flags] <url | @profile>          run the stdio bridge (default)'') @
     line (''  mcpurl login  [flags] <url | @profile>   interactive browser PKCE login'') @
     line (''  mcpurl logout <url | @profile | --all>   drop stored tokens and client registration'') @
     line (''  mcpurl token  [flags] <url | @profile>   print access_token (auto-refresh)'') @
     line (''  mcpurl show   [name]                     list profiles / show one (no secrets)'') @
     line (''  mcpurl claude-config <url | @profile>    print MCP client config snippets'') @
     line (''  mcpurl install   [flags] <url | @profile>'') @
     line (''                                           write the entry into the MCP client'' @ [CHR 0x27] @ ''s'') @
     line (''                                           config (persists/updates the profile)'') @
     line (''  mcpurl uninstall <name | @profile> [--client ...]'') @
     line (''                                           remove the entry, its profile and its'') @
     line (''                                           stored tokens'') @
     line (''  mcpurl version'') @
     line ([]) @
     line (''Profiles: ~/.config/mcpurl/config.toml (MCPURL_CONFIG overrides). The '' @ [DQ] @ ''@'' @ [DQ] @ '' is'') @
     line (''optional everywhere '' @ em_dash @ '' '' @ [DQ] @ ''@mysrv'' @ [DQ] @ '' and '' @ [DQ] @ ''mysrv'' @ [DQ] @ '' are the same target. Run'') @
     line ([CHR 0x27] @ ''mcpurl <cmd> -h'' @ [CHR 0x27] @ '' for flags.'')"

definition cli_run ::
  "('k, 'n) services \<Rightarrow> bytes list \<Rightarrow> bytes \<Rightarrow> gerr option \<Rightarrow> ('k, 'n) machine \<Rightarrow> nat \<times> ('k, 'n) machine" where
  "cli_run sv args input read_err w =
     (case args of
        [] \<Rightarrow> (exitUsage, print_msg usage w)
      | cmd # args' \<Rightarrow>
          if cmd = ''login'' then cmdLogin sv args' w
          else if cmd = ''logout'' then cmdLogout sv args' w
          else if cmd = ''token'' then cmdToken sv args' w
          else if cmd = ''show'' then cmdShow sv args' w
          else if cmd = ''claude-config'' then cmdClaudeConfig sv args' w
          else if cmd = ''install'' then cmdInstall sv args' w
          else if cmd = ''uninstall'' then cmdUninstall sv args' w
          else if cmd = ''version'' then (exitOK, print_out (appName @ '' '' @ version @ [LF]) w)
          else if cmd = ''help'' \<or> cmd = ''-h'' \<or> cmd = ''--help'' then (exitOK, print_msg usage w)
          else cmdBridge sv args input read_err w)"

section \<open>The target may stand anywhere\<close>

text \<open>Arguments that are flags with their values, all of them, and change the values from one state to another.\<close>

definition consumed :: "'o flag list \<Rightarrow> bytes list \<Rightarrow> 'o \<Rightarrow> 'o \<Rightarrow> bool" where
  "consumed fs args o1 o2 \<longleftrightarrow> parse_flags fs args o1 = Inr ([], o2) \<and> ''--'' \<notin> set args"

lemma set_flag_append:
  "set_flag b name put value args o1 = Seen r o2 \<Longrightarrow> set_flag b name put value (args @ rest') o1 = Seen (r @ rest') o2"
  by (auto simp: set_flag_def split: if_splits option.splits sum.splits list.splits)

lemma parse_one_append:
  "parse_one fs args o1 = Seen r o2 \<Longrightarrow> parse_one fs (args @ rest') o1 = Seen (r @ rest') o2"
  by (auto simp: parse_one_def Let_def set_flag_append split: list.splits if_splits option.splits prod.splits)

lemma parse_one_rest: "parse_one fs args o1 = Seen r o2 \<Longrightarrow> set r \<subseteq> set args"
  by (auto simp: parse_one_def set_flag_def Let_def split: list.splits if_splits option.splits prod.splits sum.splits)

lemma parse_one_stop: "parse_one fs args o1 = Stop [] \<Longrightarrow> ''--'' \<notin> set args \<Longrightarrow> args = []"
  by (auto simp: parse_one_def set_flag_def Let_def split: list.splits if_splits option.splits prod.splits sum.splits)

lemma consumed_append: "consumed fs args o1 o2 \<Longrightarrow> parse_flags fs (args @ rest') o1 = parse_flags fs rest' o2"
proof (induction fs args o1 rule: parse_flags.induct)
  case (1 fs args o1)
  have p: "parse_flags fs args o1 = Inr ([], o2)" "''--'' \<notin> set args" using 1(2) by (simp_all add: consumed_def)
  show ?case
  proof (cases "parse_one fs args o1")
    case (Stop x)
    with p have x: "x = []" "o2 = o1" by (simp_all add: parse_flags.simps [of fs args])
    have "args = []" using parse_one_stop [OF Stop [unfolded x(1)] p(2)] .
    with x show ?thesis by simp
  next
    case (Bad e)
    with p show ?thesis by (simp add: parse_flags.simps [of fs args])
  next
    case (Seen x y)
    with p have "consumed fs x y o2" using parse_one_rest [OF Seen] by (auto simp: consumed_def parse_flags.simps [of fs args])
    from 1(1) [OF Seen this] parse_one_append [OF Seen, of rest'] show ?thesis by (simp add: parse_flags.simps [of fs "args @ rest'"])
  qed
qed

lemma parse_flags_positional: "positional t \<Longrightarrow> parse_flags fs (t # r) o1 = Inr (t # r, o1)"
  by (simp add: parse_flags.simps parse_one_def)

text \<open>the target may stand before, between or behind the flags: where it stands changes neither what it is
  nor what the flags set.\<close>

theorem target_anywhere:
  assumes "consumed fs before o1 o2" "consumed fs after o2 o3" "positional t" "t \<noteq> []"
  shows "parseTarget fs (before @ t # after) o1 = Inr (t, o3) \<and>
    parseTarget fs (before @ after @ [t]) o1 = Inr (t, o3) \<and> parseTarget fs (t # before @ after) o1 = Inr (t, o3)"
proof -
  have e: "parse_flags fs [] v = Inr ([], v)" for v by (simp add: parse_flags.simps parse_one_def)
  have b: "parse_flags fs (before @ x) o1 = parse_flags fs x o2" for x by (rule consumed_append [OF assms(1)])
  have a: "parse_flags fs (after @ x) o2 = parse_flags fs x o3" for x by (rule consumed_append [OF assms(2)])
  have p: "parse_flags fs (t # r) v = Inr (t # r, v)" for r v by (rule parse_flags_positional [OF assms(3)])
  note steps = parseTarget_def target_loop.simps b a [of "[]", simplified] a e p
  show ?thesis using assms(4) by (simp add: steps)
qed

theorem target_anywhere_witness:
  "parseTarget newFlagSet [''--issuer'', ''x'', ''@p'', ''-v''] cli_defaults =
    parseTarget newFlagSet [''@p'', ''--issuer'', ''x'', ''-v''] cli_defaults"
proof -
  define c1 where "c1 = on_opts (op_Issuer_update (\<lambda>_. ''x'')) cli_defaults"
  define c2 where "c2 = on_opts (Verbose_update (\<lambda>_. True)) c1"
  have 1: "consumed newFlagSet [''--issuer'', ''x''] cli_defaults c1"
    by (simp add: consumed_def parse_flags.simps parse_one_def positional_def flag_name_def split_value_def cut_at_def
        newFlagSet_def string_flag_def int_flag_def bool_flag_def duration_flag_def set_flag_def c1_def)
  have 2: "consumed newFlagSet [''-v''] c1 c2"
    by (simp add: consumed_def parse_flags.simps parse_one_def positional_def flag_name_def split_value_def cut_at_def
        newFlagSet_def string_flag_def int_flag_def bool_flag_def duration_flag_def parse_bool_def set_flag_def c2_def)
  have "positional ''@p''" by (simp add: positional_def)
  from target_anywhere [OF 1 2 this] show ?thesis by simp
qed

section \<open>Errors of the command line\<close>

text \<open>The commands with flags of their own; everything else is the target of the bridge.\<close>

definition commands :: "bytes list" where
  "commands = [''login'', ''logout'', ''token'', ''show'', ''claude-config'', ''install'', ''uninstall'', ''version'',
     ''help'', ''-h'', ''--help'']"

definition flags_of :: "bytes \<Rightarrow> cli flag list" where
  "flags_of cmd =
     (if cmd = ''logout'' then logout_flags else if cmd = ''install'' then install_flags
      else if cmd = ''uninstall'' then uninstall_flags else if cmd = ''claude-config'' then claude_flags else newFlagSet)"

lemma fail_msg: "fail sv code e w = (code, w\<lparr>sys_msg := sys_msg w @ ''mcpurl: '' @ err_text (sv_sniff sv) e @ [LF]\<rparr>)"
  by (simp add: fail_def print_msg_def appName_def)

lemma flag_report_msg: "\<exists>m. flag_report sv name e w = w\<lparr>sys_msg := m\<rparr>"
proof -
  have p: "\<exists>m. print_msg s w = w\<lparr>sys_msg := m\<rparr>" for s by (rule exI [of _ "sys_msg w @ s"]) (simp add: print_msg_def)
  have n: "\<exists>m. w = w\<lparr>sys_msg := m\<rparr>" by (rule exI [of _ "sys_msg w"]) simp
  show ?thesis
  proof (cases e)
    case (Message s)
    show ?thesis unfolding flag_report_def Message gerr.case by (split if_split) (use p n in blast)
  qed (simp_all only: flag_report_def gerr.case p)
qed

lemma flag_error_fails: "\<exists>m. fail sv code e (flag_report sv name e' w) = (code, w\<lparr>sys_msg := m\<rparr>)"
  using flag_report_msg [of sv name e' w] by (auto simp: fail_msg)

lemma setup_error:
  "parseTarget newFlagSet args cli_defaults = Inl e \<Longrightarrow> setup_app sv name args w = (Inl e, flag_report sv name e w)"
  by (simp add: setup_app_def)

text \<open>A command line that does not parse has no effect: the program prints to standard error and exits with
  2; nothing is read from or written to the disk, the keychain, the network or standard output.\<close>

theorem usage_error_only_prints:
  assumes "cmd \<notin> set [''show'', ''version'', ''help'', ''-h'', ''--help'']"
    "parseTarget (flags_of cmd) (if cmd \<in> set commands then args else cmd # args) cli_defaults = Inl e"
  shows "\<exists>m. cli_run sv (cmd # args) input read_err w = (exitUsage, w\<lparr>sys_msg := m\<rparr>)"
proof (cases "cmd \<in> set commands")
  case False
  then have "cli_run sv (cmd # args) input read_err w = cmdBridge sv (cmd # args) input read_err w"
    by (simp add: cli_run_def commands_def)
  moreover have "parseTarget newFlagSet (cmd # args) cli_defaults = Inl e"
    using assms(2) False by (simp add: flags_of_def commands_def)
  ultimately show ?thesis using flag_error_fails by (simp add: cmdBridge_def setup_error)
next
  case True
  then have p: "parseTarget (flags_of cmd) args cli_defaults = Inl e" using assms(2) by simp
  have n: "(cmd = ''show'') = False" "(cmd = ''version'') = False" "(cmd = ''help'') = False" "(cmd = ''-h'') = False"
    "(cmd = ''--help'') = False" using assms(1) by simp_all
  have "cmd = ''login'' \<or> cmd = ''logout'' \<or> cmd = ''token'' \<or> cmd = ''claude-config'' \<or> cmd = ''install'' \<or> cmd = ''uninstall''"
    using True by (simp only: commands_def list.set insert_iff empty_iff n simp_thms)
  then show ?thesis
  proof (elim disjE)
    assume "cmd = ''login''"
    with p show ?thesis using flag_error_fails by (simp add: cli_run_def cmdLogin_def flags_of_def setup_error)
  next
    assume "cmd = ''logout''"
    with p show ?thesis using flag_error_fails by (simp add: cli_run_def cmdLogout_def flags_of_def)
  next
    assume "cmd = ''token''"
    with p show ?thesis using flag_error_fails by (simp add: cli_run_def cmdToken_def flags_of_def setup_error)
  next
    assume "cmd = ''claude-config''"
    with p show ?thesis using flag_error_fails by (simp add: cli_run_def cmdClaudeConfig_def flags_of_def Let_def)
  next
    assume "cmd = ''install''"
    with p show ?thesis using flag_error_fails by (simp add: cli_run_def cmdInstall_def flags_of_def)
  next
    assume "cmd = ''uninstall''"
    with p show ?thesis using flag_error_fails by (simp add: cli_run_def cmdUninstall_def flags_of_def Let_def)
  qed
qed

theorem usage_error_only_prints_witness:
  "\<exists>m. cli_run demo_services [''login'', ''--nope''] [] None demo_machine = (exitUsage, demo_machine\<lparr>sys_msg := m\<rparr>)"
proof -
  have "parseTarget (flags_of ''login'') [''--nope''] cli_defaults = Inl (Message ''flag provided but not defined: -nope'')"
    by (simp add: parseTarget_def target_loop.simps parse_flags.simps parse_one_def positional_def flag_name_def split_value_def
        cut_at_def flags_of_def newFlagSet_def string_flag_def int_flag_def bool_flag_def duration_flag_def)
  then show ?thesis by (intro usage_error_only_prints) (simp_all add: commands_def)
qed

text \<open>Standard error ends in a line of the program's own.\<close>

definition told :: "('k, 'n) machine \<Rightarrow> bool" where
  "told w \<longleftrightarrow> (\<exists>before msg. sys_msg w = before @ ''mcpurl: '' @ msg @ [LF])"

text \<open>An outcome that is one of the codes, and reported unless it is a success.\<close>

definition reported :: "nat set \<Rightarrow> nat \<times> ('k, 'n) machine \<Rightarrow> bool" where
  "reported codes r \<longleftrightarrow>
     (case r of (code, w) \<Rightarrow> code \<in> codes \<and> (code \<noteq> exitOK \<longrightarrow> told w))"

lemma reported_fail [intro]: "code \<in> codes \<Longrightarrow> reported codes (fail sv code e w)"
  by (auto simp: reported_def told_def fail_msg)

lemma reported_ok [intro]: "exitOK \<in> codes \<Longrightarrow> reported codes (exitOK, w)"
  by (simp add: reported_def)

lemma reported_mono: "reported codes r \<Longrightarrow> codes \<subseteq> codes' \<Longrightarrow> reported codes' r"
  by (auto simp: reported_def)

lemma commands_report:
  "reported {exitOK, exitTransport, exitUsage, exitAuth} (cmdBridge sv args input read_err w)"
  "reported {exitOK, exitUsage, exitAuth} (cmdLogin sv args w)" "reported {exitOK, exitUsage, exitAuth} (cmdToken sv args w)"
  "reported {exitOK, exitUsage} (cmdLogout sv args w)" "reported {exitOK, exitUsage} (cmdInstall sv args w)"
  "reported {exitOK, exitUsage} (cmdUninstall sv args w)" "reported {exitOK, exitUsage} (cmdShow sv args w)"
  "reported {exitOK, exitUsage} (cmdClaudeConfig sv args w)"
  by (auto simp: cmdBridge_def cmdLogin_def cmdToken_def cmdLogout_def cmdInstall_def cmdUninstall_def cmdShow_def
      cmdClaudeConfig_def Let_def split: prod.split sum.split option.split)



definition cli_demo :: cli where
  "cli_demo = on_opts (op_Headers_update (\<lambda>_. [''X-A: b''])) (on_opts (op_ClientID_update (\<lambda>_. ''me'')) cli_defaults)"

lemma cli_demo_new: "New demo_services (set_target ''http://127.0.0.1/'' cli_demo) demo_machine =
    Inr (demo_app\<lparr>opts := set_target ''http://127.0.0.1/'' cli_demo\<rparr>)"
  using demo_load demo_url demo_header
  by (simp add: New_def demo_app_def set_target_def cli_demo_def on_opts_def cli_defaults_def no_options_def
      resolveProfile_def Resolve_def override_profile_def buildHeaders_def ExpandHeaders_def empty_profile_def)

lemma cli_demo_target: "parseTarget newFlagSet [''http://127.0.0.1/'', ''--client-id=me'', ''--header'', ''X-A: b''] cli_defaults =
    Inr (''http://127.0.0.1/'', cli_demo)"
  by (simp add: parseTarget_def target_loop.simps parse_flags.simps parse_one_def positional_def flag_name_def split_value_def
      cut_at_def newFlagSet_def string_flag_def int_flag_def bool_flag_def duration_flag_def set_flag_def stringList_Set_def
      cli_demo_def on_opts_def cli_defaults_def no_options_def)


text \<open>A command's \<open>-h\<close> is an error to the program, and \<open>show\<close> takes it for the name of a profile.\<close>

lemma help_fails:
  "cli_run sv [''login'', ''-h''] input read_err w =
     (exitUsage, print_msg (''mcpurl: flag: help requested'' @ [LF]) (print_msg (''Usage of mcpurl login:'' @ [LF]) w))"
proof -
  have "parseTarget newFlagSet [''-h''] cli_defaults = Inl ErrHelp"
    by (simp add: parseTarget_def target_loop.simps parse_flags.simps parse_one_def positional_def flag_name_def split_value_def
        cut_at_def newFlagSet_def string_flag_def int_flag_def bool_flag_def duration_flag_def)
  then show ?thesis
    by (simp add: cli_run_def cmdLogin_def setup_error fail_def flag_report_def ErrHelp_def appName_def)
qed

lemma show_help_is_a_name:
  "fst (cli_run demo_services [''show'', ''-h''] [] None demo_machine) = exitUsage"
  by (simp add: cli_run_def cmdShow_def New_def demo_load no_options_def Show_def Get_def trim_prefix_def fail_def)

end
