(* ===== verification/Sessions.thy ===== *)
theory Sessions
  imports Bridge
begin

text \<open>
  The concurrent phase of the bridge (\<open>pkg/mcp/bridge.go\<close>): every request is sent by a goroutine of its
  own next to the listening stream, and all of them share the client, the handshake cache behind
  \<open>handshakeMu\<close> and standard output.  One step is one critical section or one event of a request in
  flight; the network may answer anything, so a step relation stands for every server and every
  schedule.  The sequential \<open>send\<close> of \<open>Bridge\<close> is one of its runs.
\<close>

section \<open>Goroutines\<close>

datatype work = Request bytes | Listener

text \<open>Where a goroutine stands; it carries the generation it read before its request and the error
  that led it to re-initialise.\<close>

datatype stage =
    Started
  | Posting "64 word"                  \<comment> \<open>\<open>Post\<close> or \<open>Listen\<close> in flight\<close>
  | Refused "64 word" gerr             \<comment> \<open>about to call \<open>reinit\<close>\<close>
  | Initializing "64 word" gerr        \<comment> \<open>holds the lock, \<open>initialize\<close> in flight\<close>
  | Noting "64 word" gerr              \<comment> \<open>holds the lock, \<open>notifications/initialized\<close> in flight\<close>
  | Replaying
  | Failed gerr                        \<comment> \<open>about to answer with an error\<close>
  | Ended

record system =
  shared :: bridge
  holder :: "nat option"               \<comment> \<open>who holds \<open>handshakeMu\<close> across a re-initialisation\<close>
  threads :: "(work \<times> stage) list"
  renewed :: "64 word list"            \<comment> \<open>the generations that were re-initialised, in order\<close>

definition thread_at :: "system \<Rightarrow> nat \<Rightarrow> work \<Rightarrow> stage \<Rightarrow> bool" where
  "thread_at s i k st \<longleftrightarrow> i < length (threads s) \<and> threads s ! i = (k, st)"

definition move :: "nat \<Rightarrow> stage \<Rightarrow> system \<Rightarrow> system" where
  "move i st s = s\<lparr>threads := (threads s)[i := (fst (threads s ! i), st)]\<rparr>"

definition with_shared :: "(bridge \<Rightarrow> bridge) \<Rightarrow> system \<Rightarrow> system" where
  "with_shared f s = s\<lparr>shared := f (shared s)\<rparr>"

definition in_flight :: "stage \<Rightarrow> bool" where
  "in_flight st \<longleftrightarrow> (case st of Posting _ \<Rightarrow> True | Initializing _ _ \<Rightarrow> True | Noting _ _ \<Rightarrow> True | Replaying \<Rightarrow> True | _ \<Rightarrow> False)"

text \<open>Requests whose messages go to standard output.\<close>

definition delivering :: "stage \<Rightarrow> bool" where
  "delivering st \<longleftrightarrow> (case st of Posting _ \<Rightarrow> True | Replaying \<Rightarrow> True | _ \<Rightarrow> False)"

definition locking :: "stage \<Rightarrow> bool" where
  "locking st \<longleftrightarrow> (case st of Initializing _ _ \<Rightarrow> True | Noting _ _ \<Rightarrow> True | _ \<Rightarrow> False)"

text \<open>What follows \<open>reinit\<close>: a request is replayed or answered, the listener starts over or gives up.\<close>

definition renewed_stage :: "work \<Rightarrow> stage" where
  "renewed_stage k = (case k of Request _ \<Rightarrow> Replaying | Listener \<Rightarrow> Started)"

definition abandoned_stage :: "work \<Rightarrow> gerr \<Rightarrow> stage" where
  "abandoned_stage k e = (case k of Request _ \<Rightarrow> Failed e | Listener \<Rightarrow> Ended)"

text \<open>The switch of the listening loop on the error \<open>Listen\<close> returns.\<close>

definition listener_stage :: "64 word \<Rightarrow> gerr \<Rightarrow> stage" where
  "listener_stage g e =
     (if err_is e ErrNoStream then Ended else if err_is e ErrSessionExpired then Refused g e else Ended)"

definition start_listening :: "bool \<Rightarrow> system \<Rightarrow> system" where
  "start_listening noSSE s = (if noSSE then s else s\<lparr>threads := threads s @ [(Listener, Started)]\<rparr>)"

inductive session_step :: "(bytes \<Rightarrow> bytes) \<Rightarrow> system \<Rightarrow> system \<Rightarrow> bool" for sniff where
  observe:
    "thread_at s i k Started \<Longrightarrow> holder s = None \<Longrightarrow> session_step sniff s (move i (Posting (gen (shared s))) s)"
| capture:
    "thread_at s i k st \<Longrightarrow> in_flight st \<Longrightarrow> session_step sniff s (with_shared (capture_session resp) s)"
| deliver:
    "thread_at s i k st \<Longrightarrow> delivering st \<Longrightarrow> framed m \<Longrightarrow> session_step sniff s (with_shared (write_out m) s)"
| cursor:
    "thread_at s i Listener (Posting g) \<Longrightarrow> session_step sniff s (with_shared (\<lambda>b. b\<lparr>lastEventID := c\<rparr>) s)"
| negotiate:
    "thread_at s i k (Initializing g e) \<Longrightarrow>
     session_step sniff s (with_shared (\<lambda>b. bridge_set_protocol_version m (reqProtocolVer b) b) s)"
| posted:
    "thread_at s i (Request msg) st \<Longrightarrow> delivering st \<Longrightarrow> session_step sniff s (move i Ended s)"
| refused:
    "thread_at s i (Request msg) (Posting g) \<Longrightarrow> not_found e \<Longrightarrow> holder s = None \<Longrightarrow> sessioned (shared s) \<Longrightarrow>
     session_step sniff s (move i (Refused g e) s)"
| sessionless:
    "thread_at s i (Request msg) (Posting g) \<Longrightarrow> not_found e \<Longrightarrow> holder s = None \<Longrightarrow> \<not> sessioned (shared s) \<Longrightarrow>
     session_step sniff s (move i (Failed e) s)"
| post_failed:
    "thread_at s i (Request msg) (Posting g) \<Longrightarrow> \<not> not_found e \<Longrightarrow> session_step sniff s (move i (Failed e) s)"
| listen_returned:
    "thread_at s i Listener (Posting g) \<Longrightarrow> session_step sniff s (move i (listener_stage g e) s)"
| stale:
    "thread_at s i k (Refused g e) \<Longrightarrow> holder s = None \<Longrightarrow> gen (shared s) \<noteq> g \<Longrightarrow>
     session_step sniff s (move i (renewed_stage k) s)"
| uncached:
    "thread_at s i k (Refused g e) \<Longrightarrow> holder s = None \<Longrightarrow> gen (shared s) = g \<Longrightarrow> initReq (shared s) = [] \<Longrightarrow>
     session_step sniff s (move i (abandoned_stage k e) (with_shared clear_session s))"
| enter:
    "thread_at s i k (Refused g e) \<Longrightarrow> holder s = None \<Longrightarrow> gen (shared s) = g \<Longrightarrow> initReq (shared s) \<noteq> [] \<Longrightarrow>
     session_step sniff s (move i (Initializing g e) (with_shared clear_session s\<lparr>holder := Some i\<rparr>))"
| init_failed:
    "thread_at s i k (Initializing g e) \<Longrightarrow> session_step sniff s (move i (abandoned_stage k e) (s\<lparr>holder := None\<rparr>))"
| init_answered:
    "thread_at s i k (Initializing g e) \<Longrightarrow> initNote (shared s) \<noteq> [] \<Longrightarrow> session_step sniff s (move i (Noting g e) s)"
| leave:
    "thread_at s i k st \<Longrightarrow> st = Noting g e \<or> st = Initializing g e \<and> initNote (shared s) = [] \<Longrightarrow>
     session_step sniff s (move i (renewed_stage k)
       (with_shared (\<lambda>b. b\<lparr>gen := gen b + 1\<rparr>) s\<lparr>holder := None, renewed := renewed s @ [g]\<rparr>))"
| replay_failed:
    "thread_at s i (Request msg) Replaying \<Longrightarrow> session_step sniff s (move i (Failed e) s)"
| answer:
    "thread_at s i (Request msg) (Failed e) \<Longrightarrow>
     session_step sniff s (move i Ended (with_shared (synthesize_error sniff msg e) s))"

inductive_cases session_stepE: "session_step sniff s s'"

section \<open>Draining and the end of a run\<close>

text \<open>\<open>Run\<close> spawns one goroutine per line, waits for them at the end of the input, bounded by
  \<open>DrainTimeout\<close>, and then ends the session.  The listener is not waited for.\<close>

datatype pump = Reading | Draining | Closed bool   \<comment> \<open>\<open>True\<close>: the drain timed out\<close>

definition request_done :: "work \<times> stage \<Rightarrow> bool" where
  "request_done t \<longleftrightarrow> (case t of (Request _, st) \<Rightarrow> st = Ended | (Listener, _) \<Rightarrow> True)"

inductive run_step :: "(bytes \<Rightarrow> bytes) \<Rightarrow> pump \<times> system \<Rightarrow> pump \<times> system \<Rightarrow> bool" for sniff where
  work: "session_step sniff s s' \<Longrightarrow> run_step sniff (p, s) (p, s')"
| spawn: "run_step sniff (Reading, s) (Reading, s\<lparr>threads := threads s @ [(Request line, Started)]\<rparr>)"
| stop: "run_step sniff (Reading, s) (Draining, s)"
| drained: "list_all request_done (threads s) \<Longrightarrow> run_step sniff (Draining, s) (Closed False, s)"
| timed_out: "run_step sniff (Draining, s) (Closed True, s)"

text \<open>The state after the handshake.\<close>

definition system_start :: "bool \<Rightarrow> bridge \<Rightarrow> system" where
  "system_start noSSE b = start_listening noSSE \<lparr>shared = b, holder = None, threads = [], renewed = []\<rparr>"

section \<open>Facts about the parts\<close>

lemma move_fields [simp]:
  "shared (move i st s) = shared s" "holder (move i st s) = holder s" "renewed (move i st s) = renewed s"
  "threads (move i st s) = (threads s)[i := (fst (threads s ! i), st)]"
  by (simp_all add: move_def)

lemma with_shared_fields [simp]:
  "shared (with_shared f s) = f (shared s)" "holder (with_shared f s) = holder s" "renewed (with_shared f s) = renewed s"
  "threads (with_shared f s) = threads s"
  by (simp_all add: with_shared_def)

lemma stage_simps [simp]:
  "\<not> locking (renewed_stage k)" "\<not> locking (abandoned_stage k e)" "\<not> locking (listener_stage g e)"
  "\<not> locking Started" "\<not> locking (Posting g)" "\<not> locking (Refused g e)" "\<not> locking Replaying" "\<not> locking (Failed e)"
  "\<not> locking Ended" "locking (Initializing g e)" "locking (Noting g e)"
  "in_flight (Posting g)" "in_flight Replaying" "in_flight (Initializing g e)" "in_flight (Noting g e)"
  "delivering (Posting g)" "delivering Replaying" "\<not> delivering (Initializing g e)" "\<not> delivering (Noting g e)"
  "delivering st \<Longrightarrow> \<not> locking st"
  by (auto simp: locking_def in_flight_def delivering_def renewed_stage_def abandoned_stage_def listener_stage_def
      split: work.splits stage.splits)

section \<open>Invariants of the shared bridge\<close>

text \<open>An invariant that the operations of the bridge and the moves of the stream's cursor keep, every
  interleaving keeps.\<close>

locale shared_invariant = bridge_invariant P for P :: "bridge \<Rightarrow> bool" +
  assumes cursor: "P b \<Longrightarrow> P (b\<lparr>lastEventID := i\<rparr>)"
begin

lemma stepped: "session_step sniff s s' \<Longrightarrow> P (shared s) \<Longrightarrow> P (shared s')"
  by (erule session_stepE) (auto simp: cursor capture clear progress negotiated put_framed synthesized)

lemma run_stepped: "run_step sniff v v' \<Longrightarrow> P (shared (snd v)) \<Longrightarrow> P (shared (snd v'))"
  by (induction rule: run_step.induct) (auto simp: stepped)

lemma run_keeps: "(run_step sniff)\<^sup>*\<^sup>* v v' \<Longrightarrow> P (shared (snd v)) \<Longrightarrow> P (shared (snd v'))"
  by (induction rule: rtranclp_induct) (auto dest: run_stepped)

end

interpretation framed_out: shared_invariant "\<lambda>b. list_all one_line (stdout b)"
  by unfold_locales simp

interpretation clean_ids: shared_invariant session_clean
  by unfold_locales (simp add: session_clean_def)

section \<open>The lock and the generations\<close>

lemma thread_at_move:
  "thread_at (move i st s) j k st' \<longleftrightarrow>
     (if j = i then i < length (threads s) \<and> k = fst (threads s ! i) \<and> st' = st else thread_at s j k st')"
  by (auto simp: thread_at_def)

lemma thread_at_frame [simp]:
  "thread_at (with_shared f s) = thread_at s" "thread_at (s\<lparr>holder := h\<rparr>) = thread_at s"
  "thread_at (s\<lparr>renewed := r\<rparr>) = thread_at s"
  by (intro ext, simp add: thread_at_def)+

lemma thread_at_unique: "thread_at s i k st \<Longrightarrow> thread_at s i k' st' \<Longrightarrow> k' = k \<and> st' = st"
  by (auto simp: thread_at_def)

lemma thread_kind: "thread_at s i k st \<Longrightarrow> fst (threads s ! i) = k" "thread_at s i k st \<Longrightarrow> i < length (threads s)"
  by (simp_all add: thread_at_def)

lemma gen_simps [simp]:
  "gen (write_out m b) = gen b" "gen (clear_session b) = gen b" "gen (bridge_set_protocol_version m v b) = gen b"
  "gen (synthesize_error sniff m e b) = gen b"
  by (simp_all add: write_out_def clear_session_def bridge_set_protocol_version_def set_protocol_version_def
      synthesize_error_def Let_def split: prod.split option.split)

text \<open>The goroutine whose stage says so holds the lock, and the generation is the one it saw.\<close>

definition holds :: "system \<Rightarrow> nat \<Rightarrow> bool" where
  "holds s i \<longleftrightarrow> (\<exists>k e. thread_at s i k (Initializing (gen (shared s)) e) \<or> thread_at s i k (Noting (gen (shared s)) e))"

definition lock_inv :: "system \<Rightarrow> bool" where
  "lock_inv s \<longleftrightarrow>
     (\<forall>i k st. thread_at s i k st \<longrightarrow> locking st \<longrightarrow> holder s = Some i) \<and> (\<forall>i. holder s = Some i \<longrightarrow> holds s i)"

lemma lock_inv_holder: "lock_inv s \<Longrightarrow> thread_at s i k st \<Longrightarrow> locking st \<Longrightarrow> holder s = Some i"
  by (simp add: lock_inv_def)

lemma holds_locking: "holds s i \<Longrightarrow> thread_at s i k st \<Longrightarrow> st = Initializing g e \<or> st = Noting g e \<Longrightarrow> gen (shared s) = g"
  by (auto simp: holds_def thread_at_def)

lemma holds_stage: "holds s i \<Longrightarrow> thread_at s i k st \<Longrightarrow> locking st"
  by (auto simp: holds_def thread_at_def)

lemma lock_inv_gen:
  assumes "lock_inv s" "thread_at s i k st" "st = Initializing g e \<or> st = Noting g e"
  shows "gen (shared s) = g"
proof -
  have "locking st" using assms(3) by auto
  then have "holds s i" using assms(1,2) by (simp add: lock_inv_def)
  from holds_locking [OF this assms(2,3)] show ?thesis .
qed

text \<open>A step that keeps the holder and the generation and moves nobody into or out of the lock.\<close>

lemma lock_inv_shared: "lock_inv s \<Longrightarrow> gen (f (shared s)) = gen (shared s) \<Longrightarrow> lock_inv (with_shared f s)"
  by (simp add: lock_inv_def holds_def)

lemma lock_inv_move:
  assumes "lock_inv s" "thread_at s i k st" "\<not> locking st" "\<not> locking st'"
  shows "lock_inv (move i st' s)"
proof -
  have "holds (move i st' s) j" if "holder s = Some j" for j
  proof -
    have h: "holds s j" using assms(1) that by (simp add: lock_inv_def)
    then have "j \<noteq> i" using holds_stage [OF _ assms(2)] assms(3) by auto
    with h show ?thesis by (simp add: holds_def thread_at_move)
  qed
  with assms(1,4) show ?thesis by (simp add: lock_inv_def thread_at_move)
qed

text \<open>Leaving frees the lock: nobody else has it.\<close>

lemma lock_inv_free:
  assumes "lock_inv s" "thread_at s i k st" "locking st" "\<not> locking st'"
  shows "lock_inv (move i st' (with_shared f s\<lparr>holder := None, renewed := r\<rparr>))"
    and "lock_inv (move i st' (s\<lparr>holder := None\<rparr>))"
proof -
  have "\<not> locking st2" if "thread_at s j k2 st2" "j \<noteq> i" for j k2 st2
    using lock_inv_holder [OF assms(1,2,3)] lock_inv_holder [OF assms(1) that(1)] that(2) by auto
  with assms(4) show "lock_inv (move i st' (with_shared f s\<lparr>holder := None, renewed := r\<rparr>))"
    and "lock_inv (move i st' (s\<lparr>holder := None\<rparr>))"
    by (simp_all add: lock_inv_def thread_at_move)
qed

lemma lock_inv_take:
  assumes "lock_inv s" "holder s = None" "thread_at s i k st" "gen (shared s) = g" "gen (f (shared s)) = g"
  shows "lock_inv (move i (Initializing g e) (with_shared f s\<lparr>holder := Some i\<rparr>))"
proof -
  have "\<not> locking st2" if "thread_at s j k2 st2" for j k2 st2 using lock_inv_holder [OF assms(1) that] assms(2) by auto
  moreover have "holds (move i (Initializing g e) (with_shared f s\<lparr>holder := Some i\<rparr>)) i"
    using assms(5) thread_kind [OF assms(3)] by (simp add: holds_def thread_at_move)
  ultimately show ?thesis by (simp add: lock_inv_def thread_at_move)
qed

lemma lock_inv_advance:
  assumes "lock_inv s" "thread_at s i k (Initializing g e)"
  shows "lock_inv (move i (Noting g e) s)"
proof -
  have h: "holder s = Some i" by (rule lock_inv_holder [OF assms]) simp
  have g: "gen (shared s) = g" by (rule lock_inv_gen [OF assms]) simp
  have "holds (move i (Noting g e) s) i"
    using thread_kind [OF assms(2)] g by (simp add: holds_def thread_at_move)
  with assms(1) h show ?thesis by (simp add: lock_inv_def thread_at_move)
qed

lemma lock_inv_step: "session_step sniff s s' \<Longrightarrow> lock_inv s \<Longrightarrow> lock_inv s'"
proof (induction rule: session_step.induct)
  case (leave s i k st g e)
  then have "locking st" by auto
  with leave show ?case by (intro lock_inv_free(1) [OF leave(3,1)]) simp_all
next
  case (init_failed s i k g e)
  show ?case by (rule lock_inv_free(2) [OF init_failed(2,1)]) simp_all
next
  case (enter s i k g e)
  show ?case by (rule lock_inv_take [OF enter(5,2,1,3)]) (simp add: enter(3))
next
  case (uncached s i k g e)
  then have "lock_inv (with_shared clear_session s)" by (intro lock_inv_shared) simp_all
  moreover have "thread_at (with_shared clear_session s) i k (Refused g e)" using uncached(1) by simp
  ultimately show ?case by (rule lock_inv_move) simp_all
next
  case (answer s i msg e)
  then have "lock_inv (with_shared (synthesize_error sniff msg e) s)" by (intro lock_inv_shared) simp_all
  moreover have "thread_at (with_shared (synthesize_error sniff msg e) s) i (Request msg) (Failed e)" using answer(1) by simp
  ultimately show ?case by (rule lock_inv_move) simp_all
next
  case (init_answered s i k g e)
  then show ?case by (intro lock_inv_advance)
qed ((rule lock_inv_shared lock_inv_move; simp; fail) | (rule lock_inv_move, assumption, assumption, simp, simp))+

definition gen_inv :: "64 word \<Rightarrow> system \<Rightarrow> bool" where
  "gen_inv g0 s \<longleftrightarrow> renewed s = map (\<lambda>n. g0 + of_nat n) [0..<length (renewed s)] \<and>
     gen (shared s) = g0 + of_nat (length (renewed s))"

lemma gen_inv_frame:
  "gen (f (shared s)) = gen (shared s) \<Longrightarrow> gen_inv g0 (with_shared f s) \<longleftrightarrow> gen_inv g0 s"
  "gen_inv g0 (move i st s) \<longleftrightarrow> gen_inv g0 s" "gen_inv g0 (s\<lparr>holder := h\<rparr>) \<longleftrightarrow> gen_inv g0 s"
  by (simp_all add: gen_inv_def)

lemma gen_inv_step:
  assumes "session_step sniff s s'" "lock_inv s" "gen_inv g0 s"
  shows "gen_inv g0 s'"
  using assms
proof (induction rule: session_step.induct)
  case (leave s i k st g e)
  then have "gen (shared s) = g" by (intro lock_inv_gen) auto
  with leave show ?case by (simp add: gen_inv_def algebra_simps)
qed (simp_all add: gen_inv_frame)

definition session_inv :: "64 word \<Rightarrow> pump \<times> system \<Rightarrow> bool" where
  "session_inv g0 v \<longleftrightarrow> lock_inv (snd v) \<and> gen_inv g0 (snd v) \<and>
     (fst v = Closed False \<longrightarrow> list_all request_done (threads (snd v)))"

lemma done_request: "list_all request_done (threads s) \<Longrightarrow> thread_at s i (Request m) st \<Longrightarrow> st = Ended"
  by (auto simp: list_all_length request_done_def thread_at_def)

lemma done_move:
  assumes "list_all request_done (threads s)" "thread_at s i k st" "st \<noteq> Ended"
  shows "list_all request_done ((threads s)[i := (fst (threads s ! i), st')])"
proof -
  have "k = Listener" using done_request [OF assms(1), of i _ st] assms(2,3) by (cases k) auto
  with assms show ?thesis
    by (auto simp: list_all_length thread_at_def nth_list_update request_done_def)
qed

lemma done_stays: "session_step sniff s s' \<Longrightarrow> list_all request_done (threads s) \<Longrightarrow> list_all request_done (threads s')"
proof (induction rule: session_step.induct)
  case (leave s i k st g e)
  then have "st \<noteq> Ended" by auto
  from done_move [OF leave(3,1) this] show ?case by simp
next
  case (posted s i msg st)
  from done_request [OF posted(3,1)] posted(2) show ?case by (simp add: delivering_def)
qed (simp_all add: done_move)

lemma session_inv_start: "session_inv (gen b) (Reading, system_start noSSE b)"
  by (simp add: session_inv_def system_start_def start_listening_def lock_inv_def gen_inv_def thread_at_def)

lemma thread_at_spawned: "thread_at (s\<lparr>threads := threads s @ [(k, Started)]\<rparr>) i k' st \<longleftrightarrow>
    thread_at s i k' st \<or> i = length (threads s) \<and> k' = k \<and> st = Started"
  by (auto simp: thread_at_def nth_append less_Suc_eq)

lemma lock_inv_spawn: "lock_inv s \<Longrightarrow> lock_inv (s\<lparr>threads := threads s @ [(k, Started)]\<rparr>)"
  unfolding lock_inv_def holds_def thread_at_spawned by auto

lemma session_inv_step: "run_step sniff v v' \<Longrightarrow> session_inv g v \<Longrightarrow> session_inv g v'"
proof (induction rule: run_step.induct)
  case (work s s' p)
  then show ?case using lock_inv_step gen_inv_step done_stays by (auto simp: session_inv_def)
qed (auto simp: session_inv_def lock_inv_spawn gen_inv_def)

lemma session_reachable:
  "(run_step sniff)\<^sup>*\<^sup>* (Reading, system_start noSSE b) v \<Longrightarrow> session_inv (gen b) v"
  by (induction rule: rtranclp_induct) (auto intro: session_inv_start session_inv_step)

section \<open>One re-initialisation per lost session\<close>

lemma distinct_generations:
  "n \<le> 2 ^ 64 \<Longrightarrow> distinct (map (\<lambda>n. (g0 :: 64 word) + of_nat n) [0..<n])"
  unfolding distinct_map
  by (auto simp: inj_on_def word_of_nat_eq_iff take_bit_nat_eq_self)

text \<open>C3: in every interleaving of the senders and the listening stream at most one goroutine re-initialises at a
  time, and a generation is re-initialised successfully at most once, however many requests of that
  generation fail with 404: the others replay against the session that one has made.\<close>

theorem one_reinit_at_a_time:
  assumes "(run_step sniff)\<^sup>*\<^sup>* (Reading, system_start noSSE b) (p, s)" "length (renewed s) \<le> 2 ^ 64"
  shows "distinct (renewed s) \<and> gen (shared s) = gen b + of_nat (length (renewed s)) \<and>
    (\<exists>i. {j. j < length (threads s) \<and> locking (snd (threads s ! j))} \<subseteq> {i})"
proof -
  have i: "lock_inv s" "gen_inv (gen b) s" using session_reachable [OF assms(1)] by (simp_all add: session_inv_def)
  have d: "distinct (renewed s)" using i(2) distinct_generations [OF assms(2), of "gen b"] by (simp add: gen_inv_def)
  have "{j. j < length (threads s) \<and> locking (snd (threads s ! j))} \<subseteq> set_option (holder s)"
    using i(1) unfolding lock_inv_def thread_at_def by (auto simp: prod_eq_iff)
  then have "\<exists>i. {j. j < length (threads s) \<and> locking (snd (threads s ! j))} \<subseteq> {i}"
    by (cases "holder s") auto
  with d i(2) show ?thesis by (simp add: gen_inv_def)
qed

text \<open>When a run ends without a drain timeout, every request that was read has been posted to the end or
  answered before the session is deleted.\<close>

theorem closed_after_answers:
  assumes "(run_step sniff)\<^sup>*\<^sup>* (Reading, system_start noSSE b) (Closed False, s)" "i < length (threads s)"
    "threads s ! i = (Request msg, st)"
  shows "st = Ended"
proof -
  have "list_all request_done (threads s)" using session_reachable [OF assms(1)] by (simp add: session_inv_def)
  from done_request [OF this, of i msg st] assms(2,3) show ?thesis by (simp add: thread_at_def)
qed

text \<open>And in every interleaving each write on standard output stays one line, and the session id a header value.\<close>

lemma concurrent_output_framed:
  assumes "(run_step sniff)\<^sup>*\<^sup>* (Reading, system_start noSSE b) (p, s)" "list_all one_line (stdout b)" "session_clean b"
  shows "list_all one_line (stdout (shared s)) \<and> session_clean (shared s)"
proof -
  have "shared (system_start noSSE b) = b" by (simp add: system_start_def start_listening_def)
  with framed_out.run_keeps [OF assms(1)] clean_ids.run_keeps [OF assms(1)] assms(2,3) show ?thesis by simp
qed

section \<open>The drain can always complete\<close>

lemma move_step: "R\<^sup>*\<^sup>* a b \<Longrightarrow> R b c \<Longrightarrow> R\<^sup>*\<^sup>* a c"
  by (rule rtranclp.rtrancl_into_rtrancl)

text \<open>The goroutine in the lock can leave it.\<close>

lemma lock_can_free:
  assumes "lock_inv s"
  shows "\<exists>s'. (session_step sniff)\<^sup>*\<^sup>* s s' \<and> lock_inv s' \<and> holder s' = None"
proof (cases "holder s")
  case None
  with assms show ?thesis by blast
next
  case (Some i)
  then obtain k e where "thread_at s i k (Initializing (gen (shared s)) e) \<or> thread_at s i k (Noting (gen (shared s)) e)"
    using assms by (auto simp: lock_inv_def holds_def)
  then obtain s' where "session_step sniff s s'" "holder s' = None"
  proof
    assume "thread_at s i k (Initializing (gen (shared s)) e)"
    from that [OF init_failed [OF this]] show ?thesis by simp
  next
    assume n: "thread_at s i k (Noting (gen (shared s)) e)"
    from that [OF leave [OF n disjI1 [OF refl]]] show ?thesis by simp
  qed
  with assms lock_inv_step show ?thesis by (blast intro: r_into_rtranclp)
qed

text \<open>With the lock free, any one request can end, and leaves the others and the lock alone.\<close>

definition ended_from :: "(bytes \<Rightarrow> bytes) \<Rightarrow> nat \<Rightarrow> system \<Rightarrow> bool" where
  "ended_from sniff i s \<longleftrightarrow> (\<exists>s'. (session_step sniff)\<^sup>*\<^sup>* s s' \<and> holder s' = None \<and>
     threads s' = (threads s)[i := (fst (threads s ! i), Ended)])"

lemma sender_ends:
  assumes "session_step sniff s s1" "threads s1 = (threads s)[i := (fst (threads s ! i), st)]" "ended_from sniff i s1"
    "i < length (threads s)"
  shows "ended_from sniff i s"
  using assms by (auto simp: ended_from_def intro: converse_rtranclp_into_rtranclp)

lemma request_can_end:
  assumes "thread_at s i (Request m) st" "holder s = None" "\<not> locking st"
  shows "ended_from sniff i s"
proof -
  have failed: "ended_from sniff i s" if t: "thread_at s i (Request m) (Failed e)" "holder s = None" for s e
    unfolding ended_from_def
    by (rule exI, rule conjI, rule r_into_rtranclp, rule answer [OF t(1)]) (simp add: t(2))
  have flight: "ended_from sniff i s" if t: "thread_at s i (Request m) st" "delivering st" "holder s = None" for s st
    unfolding ended_from_def
    by (rule exI, rule conjI, rule r_into_rtranclp, rule posted [OF t(1,2)]) (simp add: t(3))
  have started: "ended_from sniff i s" if t: "thread_at s i (Request m) Started" "holder s = None" for s
    by (rule sender_ends [OF observe [OF t]], simp)
      (rule flight [where st = "Posting (gen (shared s))"], use thread_kind [OF t(1)] t in \<open>simp_all add: thread_at_move\<close>)
  have refused: "ended_from sniff i s" if t: "thread_at s i (Request m) (Refused g e)" "holder s = None" for s g e
  proof (cases "gen (shared s) = g")
    case False
    show ?thesis
      by (rule sender_ends [OF stale [OF t False]], simp)
        (rule flight [where st = Replaying], use thread_kind [OF t(1)] t in \<open>simp_all add: thread_at_move renewed_stage_def\<close>)
  next
    case gen: True
    show ?thesis
    proof (cases "initReq (shared s) = []")
      case True
      show ?thesis
        by (rule sender_ends [OF uncached [OF t gen True]], simp)
          (rule failed [where e = e], use thread_kind [OF t(1)] t in \<open>simp_all add: thread_at_move abandoned_stage_def\<close>)
    next
      case False
      let ?s1 = "move i (Initializing g e) (with_shared clear_session s\<lparr>holder := Some i\<rparr>)"
      have i: "thread_at ?s1 i (Request m) (Initializing g e)" using thread_kind [OF t(1)] by (simp add: thread_at_move)
      have "ended_from sniff i ?s1"
        by (rule sender_ends [OF init_failed [OF i]], simp)
          (rule failed [where e = e], use thread_kind [OF t(1)] in \<open>simp_all add: thread_at_move abandoned_stage_def\<close>)
      from sender_ends [OF enter [OF t gen False] _ this] thread_kind [OF t(1)] show ?thesis by simp
    qed
  qed
  show ?thesis
  proof (cases st)
    case Ended
    with assms(1) have "(fst (threads s ! i), Ended) = threads s ! i" by (simp add: thread_at_def)
    then have "threads s = (threads s)[i := (fst (threads s ! i), Ended)]" by (simp only: list_update_id)
    with assms(2) show ?thesis unfolding ended_from_def by (intro exI [of _ s]) simp
  qed (use assms started refused failed flight [OF assms(1)] in \<open>simp_all\<close>)
qed

lemma lock_inv_steps: "(session_step sniff)\<^sup>*\<^sup>* s s' \<Longrightarrow> lock_inv s \<Longrightarrow> lock_inv s'"
  by (induction rule: rtranclp_induct) (auto intro: lock_inv_step)

definition open_requests :: "system \<Rightarrow> nat set" where
  "open_requests s = {i. i < length (threads s) \<and> \<not> request_done (threads s ! i)}"

lemma open_requests_none: "open_requests s = {} \<longleftrightarrow> list_all request_done (threads s)"
  by (auto simp: open_requests_def list_all_length)

lemma can_drain: "lock_inv s \<Longrightarrow> holder s = None \<Longrightarrow>
    \<exists>s'. (session_step sniff)\<^sup>*\<^sup>* s s' \<and> list_all request_done (threads s')"
proof (induction "card (open_requests s)" arbitrary: s rule: less_induct)
  case less
  show ?case
  proof (cases "open_requests s = {}")
    case True
    then show ?thesis using open_requests_none by (intro exI [of _ s]) simp
  next
    case False
    then obtain i where i: "i < length (threads s)" "\<not> request_done (threads s ! i)" by (auto simp: open_requests_def)
    then obtain m st where t: "thread_at s i (Request m) st"
      by (cases "threads s ! i"; cases "fst (threads s ! i)") (auto simp: thread_at_def request_done_def)
    have "\<not> locking st" using lock_inv_holder [OF less(2) t] less(3) by auto
    from request_can_end [OF t less(3) this] obtain s1 where s1: "(session_step sniff)\<^sup>*\<^sup>* s s1" "holder s1 = None"
      "threads s1 = (threads s)[i := (fst (threads s ! i), Ended)]" by (auto simp: ended_from_def)
    have "open_requests s1 = open_requests s - {i}"
      using t by (auto simp: open_requests_def s1(3) nth_list_update request_done_def thread_at_def)
    moreover have "i \<in> open_requests s" "finite (open_requests s)" using i by (simp_all add: open_requests_def)
    ultimately have "card (open_requests s1) < card (open_requests s)" by (metis card_Diff1_less)
    from less(1) [OF this lock_inv_steps [OF s1(1) less(2)] s1(2)] s1(1) show ?thesis
      by (meson rtranclp_trans)
  qed
qed

text \<open>C5: there is no deadlock: from every reachable state, whoever holds the lock and whatever is in flight, the
  goroutines themselves can finish every request, so that the drain at the end of a run can complete.\<close>

theorem drain_can_complete:
  assumes "(run_step sniff)\<^sup>*\<^sup>* (Reading, system_start noSSE b) (p, s)"
  shows "\<exists>s'. (session_step sniff)\<^sup>*\<^sup>* s s' \<and> list_all request_done (threads s') \<and>
    run_step sniff (Draining, s') (Closed False, s')"
proof -
  have "lock_inv s" using session_reachable [OF assms] by (simp add: session_inv_def)
  from lock_can_free [OF this] obtain s1 where s1: "(session_step sniff)\<^sup>*\<^sup>* s s1" "lock_inv s1" "holder s1 = None" by blast
  from can_drain [OF s1(2,3)] obtain s2 where "(session_step sniff)\<^sup>*\<^sup>* s1 s2" "list_all request_done (threads s2)" by blast
  with s1(1) show ?thesis by (meson drained rtranclp_trans)
qed

section \<open>The sequential send is one of the runs\<close>

lemma with_shared_set [simp]: "with_shared f (s\<lparr>shared := b\<rparr>) = s\<lparr>shared := f b\<rparr>"
  by (simp add: with_shared_def)

lemma thread_at_shared [simp]: "thread_at (s\<lparr>shared := b\<rparr>) = thread_at s"
  by (intro ext) (simp add: thread_at_def)

text \<open>A request in flight does to the shared bridge what \<open>Post\<close> does.\<close>

lemma post_runs:
  assumes "thread_at s i k st" "in_flight st" "post net m del (shared s) w = (err, b', w')" "Q (shared s)"
    "\<And>resp b. Q b \<Longrightarrow> Q (capture_session resp b)"
    "\<And>m b. framed m \<Longrightarrow> Q b \<Longrightarrow> Q (del m b) \<and> (session_step sniff)\<^sup>*\<^sup>* (s\<lparr>shared := b\<rparr>) (s\<lparr>shared := del m b\<rparr>)"
  shows "(session_step sniff)\<^sup>*\<^sup>* s (s\<lparr>shared := b'\<rparr>)"
proof -
  let ?P = "\<lambda>b. Q b \<and> (session_step sniff)\<^sup>*\<^sup>* s (s\<lparr>shared := b\<rparr>)"
  have c: "(session_step sniff)\<^sup>*\<^sup>* s (s\<lparr>shared := capture_session resp b\<rparr>)" if "(session_step sniff)\<^sup>*\<^sup>* s (s\<lparr>shared := b\<rparr>)" for resp b
    using move_step [OF that capture [of "s\<lparr>shared := b\<rparr>" i k st sniff resp]] assms(1,2) by simp
  have d: "?P (del m b)" if "framed m" "?P b" for m b
    using assms(6) [OF that(1), of b] that(2) by (meson rtranclp_trans)
  have "?P (fst (snd (post net m del (shared s) w)))"
    by (rule post_invariant [of ?P]) (use assms(4,5) c d in simp_all)
  with assms(3) show ?thesis by simp
qed

definition runs_to :: "(bytes \<Rightarrow> bytes) \<Rightarrow> system \<Rightarrow> nat \<Rightarrow> stage \<Rightarrow> bridge \<Rightarrow> bool" where
  "runs_to sniff s i st b \<longleftrightarrow> (\<exists>s'. (session_step sniff)\<^sup>*\<^sup>* s s' \<and> shared s' = b \<and> holder s' = None \<and>
     threads s' = (threads s)[i := (fst (threads s ! i), st)])"

lemma runs_via:
  assumes "(session_step sniff)\<^sup>*\<^sup>* s s1" "threads s1 = (threads s)[i := (fst (threads s ! i), st1)]"
    "i < length (threads s)" "runs_to sniff s1 i st b"
  shows "runs_to sniff s i st b"
proof -
  from assms(4) obtain s2 where "(session_step sniff)\<^sup>*\<^sup>* s1 s2" "shared s2 = b" "holder s2 = None"
    "threads s2 = (threads s1)[i := (fst (threads s1 ! i), st)]" by (auto simp: runs_to_def)
  with assms(1-3) show ?thesis unfolding runs_to_def by (intro exI [of _ s2]) (auto intro: rtranclp_trans)
qed

lemma runs_done: "session_step sniff s s1 \<Longrightarrow> threads s1 = (threads s)[i := (fst (threads s ! i), st)] \<Longrightarrow>
    holder s1 = None \<Longrightarrow> runs_to sniff s i st (shared s1)"
  by (auto simp: runs_to_def)

lemma runs_done_shared:
  "session_step sniff s s1 \<Longrightarrow> threads s1 = (threads s)[i := (fst (threads s ! i), st)] \<Longrightarrow>
    holder s1 = None \<Longrightarrow> shared s1 = b \<Longrightarrow> runs_to sniff s i st b"
  by (auto simp: runs_to_def)

lemma same_threads: "thread_at s i k st \<Longrightarrow> threads s = (threads s)[i := (fst (threads s ! i), st)]"
proof -
  assume "thread_at s i k st"
  then have "(fst (threads s ! i), st) = threads s ! i" by (simp add: thread_at_def)
  then show ?thesis by (simp only: list_update_id)
qed

lemma runs_step:
  assumes "session_step sniff s s1" "threads s1 = (threads s)[i := (fst (threads s ! i), st1)]"
    "i < length (threads s)" "runs_to sniff s1 i st b"
  shows "runs_to sniff s i st b"
  by (rule runs_via [OF r_into_rtranclp [where r = "session_step sniff", OF assms(1)] assms(2-4)])

lemma runs_post_out:
  assumes "thread_at s i k st1" "delivering st1" "post net m write_out (shared s) w = (err, b1, w1)"
    "runs_to sniff (s\<lparr>shared := b1\<rparr>) i st b"
  shows "runs_to sniff s i st b"
proof -
  have f: "in_flight st1" using assms(2) by (cases st1) (simp_all add: delivering_def)
  have "(session_step sniff)\<^sup>*\<^sup>* (s\<lparr>shared := c\<rparr>) (s\<lparr>shared := write_out m c\<rparr>)" if "framed m" for m c
    using deliver [of "s\<lparr>shared := c\<rparr>" i k st1 m sniff] assms(1,2) that by (simp add: r_into_rtranclp)
  then have "(session_step sniff)\<^sup>*\<^sup>* s (s\<lparr>shared := b1\<rparr>)"
    by (intro post_runs [OF assms(1) f assms(3), of "\<lambda>_. True"]) simp_all
  from runs_via [OF this _ thread_kind(2) [OF assms(1)] assms(4)] same_threads [OF assms(1)] show ?thesis by simp
qed

lemma version_keeps: "reqProtocolVer (bridge_set_protocol_version m v c) = reqProtocolVer c"
  by (simp add: bridge_set_protocol_version_def set_protocol_version_def Let_def)

lemma negotiate_runs:
  assumes "thread_at s i k (Initializing g e)" "reqProtocolVer c = fb"
  shows "(session_step sniff)\<^sup>*\<^sup>* (s\<lparr>shared := c\<rparr>) (s\<lparr>shared := bridge_set_protocol_version m fb c\<rparr>)"
proof -
  have "session_step sniff (s\<lparr>shared := c\<rparr>) (with_shared (\<lambda>b. bridge_set_protocol_version m (reqProtocolVer b) b) (s\<lparr>shared := c\<rparr>))"
    by (rule negotiate [of _ i k g e]) (simp add: assms(1))
  then have "session_step sniff (s\<lparr>shared := c\<rparr>) (s\<lparr>shared := bridge_set_protocol_version m fb c\<rparr>)"
    by (simp only: with_shared_set assms(2))
  then show ?thesis by (rule r_into_rtranclp)
qed

text \<open>The end of \<open>reinit\<close>, under the lock: the cached notification, if there is one, and the new generation.\<close>

definition after_note :: "'w net \<Rightarrow> bridge \<Rightarrow> 'w \<Rightarrow> bridge" where
  "after_note net b w = (if length (initNote b) > 0 then fst (snd (post net (initNote b) (\<lambda>_ b. b) b w)) else b)"

lemma reinit_unfold:
  "gen b = g \<Longrightarrow> reinit net g b w =
     (if initReq b = [] then (Some (Message ''no cached initialize request''), clear_session b, w)
      else case post net (initReq b) (\<lambda>m. bridge_set_protocol_version m (reqProtocolVer b)) (clear_session b) w of
        (Some e, b1, w1) \<Rightarrow> (Some e, b1, w1)
      | (None, b1, w1) \<Rightarrow>
          (None, (after_note net b1 w1)\<lparr>gen := gen (after_note net b1 w1) + 1\<rparr>,
           if length (initNote b1) > 0 then snd (snd (post net (initNote b1) (\<lambda>_ b. b) b1 w1)) else w1))"
  by (auto simp: reinit_def Let_def after_note_def clear_session_def case_prod_beta split: option.split)

lemma note_runs:
  assumes t: "thread_at s i k (Initializing g e)"
  shows "runs_to sniff s i (renewed_stage k) ((after_note net (shared s) w)\<lparr>gen := gen (after_note net (shared s) w) + 1\<rparr>)"
proof (cases "initNote (shared s) = []")
  case True
  show ?thesis
    by (rule runs_done_shared [OF leave [OF t disjI2]]) (use thread_kind [OF t] True in \<open>simp_all add: after_note_def\<close>)
next
  case False
  obtain err b w1 where q: "post net (initNote (shared s)) (\<lambda>_ b. b) (shared s) w = (err, b, w1)" by (rule prod_cases3)
  let ?s1 = "move i (Noting g e) s"
  have t1: "thread_at ?s1 i k (Noting g e)" using thread_kind [OF t] by (simp add: thread_at_move)
  then have t2: "thread_at (?s1\<lparr>shared := b\<rparr>) i k (Noting g e)" by simp
  have p: "(session_step sniff)\<^sup>*\<^sup>* ?s1 (?s1\<lparr>shared := b\<rparr>)"
    by (rule post_runs [OF t1, of net "initNote (shared s)" "\<lambda>_ b. b" w err b w1 "\<lambda>_. True"]) (simp_all add: q)
  have "runs_to sniff (?s1\<lparr>shared := b\<rparr>) i (renewed_stage k) (b\<lparr>gen := gen b + 1\<rparr>)"
    by (rule runs_done_shared [OF leave [OF t2 disjI1 [OF refl]]]) simp_all
  from runs_via [OF p _ _ this] thread_kind [OF t] have "runs_to sniff ?s1 i (renewed_stage k) (b\<lparr>gen := gen b + 1\<rparr>)" by simp
  from runs_step [OF init_answered [OF t False] _ _ this] q False thread_kind [OF t] show ?thesis by (simp add: after_note_def)
qed

text \<open>The \<open>initialize\<close> request of a re-initialisation, under the lock.\<close>

lemma init_runs:
  assumes t: "thread_at s i k (Initializing g e)"
    and p: "post net l (\<lambda>m. bridge_set_protocol_version m (reqProtocolVer (shared s))) (shared s) w = (err, b, w1)"
    and r: "runs_to sniff (s\<lparr>shared := b\<rparr>) i st c"
  shows "runs_to sniff s i st c"
proof -
  have n: "reqProtocolVer (bridge_set_protocol_version m (reqProtocolVer (shared s)) c) = reqProtocolVer (shared s) \<and>
      (session_step sniff)\<^sup>*\<^sup>* (s\<lparr>shared := c\<rparr>) (s\<lparr>shared := bridge_set_protocol_version m (reqProtocolVer (shared s)) c\<rparr>)"
    if "reqProtocolVer c = reqProtocolVer (shared s)" for m c
    using negotiate_runs [OF t that] that by (simp add: version_keeps)
  have "(session_step sniff)\<^sup>*\<^sup>* s (s\<lparr>shared := b\<rparr>)"
    by (rule post_runs [OF t _ p, of "\<lambda>c. reqProtocolVer c = reqProtocolVer (shared s)"])
      (use n in \<open>simp_all add: capture_session_def Let_def\<close>)
  from runs_via [OF this _ thread_kind(2) [OF t] r] same_threads [OF t] show ?thesis by simp
qed

text \<open>\<open>reinit\<close> as a whole.\<close>

lemma reinit_runs:
  assumes t: "thread_at s i k (Refused g e)" and h: "holder s = None" and r: "reinit net g (shared s) w = (rerr, b', w')"
  shows "runs_to sniff s i (case rerr of None \<Rightarrow> renewed_stage k | Some _ \<Rightarrow> abandoned_stage k e) b'"
proof (cases "gen (shared s) = g")
  case False
  with r have x: "rerr = None" "b' = shared s" by (simp_all add: reinit_def)
  show ?thesis unfolding x by (rule runs_done_shared [OF stale [OF t h False]]) (simp_all add: h)
next
  case g: True
  show ?thesis
  proof (cases "initReq (shared s) = []")
    case True
    with r reinit_unfold [OF g, of net w] have x: "rerr = Some (Message ''no cached initialize request'')" "b' = clear_session (shared s)"
      by simp_all
    show ?thesis unfolding x by (rule runs_done_shared [OF uncached [OF t h g True]]) (simp_all add: h)
  next
    case False
    let ?s1 = "move i (Initializing g e) (with_shared clear_session s\<lparr>holder := Some i\<rparr>)"
    have t1: "thread_at ?s1 i k (Initializing g e)" using thread_kind [OF t] by (simp add: thread_at_move)
    have v: "reqProtocolVer (shared ?s1) = reqProtocolVer (shared s)" by (simp add: clear_session_def)
    obtain err b1 w1 where p: "post net (initReq (shared s)) (\<lambda>m. bridge_set_protocol_version m (reqProtocolVer (shared ?s1)))
        (shared ?s1) w = (err, b1, w1)" by (rule prod_cases3)
    have t2: "thread_at (?s1\<lparr>shared := b1\<rparr>) i k (Initializing g e)" using t1 by simp
    have "runs_to sniff (?s1\<lparr>shared := b1\<rparr>) i (case rerr of None \<Rightarrow> renewed_stage k | Some _ \<Rightarrow> abandoned_stage k e) b'"
    proof (cases err)
      case (Some x)
      with r p v reinit_unfold [OF g, of net w] False have y: "rerr = Some x" "b' = b1" by simp_all
      show ?thesis unfolding y by (rule runs_done_shared [OF init_failed [OF t2]]) (use thread_kind [OF t2] in simp_all)
    next
      case None
      with r p v reinit_unfold [OF g, of net w] False
      have "rerr = None" "b' = (after_note net b1 w1)\<lparr>gen := gen (after_note net b1 w1) + 1\<rparr>" by auto
      then show ?thesis using note_runs [OF t2, of sniff net w1] by simp
    qed
    from init_runs [OF t1 p this] have "runs_to sniff ?s1 i (case rerr of None \<Rightarrow> renewed_stage k | Some _ \<Rightarrow> abandoned_stage k e) b'" .
    from runs_step [OF enter [OF t h g False] _ thread_kind(2) [OF t] this] thread_kind [OF t] show ?thesis by simp
  qed
qed

lemma answer_runs:
  "thread_at s i (Request msg) (Failed e) \<Longrightarrow> holder s = None \<Longrightarrow>
    runs_to sniff s i Ended (synthesize_error sniff msg e (shared s))"
  by (rule runs_done_shared [OF answer]) simp_all

text \<open>The second \<open>Post\<close> and what follows it.\<close>

lemma replay_runs:
  assumes t: "thread_at s i (Request msg) Replaying" and h: "holder s = None"
    and p: "post net msg write_out (shared s) w = (err, b1, w1)"
  shows "runs_to sniff s i Ended (case err of None \<Rightarrow> b1 | Some e \<Rightarrow> synthesize_error sniff msg e b1)"
proof (rule runs_post_out [OF t _ p])
  let ?s1 = "s\<lparr>shared := b1\<rparr>"
  have t1: "thread_at ?s1 i (Request msg) Replaying" using t by simp
  show "runs_to sniff ?s1 i Ended (case err of None \<Rightarrow> b1 | Some e \<Rightarrow> synthesize_error sniff msg e b1)"
  proof (cases err)
    case None
    show ?thesis unfolding None option.case by (rule runs_done_shared [OF posted [OF t1]]) (simp_all add: h)
  next
    case (Some e)
    have "thread_at (move i (Failed e) ?s1) i (Request msg) (Failed e)" using thread_kind [OF t] by (simp add: thread_at_move)
    from answer_runs [OF this] h have "runs_to sniff (move i (Failed e) ?s1) i Ended (synthesize_error sniff msg e b1)" by simp
    from runs_step [OF replay_failed [OF t1] _ _ this] thread_kind [OF t] show ?thesis by (simp add: Some)
  qed
qed simp

text \<open>The way of a failed request: re-initialise, then replay or answer.\<close>

lemma recover_runs:
  assumes t: "thread_at s i (Request msg) (Refused g e)" and h: "holder s = None"
    and r: "reinit net g (shared s) w = (rerr, b2, w2)" and q: "post net msg write_out b2 w2 = (err2, b3, w3)"
  shows "runs_to sniff s i Ended
    (case rerr of Some _ \<Rightarrow> synthesize_error sniff msg e b2
     | None \<Rightarrow> (case err2 of None \<Rightarrow> b3 | Some e \<Rightarrow> synthesize_error sniff msg e b3))" (is "runs_to _ _ _ _ ?b")
proof -
  from reinit_runs [OF t h r, of sniff] obtain s4 where s4: "(session_step sniff)\<^sup>*\<^sup>* s s4" "shared s4 = b2"
    "holder s4 = None" "threads s4 = (threads s)[i := (fst (threads s ! i),
      case rerr of None \<Rightarrow> renewed_stage (Request msg) | Some _ \<Rightarrow> abandoned_stage (Request msg) e)]"
    unfolding runs_to_def by blast
  have t4: "thread_at s4 i (Request msg) (case rerr of None \<Rightarrow> Replaying | Some _ \<Rightarrow> Failed e)"
    using thread_kind [OF t] s4(4) by (simp add: thread_at_def renewed_stage_def abandoned_stage_def split: option.split)
  have "runs_to sniff s4 i Ended ?b"
  proof (cases rerr)
    case None
    then show ?thesis using replay_runs [of s4 i msg net w2 err2 b3 w3 sniff] t4 s4(2,3) q by simp
  next
    case (Some x)
    then show ?thesis using answer_runs [of s4 i msg e sniff] t4 s4(2,3) by simp
  qed
  from runs_via [OF s4(1) s4(4) thread_kind(2) [OF t] this] show ?thesis .
qed

text \<open>A request whose \<open>Post\<close> returned.\<close>

lemma returned_runs:
  assumes t: "thread_at s i (Request msg) (Posting g)" and h: "holder s = None"
    and r: "reinit net g (shared s) w = (rerr, b2, w2)" and q: "post net msg write_out b2 w2 = (err2, b3, w3)"
  shows "runs_to sniff s i Ended
    (case err of None \<Rightarrow> shared s
     | Some e \<Rightarrow> if not_found e \<and> sessioned (shared s) then
         (case rerr of Some _ \<Rightarrow> synthesize_error sniff msg e b2
          | None \<Rightarrow> (case err2 of None \<Rightarrow> b3 | Some e \<Rightarrow> synthesize_error sniff msg e b3))
       else synthesize_error sniff msg e (shared s))" (is "runs_to _ _ _ _ ?b")
proof (cases err)
  case None
  show ?thesis unfolding None option.case by (rule runs_done_shared [OF posted [OF t]]) (simp_all add: h)
next
  case (Some e)
  show ?thesis
  proof (cases "not_found e \<and> sessioned (shared s)")
    case True
    let ?s1 = "move i (Refused g e) s"
    have t1: "thread_at ?s1 i (Request msg) (Refused g e)" using thread_kind [OF t] by (simp add: thread_at_move)
    have "runs_to sniff ?s1 i Ended ?b"
      using recover_runs [OF t1, of net w rerr b2 w2 err2 b3 w3 sniff] h r q True Some by simp
    from runs_step [OF refused [OF t _ h] _ thread_kind(2) [OF t] this] True show ?thesis by simp
  next
    case False
    let ?s1 = "move i (Failed e) s"
    have "thread_at ?s1 i (Request msg) (Failed e)" using thread_kind [OF t] by (simp add: thread_at_move)
    from answer_runs [OF this, of sniff] h False Some have a: "runs_to sniff ?s1 i Ended ?b" by auto
    have "session_step sniff s ?s1"
      by (cases "not_found e"; rule sessionless [OF t] post_failed [OF t]) (use False h in auto)
    from runs_step [OF this _ thread_kind(2) [OF t] a] show ?thesis by simp
  qed
qed

lemma send_runs:
  assumes t: "thread_at s i (Request msg) Started" and h: "holder s = None"
    and x: "send sniff net msg (shared s) w = (b', w')"
  shows "runs_to sniff s i Ended b'"
proof -
  let ?g = "gen (shared s)"
  let ?s1 = "move i (Posting ?g) s"
  obtain err b1 w1 where p: "post net msg write_out (shared s) w = (err, b1, w1)" by (rule prod_cases3)
  obtain rerr b2 w2 where r: "reinit net ?g b1 w1 = (rerr, b2, w2)" by (rule prod_cases3)
  obtain err2 b3 w3 where q: "post net msg write_out b2 w2 = (err2, b3, w3)" by (rule prod_cases3)
  have t1: "thread_at ?s1 i (Request msg) (Posting ?g)" using thread_kind [OF t] by (simp add: thread_at_move)
  then have t2: "thread_at (?s1\<lparr>shared := b1\<rparr>) i (Request msg) (Posting ?g)" by simp
  have "runs_to sniff (?s1\<lparr>shared := b1\<rparr>) i Ended b'"
    using returned_runs [OF t2, of net w1 rerr b2 w2 err2 b3 w3 sniff err] h p r q x
    by (auto simp: send_def Let_def split: option.splits if_splits)
  then have "runs_to sniff ?s1 i Ended b'" by (rule runs_post_out [OF t1, rotated 2]) (use p in simp_all)
  from runs_step [OF observe [OF t h] _ thread_kind(2) [OF t] this] show ?thesis by simp
qed

text \<open>The listening stream, too: what \<open>Listen\<close> does over any schedule is a run of the listener.\<close>

lemma listen_loop_invariant:
  assumes "P c" "\<And>resp c. P c \<Longrightarrow> P (capture_session resp c)" "\<And>m c. framed m \<Longrightarrow> P c \<Longrightarrow> P (del m c)"
    "\<And>i c. P c \<Longrightarrow> P (c\<lparr>lastEventID := i\<rparr>)"
  shows "P (fst (snd (snd (listen_loop net del backoff ts c w))))"
  using assms(1)
proof (induction ts arbitrary: backoff c w)
  case (Cons t ts)
  obtain err c1 w1 where l: "listen_once net del c w = (err, c1, w1)" by (rule prod_cases3)
  have "P c1" using listen_once_invariant [of P c del net w, OF Cons(2) assms(2-4)] l by simp
  with Cons(1) [of c1] l show ?case
    by (simp add: Let_def split: listen_next.split prod.split) (metis fst_conv snd_conv)
qed simp

lemma listen_runs:
  assumes t: "thread_at s i Listener (Posting g)" and l: "listen net write_out ts (shared s) w = (err, waits, b', w')"
  shows "(session_step sniff)\<^sup>*\<^sup>* s (s\<lparr>shared := b'\<rparr>)"
proof -
  let ?P = "\<lambda>b. (session_step sniff)\<^sup>*\<^sup>* s (s\<lparr>shared := b\<rparr>)"
  have t': "thread_at (s\<lparr>shared := b\<rparr>) i Listener (Posting g)" for b using t by simp
  have "?P (fst (snd (snd (listen_loop net write_out second ts (shared s) w))))"
  proof (rule listen_loop_invariant [of ?P])
    show "?P (capture_session resp c)" if "?P c" for resp c
    proof -
      have "session_step sniff (s\<lparr>shared := c\<rparr>) (with_shared (capture_session resp) (s\<lparr>shared := c\<rparr>))"
        by (rule capture [OF t']) simp
      from move_step [OF that this] show ?thesis by simp
    qed
    show "?P (write_out m c)" if "framed m" "?P c" for m c
    proof -
      have "session_step sniff (s\<lparr>shared := c\<rparr>) (with_shared (write_out m) (s\<lparr>shared := c\<rparr>))"
        by (rule deliver [OF t' _ that(1)]) simp
      from move_step [OF that(2) this] show ?thesis by simp
    qed
    show "?P (c\<lparr>lastEventID := j\<rparr>)" if "?P c" for j c
    proof -
      have "session_step sniff (s\<lparr>shared := c\<rparr>) (with_shared (\<lambda>b. b\<lparr>lastEventID := j\<rparr>) (s\<lparr>shared := c\<rparr>))"
        by (rule cursor [OF t'])
      from move_step [OF that this] show ?thesis by simp
    qed
  qed simp
  with l show ?thesis by (simp add: listen_def)
qed

lemma work_runs: "(session_step sniff)\<^sup>*\<^sup>* s s' \<Longrightarrow> (run_step sniff)\<^sup>*\<^sup>* (p, s) (p, s')"
  by (induction rule: rtranclp_induct) (auto intro: work rtranclp.rtrancl_into_rtrancl)

lemma loop_runs:
  assumes "holder s = None" "list_all request_done (threads s)"
  shows "\<exists>s'. (run_step sniff)\<^sup>*\<^sup>* (Reading, s) (Reading, s') \<and> shared s' = fst (snd (run_loop sniff net True ls (shared s) w)) \<and>
    holder s' = None \<and> list_all request_done (threads s') \<and> map fst (threads s') = map fst (threads s) @ map Request ls"
  using assms
proof (induction ls arbitrary: s w)
  case Nil
  then show ?case by (intro exI [of _ s]) simp
next
  case (Cons l ls)
  obtain b1 w1 where x: "send sniff net l (shared s) w = (b1, w1)" by (rule prod.exhaust)
  let ?s1 = "s\<lparr>threads := threads s @ [(Request l, Started)]\<rparr>"
  have t: "thread_at ?s1 (length (threads s)) (Request l) Started" by (simp add: thread_at_def)
  have "send sniff net l (shared ?s1) w = (b1, w1)" "holder ?s1 = None" using x Cons(2) by simp_all
  from send_runs [OF t this(2,1)] obtain s2 where s2: "(session_step sniff)\<^sup>*\<^sup>* ?s1 s2" "shared s2 = b1" "holder s2 = None"
    "threads s2 = threads s @ [(Request l, Ended)]" unfolding runs_to_def by auto
  have d: "list_all request_done (threads s2)" using Cons(3) by (simp add: s2(4)) (simp add: request_done_def)
  from Cons(1) [OF s2(3) d, of w1] obtain s3 where s3: "(run_step sniff)\<^sup>*\<^sup>* (Reading, s2) (Reading, s3)"
    "shared s3 = fst (snd (run_loop sniff net True ls b1 w1))" "holder s3 = None" "list_all request_done (threads s3)"
    "map fst (threads s3) = map fst (threads s2) @ map Request ls" by (auto simp: s2(2))
  have "(run_step sniff)\<^sup>*\<^sup>* (Reading, s) (Reading, s3)"
    using spawn [of sniff s l] work_runs [OF s2(1), of Reading] s3(1) by (meson converse_rtranclp_into_rtranclp rtranclp_trans)
  with s3 s2(4) x show ?case by (intro exI [of _ s3]) simp
qed


section \<open>Two requests that lose the same session\<close>

definition two_bridge :: bridge where
  "two_bridge = (new_bridge \<lparr>Endpoint = [], Headers = [], sessionID = ''s1'', protocolVer = [], lastEventID = []\<rparr>)
     \<lparr>sessioned := True, initReq := ''{}''\<rparr>"

abbreviation two :: "bridge \<Rightarrow> nat option \<Rightarrow> stage \<Rightarrow> stage \<Rightarrow> 64 word list \<Rightarrow> system" where
  "two b h x y r \<equiv> \<lparr>shared = b, holder = h, threads = [(Request ''a'', x), (Request ''b'', y)], renewed = r\<rparr>"

lemmas two_simps = thread_at_def move_def with_shared_def two_bridge_def new_bridge_def client.extend_def clear_session_def
  not_found_def renewed_stage_def delivering_def system_start_def start_listening_def request_done_def

lemma two_run:
  "(run_step sniff)\<^sup>*\<^sup>* (Reading, system_start True two_bridge)
     (Closed False, two ((clear_session two_bridge)\<lparr>gen := 1\<rparr>) None Ended Ended [0])"
proof -
  let ?e = "HTTPError 404 [] []" and ?c = "clear_session two_bridge"
  let ?d = "?c\<lparr>gen := 1\<rparr>"
  have 1: "run_step sniff (Reading, system_start True two_bridge)
      (Reading, \<lparr>shared = two_bridge, holder = None, threads = [(Request ''a'', Started)], renewed = []\<rparr>)"
    using spawn [of sniff "system_start True two_bridge" "''a''"] by (simp add: system_start_def start_listening_def)
  have 2: "run_step sniff (Reading, \<lparr>shared = two_bridge, holder = None, threads = [(Request ''a'', Started)], renewed = []\<rparr>)
      (Reading, two two_bridge None Started Started [])"
    using spawn [of sniff "\<lparr>shared = two_bridge, holder = None, threads = [(Request ''a'', Started)], renewed = []\<rparr>" "''b''"] by simp
  have 3: "session_step sniff (two two_bridge None Started Started []) (two two_bridge None (Posting 0) Started [])"
    using observe [of "two two_bridge None Started Started []" 0 "Request ''a''" sniff] by (simp add: two_simps)
  have 4: "session_step sniff (two two_bridge None (Posting 0) Started []) (two two_bridge None (Posting 0) (Posting 0) [])"
    using observe [of "two two_bridge None (Posting 0) Started []" 1 "Request ''b''" sniff] by (simp add: two_simps)
  have 5: "session_step sniff (two two_bridge None (Posting 0) (Posting 0) []) (two two_bridge None (Refused 0 ?e) (Posting 0) [])"
    using refused [of "two two_bridge None (Posting 0) (Posting 0) []" 0 "''a''" 0 ?e sniff] by (simp add: two_simps)
  have 6: "session_step sniff (two two_bridge None (Refused 0 ?e) (Posting 0) []) (two two_bridge None (Refused 0 ?e) (Refused 0 ?e) [])"
    using refused [of "two two_bridge None (Refused 0 ?e) (Posting 0) []" 1 "''b''" 0 ?e sniff] by (simp add: two_simps)
  have 7: "session_step sniff (two two_bridge None (Refused 0 ?e) (Refused 0 ?e) []) (two ?c (Some 0) (Initializing 0 ?e) (Refused 0 ?e) [])"
    using enter [of "two two_bridge None (Refused 0 ?e) (Refused 0 ?e) []" 0 "Request ''a''" 0 ?e sniff] by (simp add: two_simps)
  have 8: "session_step sniff (two ?c (Some 0) (Initializing 0 ?e) (Refused 0 ?e) []) (two ?d None Replaying (Refused 0 ?e) [0])"
    using leave [of "two ?c (Some 0) (Initializing 0 ?e) (Refused 0 ?e) []" 0 "Request ''a''" "Initializing 0 ?e" 0 ?e sniff]
    by (simp add: two_simps)
  have 9: "session_step sniff (two ?d None Replaying (Refused 0 ?e) [0]) (two ?d None Replaying Replaying [0])"
    using stale [of "two ?d None Replaying (Refused 0 ?e) [0]" 1 "Request ''b''" 0 ?e sniff] by (simp add: two_simps)
  have 10: "session_step sniff (two ?d None Replaying Replaying [0]) (two ?d None Ended Replaying [0])"
    using posted [of "two ?d None Replaying Replaying [0]" 0 "''a''" Replaying sniff] by (simp add: two_simps)
  have 11: "session_step sniff (two ?d None Ended Replaying [0]) (two ?d None Ended Ended [0])"
    using posted [of "two ?d None Ended Replaying [0]" 1 "''b''" Replaying sniff] by (simp add: two_simps)
  have d: "run_step sniff (Draining, two ?d None Ended Ended [0]) (Closed False, two ?d None Ended Ended [0])"
    by (rule drained) (simp add: request_done_def)
  note steps = move_step [where R = "run_step sniff"]
  show ?thesis
    by (rule steps [OF steps [OF steps [OF steps [OF steps [OF steps [OF steps [OF steps [OF steps [OF steps [OF steps [OF steps [OF
      steps [OF rtranclp.rtrancl_refl [of "run_step sniff"] 1] 2] work [OF 3]] work [OF 4]] work [OF 5]] work [OF 6]] work [OF 7]] work [OF 8]]
      work [OF 9]] work [OF 10]] work [OF 11]] stop] d])
qed

theorem one_reinit_at_a_time_witness:
  "let s = two ((clear_session two_bridge)\<lparr>gen := 1\<rparr>) None Ended Ended [0] in
     distinct (renewed s) \<and> gen (shared s) = gen two_bridge + of_nat (length (renewed s))"
  using one_reinit_at_a_time [OF two_run [of id]] by (simp add: Let_def)

theorem closed_after_answers_witness: "snd (threads (two two_bridge None Ended Ended []) ! 1) = Ended"
proof -
  have "threads (two ((clear_session two_bridge)\<lparr>gen := 1\<rparr>) None Ended Ended [0]) ! 1 = (Request ''b'', Ended)" by simp
  from closed_after_answers [OF two_run [of id] _ this] show ?thesis by simp
qed

theorem drain_can_complete_witness:
  "\<exists>s'. (session_step id)\<^sup>*\<^sup>* (two ((clear_session two_bridge)\<lparr>gen := 1\<rparr>) None Ended Ended [0]) s' \<and>
     list_all request_done (threads s')"
  using drain_can_complete [OF two_run [of id]] by blast

end
