(* ===== verification/Wiring.thy ===== *)
theory Wiring
  imports Cli
begin

text \<open>
  The components wired together as the application wires them: the token ladder over the store
  the run chose, with the browser login in its interactive rung.  What the ladder assumes of its
  environment is shown of these implementations, so its theorems hold of the application.
\<close>

section \<open>Errors of the machine\<close>

text \<open>\<open>errClientGone\<close> makes \<open>Token\<close> run a second round; nothing below the ladder returns it.\<close>

definition tame :: "gerr option \<Rightarrow> bool" where
  "tame r \<longleftrightarrow> (case r of None \<Rightarrow> True | Some e \<Rightarrow> \<not> err_is e errClientGone)"

named_theorems tamed \<open>calls whose errors are tame\<close>

lemma tame_simps [simp]:
  "tame None" "tame (Some (Message s))" "tame (Some (Wrap a e b)) \<longleftrightarrow> tame (Some e)"
  "tame (Some ENOENT)" "tame (Some ENOTDIR)" "tame (Some EEXIST)" "tame (Some EISDIR)" "tame (Some ENOTEMPTY)"
  "tame (Some errPattern)" "tame (Some marshal_error)" "tame (Some (absent ns p))" "tame (Some ErrNotFound)"
  by (simp_all add: tame_def ENOENT_def ENOTDIR_def EEXIST_def EISDIR_def ENOTEMPTY_def errPattern_def marshal_error_def
      absent_def errClientGone_def ErrNotFound_def)

lemma sys_tame: "(\<And>ns. tame (refuse ns)) \<Longrightarrow> tame (fst (sys refuse change w))"
  by (simp add: sys_def split: prod.split option.split) (metis option.exhaust)

lemma call_tame [tamed]:
  "tame (fst (sys_mkdir p m w))" "tame (fst (sys_create p m w))" "tame (fst (sys_chmod p m w))" "tame (fst (sys_close w))"
  "tame (fst (sys_rename p q w))" "tame (fst (sys_write p d w))"
  by (simp_all add: sys_mkdir_def sys_create_def sys_chmod_def sys_close_def sys_rename_def sys_tame no_parent_def)
    (simp add: sys_write_def split: prod.split option.split)

lemma mkdirs_tame [tamed]: "tame (fst (mkdirs ps m w))"
proof (induction ps m w rule: mkdirs.induct)
  case (2 p ps m w)
  then show ?case using call_tame(1) [of p m w] by (auto split: prod.split option.split)
qed simp

lemma temp_tame [tamed]: "tame (case fst (CreateTemp dir pre w) of Inl e \<Rightarrow> Some e | Inr _ \<Rightarrow> None)"
proof -
  have "tame (case fst (temp_loop n dir pre w) of Inl e \<Rightarrow> Some e | Inr _ \<Rightarrow> None)" for n
  proof (induction n dir pre w rule: temp_loop.induct)
    case (2 n dir pre w)
    obtain r w1 where d: "draw w = (r, w1)" by (rule prod.exhaust)
    show ?case using 2 [OF d [symmetric] refl] call_tame(2) [of "dir @ [pre @ dec_nat r]" mode_0600 w1] d
      by (auto simp: Let_def split: prod.split option.split)
  qed simp
  then show ?thesis by (simp add: CreateTemp_def)
qed

text \<open>The same, for a call that returned an error.\<close>

lemma tame_result: "tame (fst x) \<Longrightarrow> x = (Some e, w) \<Longrightarrow> tame (Some e)"
  by simp

lemmas call_errors = call_tame [THEN tame_result] mkdirs_tame [THEN tame_result]

lemma create_error: "CreateTemp dir pre w = (Inl e, w') \<Longrightarrow> tame (Some e)"
  using temp_tame [of dir pre w] by simp

lemma fill_error: "fill_temp tmp p d m w = (Some e, w') \<Longrightarrow> tame (Some e)"
  by (auto simp: fill_temp_def Let_def split: option.splits prod.splits dest: call_errors)

lemma write_error: "Write p d m w = (Some e, w') \<Longrightarrow> tame (Some e)"
  by (auto simp: Write_def MkdirAll_def Let_def split: option.splits prod.splits sum.splits
      dest: call_errors create_error fill_error)

section \<open>Errors of the stores and of the browser login\<close>

text \<open>What the keyring package and the login's environment are trusted with: errors of their own.\<close>

definition tame_keyring :: "'k keyring \<Rightarrow> bool" where
  "tame_keyring kr \<longleftrightarrow>
     (\<forall>s a k e. kr_get kr s a k = Inl e \<longrightarrow> tame (Some e)) \<and> (\<forall>s a v k. tame (fst (kr_set kr s a v k)))"

lemma masterKey_error: "tame_keyring kr \<Longrightarrow> masterKey kr c w = (Inl e, w') \<Longrightarrow> tame (Some e)"
  unfolding tame_keyring_def
  by (auto simp: masterKey_def Let_def split: sum.splits option.splits prod.splits if_splits)
    (metis fst_conv)

lemma save_error:
  assumes "tame_keyring kr" "Store_Save kr st key t w = (Some e, w')"
  shows "tame (Some e)"
proof (cases st)
  case (PlainFiles dir)
  with assms(2) show ?thesis
    by (auto simp: Store_Save_def FileStore_Save_def writeFileAtomic_def split: option.splits dest: write_error)
next
  case (EncryptedFiles dir)
  with assms show ?thesis
    by (auto simp: Store_Save_def KeychainStore_Save_def writeFileAtomic_def encrypt_def bad_key_size_def Let_def
        split: option.splits prod.splits sum.splits if_splits dest: write_error masterKey_error)
qed

lemma application_quiet:
  fixes sv :: "('k, 'n) services"
  assumes "tame_keyring (sv_keyring sv)" "quiet_browser (sv_browser sv)"
  shows "quiet_login (flow_env sv st w0)"
proof -
  have b: "quiet_browser (login_env_of sv)" using assms(2) by (simp add: quiet_browser_def login_env_of_def)
  have s: "\<not> err_is e errClientGone" if "fst (Store_Save (sv_keyring sv) st k t w) = Some e" for k t e and w :: "('k, 'n) machine"
    using save_error [OF assms(1), of st k t w e] that by (simp add: prod_eq_iff tame_def)
  show ?thesis
    using browserLogin_quiet [OF b] s
    by (auto simp: quiet_login_def flow_env_def on_store_def)
qed

text \<open>What discovery accepted, the login sends the user and the code to: https or loopback URLs only.\<close>

lemma login_endpoints_secure:
  assumes "disco_ok f" "discover env challenge f w = (Inr d, f', w')"
  shows "requireHTTPS (oc_AuthURL (login_config g d scopes)) = None \<and> requireHTTPS (oc_TokenURL (login_config g d scopes)) = None"
  using discover_ok [OF assms] by (simp add: login_config_def server_ok_def)

section \<open>The application's ladder\<close>

text \<open>C6: with the store the run chose and the browser login in place, one request for a token opens at
  most one browser login, whatever is stored, rejected or answered, a dropped and renewed client
  registration included.\<close>

theorem application_logs_in_once:
  assumes "tame_keyring (sv_keyring sv)" "quiet_browser (sv_browser sv)"
  shows "snd (snd (snd (Token (with_logins (flow_env sv st w0)) rejected challenge (flowFor p) (w, 0)))) \<le> 1"
  by (rule token_logs_in_once [OF application_quiet [OF assms]]) (simp add: disco_ok_def flowFor_def)

theorem application_logs_in_once_witness:
  "snd (snd (snd (Token (with_logins (flow_env demo_services (PlainFiles [''t'']) demo_machine)) ''old'' []
     (flowFor (prof demo_app)) (demo_machine, 0)))) \<le> 1"
proof (rule application_logs_in_once)
  show "tame_keyring (sv_keyring demo_services)"
    by (simp add: tame_keyring_def demo_services_def memory_keyring_def keyring_ErrNotFound_def tame_def errClientGone_def
        split: option.split)
  show "quiet_browser (sv_browser demo_services)"
    by (simp add: quiet_browser_def demo_services_def)
qed

section \<open>The token command\<close>

text \<open>Unlocking closes the lock's file and leaves everything else as it is.\<close>

definition unlock_only :: "('k, 'n) services \<Rightarrow> bool" where
  "unlock_only sv \<longleftrightarrow> (\<forall>key w. nodes (lk_release (sv_oauth sv) key w) = nodes w \<and> keys (lk_release (sv_oauth sv) key w) = keys w)"

lemma token_command_stored:
  fixes sv :: "('k, 'n) services"
  assumes "keyring_law (sv_keyring sv)" "unlock_only sv" "tokenProvider a w = Some (OAuthFlow g)"
    and "app_AccessToken sv a w = (Inr tok, w')"
  shows "\<exists>key t. Store_Load (sv_keyring sv) (app_store sv a w) key w' = Inr (kept_token t) \<and> AccessToken t = tok"
proof -
  let ?st = "app_store sv a w"
  let ?E = "flow_env sv ?st w"
  obtain intact where sf: "stored_flow ?E kept_token intact"
    using store_contract [OF assms(1), of ?st] unfolding stored_flow_def by (auto simp: flow_env_def on_store_def)
  obtain f' where t: "Token ?E [] [] (flowFor (prof a)) w = (Inr tok, f', w')"
    using assms(3,4) by (auto simp: app_AccessToken_def provide_def split: prod.splits)
  have st: "st_load ?E = Store_Load (sv_keyring sv) ?st" "lk_release ?E = lk_release (sv_oauth sv)"
    by (simp_all add: flow_env_def on_store_def)
  have "st_load ?E k (lk_release ?E k v) = st_load ?E k v" for k v
    using assms(2) unfolding st by (intro load_same) (simp_all add: unlock_only_def)
  then obtain key u where "stored_flow.handed_out ?E kept_token key tok f' w' u"
    using stored_flow.token_handed_out [OF sf _ _ t] by (auto simp: flowFor_def)
  then have "Store_Load (sv_keyring sv) ?st key w' = Inr (kept_token u) \<and> AccessToken u = tok"
    unfolding stored_flow.handed_out_def [OF sf] st by simp
  then show ?thesis by blast
qed


lemma setup_kept: "setup_app sv name args w = (Inr a, w1) \<Longrightarrow> w1 = w"
  by (auto simp: setup_app_def split: sum.splits if_splits)

text \<open>C8: when \<open>mcpurl token\<close> succeeds, what it prints is the configured bearer, or the access token
  of a token that the run's own store, plain or encrypted, holds at that moment: a printed token is
  never one that was lost on the way to the disk.\<close>

theorem printed_token_on_disk:
  assumes "keyring_law (sv_keyring sv)" "unlock_only sv"
    and "cli_run sv (''token'' # args) input read_err w = (exitOK, w')"
  shows "\<exists>a tok w2. setup_app sv ''mcpurl token'' args w = (Inr a, w) \<and>
    app_AccessToken sv a w = (Inr tok, w2) \<and> w' = print_out (tok @ [LF]) w2 \<and>
    (case tokenProvider a w of
       None \<Rightarrow> False
     | Some (StaticBearer b) \<Rightarrow> tok = b \<and> w2 = w
     | Some (OAuthFlow f) \<Rightarrow>
         \<exists>key t. Store_Load (sv_keyring sv) (app_store sv a w) key w' = Inr (kept_token t) \<and> AccessToken t = tok)"
proof -
  have run: "cmdToken sv args w = (exitOK, w')" using assms(3) by (simp add: cli_run_def)
  then obtain a w1 where s1: "setup_app sv ''mcpurl token'' args w = (Inr a, w1)"
    by (auto simp: cmdToken_def appName_def fail_def exitOK_def exitUsage_def split: sum.splits prod.splits)
  have s: "setup_app sv ''mcpurl token'' args w = (Inr a, w)" using s1 setup_kept [OF s1] by simp
  obtain tok w2 where t: "app_AccessToken sv a w = (Inr tok, w2)" "w' = print_out (tok @ [LF]) w2"
    using run s by (auto simp: cmdToken_def appName_def fail_def exitOK_def exitAuth_def split: sum.splits prod.splits)
  have same: "Store_Load kr st key (print_out s w2) = Store_Load kr st key w2" for kr st key s
    by (rule load_same) (simp_all add: print_out_def)
  show ?thesis
  proof (cases "tokenProvider a w")
    case None
    with t show ?thesis by (simp add: app_AccessToken_def)
  next
    case (Some p)
    show ?thesis
    proof (cases p)
      case (StaticBearer b)
      with Some t have "tok = b" "w2 = w" by (simp_all add: app_AccessToken_def provide_def static_token_def)
      with Some StaticBearer s t show ?thesis by (intro exI [of _ a] exI [of _ tok] exI [of _ w2]) simp
    next
      case (OAuthFlow f)
      with Some s t token_command_stored [OF assms(1,2) _ t(1)] show ?thesis
        by (intro exI [of _ a] exI [of _ tok] exI [of _ w2]) (simp add: same)
    qed
  qed
qed


text \<open>A machine on which the profile is signed in already.\<close>

definition signed_in :: "(memory, unit) machine" where
  "signed_in = demo_machine\<lparr>nodes := (nodes empty_disk)
     ([''.mcpurl''] \<mapsto> Dir mode_0700, [''.mcpurl'', ''tokens''] \<mapsto> Dir mode_0700,
      token_path [''.mcpurl'', ''tokens''] (Key ''http://127.0.0.1'' ''me'') \<mapsto>
        File mode_0600 (marshal (the (token_json (\<lambda>_. 0) demo_token))))\<rparr>"

lemma signed_in_loads:
  "Store_Load kr (PlainFiles [''.mcpurl'', ''tokens'']) (Key ''http://127.0.0.1'' ''me'') signed_in = Inr demo_token"
proof -
  let ?p = "token_path [''.mcpurl'', ''tokens''] (Key ''http://127.0.0.1'' ''me'')"
  let ?d = "marshal (the (token_json (\<lambda>_. 0) demo_token))"
  have l: "no_links [] (nodes signed_in)"
    by (simp add: no_links_def signed_in_def empty_disk_def)
  have "ReadFile ?p signed_in = Inr ?d"
    using read_unlinked [OF l, of ?p] by (simp add: ReadFile_def) (simp add: signed_in_def)
  moreover obtain j where "token_json (\<lambda>_. 0) demo_token = Some j"
    by (simp add: token_json_def opt_time_def demo_token_def)
  ultimately show ?thesis
    by (simp add: Store_Load_def FileStore_Load_def token_json_roundtrip kept_utf8 utf8_token_def demo_token_def valid_utf8_ascii)
qed

lemma signed_in_load: "Load (sv_toml demo_services) [] signed_in = Inr \<lparr>Profiles = [], cfg_Path = ''config.toml''\<rparr>"
proof -
  have l: "no_links [] (nodes signed_in)"
    by (simp add: no_links_def signed_in_def empty_disk_def)
  have "ReadFile [''config.toml''] signed_in = Inl (Wrap (''open '' @ path_text [''config.toml''] @ '': '') ENOENT [])"
    using read_unlinked [OF l, of "[''config.toml'']"]
    by (simp add: ReadFile_def) (simp add: signed_in_def empty_disk_def is_file_def absent_def token_path_def)
  then show ?thesis
    by (simp add: Load_def DefaultPath_def UserHomeDir_def os_path_def abs_path_def ENOENT_cases signed_in_def)
qed

definition token_demo :: cli where
  "token_demo = on_opts (NoKeychain_update (\<lambda>_. True)) (on_opts (op_ClientID_update (\<lambda>_. ''me'')) cli_defaults)"

lemma token_demo_target: "parseTarget newFlagSet [''http://127.0.0.1/'', ''--client-id=me'', ''--no-keychain''] cli_defaults =
    Inr (''http://127.0.0.1/'', token_demo)"
  by (simp add: parseTarget_def target_loop.simps parse_flags.simps parse_one_def positional_def flag_name_def split_value_def
      cut_at_def newFlagSet_def string_flag_def int_flag_def bool_flag_def duration_flag_def set_flag_def parse_bool_def
      token_demo_def on_opts_def cli_defaults_def no_options_def)

definition signed_app :: app where
  "signed_app = demo_app\<lparr>opts := set_target ''http://127.0.0.1/'' token_demo, headers := []\<rparr>"

lemma token_demo_new: "New demo_services (set_target ''http://127.0.0.1/'' token_demo) signed_in = Inr signed_app"
  using signed_in_load demo_url
  by (simp add: New_def signed_app_def demo_app_def set_target_def token_demo_def on_opts_def cli_defaults_def no_options_def
      resolveProfile_def Resolve_def override_profile_def buildHeaders_def ExpandHeaders_def empty_profile_def)

lemma signed_in_token:
  "app_AccessToken demo_services signed_app signed_in = (Inr ''new'', signed_in)"
  "app_store demo_services signed_app signed_in = PlainFiles [''.mcpurl'', ''tokens'']"
  "tokenProvider signed_app signed_in = Some (OAuthFlow (flowFor (prof signed_app)))"
proof -
  have c: "Canonicalize ''http://127.0.0.1/'' = Inr ''http://127.0.0.1''" by code_simp
  show st: "app_store demo_services signed_app signed_in = PlainFiles [''.mcpurl'', ''tokens'']"
    by (simp add: app_store_def NewStore_def signed_app_def set_target_def token_demo_def on_opts_def cli_defaults_def
        no_options_def TokensDir_def BaseDir_def UserHomeDir_def signed_in_def abs_path_def)
  show p: "tokenProvider signed_app signed_in = Some (OAuthFlow (flowFor (prof signed_app)))"
    by (simp add: tokenProvider_def signed_app_def demo_app_def empty_profile_def set_target_def token_demo_def on_opts_def
        cli_defaults_def no_options_def)
  have e: "ensureClient env [] (flowFor (prof signed_app)) w =
      (Inr (''http://127.0.0.1'', Key ''http://127.0.0.1'' ''me''), flowFor (prof signed_app), w)" for env w
    using c by (simp add: ensureClient_def resourceKey_def flowFor_def signed_app_def demo_app_def empty_profile_def clientID_def)
  have f: "Fresh (Some demo_token) expirySkew n" for n by (simp add: Fresh_def demo_token_def)
  show "app_AccessToken demo_services signed_app signed_in = (Inr ''new'', signed_in)"
    by (simp add: app_AccessToken_def p provide_def Token_def token_round_def e st flow_env_def on_store_def
        signed_in_loads f) (simp add: flowFor_def Fresh_def demo_token_def)
qed

theorem printed_token_on_disk_witness:
  "\<exists>key t. Store_Load memory_keyring (PlainFiles [''.mcpurl'', ''tokens'']) key
     (snd (cli_run demo_services [''token'', ''http://127.0.0.1/'', ''--client-id=me'', ''--no-keychain''] [] None signed_in)) =
       Inr (kept_token t) \<and> AccessToken t = ''new''"
proof -
  let ?args = "[''http://127.0.0.1/'', ''--client-id=me'', ''--no-keychain'']"
  have s: "setup_app demo_services ''mcpurl token'' ?args signed_in = (Inr signed_app, signed_in)"
    by (simp add: setup_app_def token_demo_target token_demo_new)
  have r: "cli_run demo_services (''token'' # ?args) [] None signed_in = (exitOK, print_out (''new'' @ [LF]) signed_in)"
    by (simp add: cli_run_def cmdToken_def appName_def s signed_in_token)
  have kr: "sv_keyring demo_services = memory_keyring" by (simp add: demo_services_def)
  have "unlock_only demo_services" by (simp add: unlock_only_def demo_services_def)
  from printed_token_on_disk [OF _ this r] memory_keyring_law
  show ?thesis by (auto simp: s r signed_in_token kr)
qed

end
