(* ===== verification/Processes.thy ===== *)
theory Processes
  imports Login Keychain
begin

text \<open>
  Several processes on one token store.  Every change of a profile's token happens under the file
  lock of its key (\<open>lock.go\<close>), so between two changes the others' steps are whole: a round of the
  ladder, a login, a logout, by a process in whatever state its own \<open>flow\<close> is.  A journal of the
  requests and of the changes of the stored token shows which refresh token a process sends.
\<close>

section \<open>The journal\<close>

text \<open>What is written down: a request, a token that was saved under the key, and its deletion.\<close>

datatype entry = Asked http_request | Kept token | Gone

definition journaled :: "bytes \<Rightarrow> 'w oauth_env \<Rightarrow> ('w \<times> entry list) oauth_env" where
  "journaled key env =
     \<lparr>oe_http = (\<lambda>req v. let (r, w') = oe_http env req (fst v) in (r, w', snd v @ [Asked req])),
      st_load = (\<lambda>k v. st_load env k (fst v)),
      st_save = (\<lambda>k t v. let (r, w') = st_save env k t (fst v)
                         in (r, w', if r = None \<and> k = key then snd v @ [Kept t] else snd v)),
      st_delete = (\<lambda>k v. let (r, w') = st_delete env k (fst v)
                         in (r, w', if r = None \<and> k = key then snd v @ [Gone] else snd v)),
      cs_load = (\<lambda>k v. cs_load env k (fst v)),
      cs_save = (\<lambda>k r. lifted (cs_save env k r)),
      cs_delete = (\<lambda>k. lifted (cs_delete env k)),
      lk_acquire = (\<lambda>k. lifted (lk_acquire env k)),
      lk_release = (\<lambda>k v. (lk_release env k (fst v), snd v)),
      oe_now = (\<lambda>v. oe_now env (fst v)),
      oe_login = (\<lambda>f d ss. lifted (oe_login env f d ss))\<rparr>"

text \<open>The token the journal says is stored, and whether a request asks to refresh one.\<close>

fun current :: "token option \<Rightarrow> entry list \<Rightarrow> token option" where
  "current t [] = t"
| "current t (Asked req # j) = current t j"
| "current t (Kept u # j) = current (Some (kept_token u)) j"
| "current t (Gone # j) = current None j"

lemma current_append [simp]: "current t (j @ k) = current (current t j) k"
  by (induction t j rule: current.induct) simp_all

definition refreshes :: "http_request \<Rightarrow> bool" where
  "refreshes req \<longleftrightarrow> query_get (rq_body req) ''grant_type'' = ''refresh_token''"

definition refreshes_with :: "token option \<Rightarrow> http_request \<Rightarrow> bool" where
  "refreshes_with t req \<longleftrightarrow>
     (refreshes req \<longrightarrow> (\<exists>u. t = Some u \<and> query_get (rq_body req) ''refresh_token'' = RefreshToken u))"

text \<open>Every refresh in the journal carries the token that was stored when it was sent.\<close>

definition faithful :: "token option \<Rightarrow> entry list \<Rightarrow> bool" where
  "faithful t j \<longleftrightarrow> (\<forall>a req b. j = a @ Asked req # b \<longrightarrow> refreshes_with (current t a) req)"

lemma faithful_Nil [simp]: "faithful t []"
  by (simp add: faithful_def)

lemma faithful_snoc:
  "faithful t (j @ [e]) \<longleftrightarrow> faithful t j \<and> (case e of Asked req \<Rightarrow> refreshes_with (current t j) req | _ \<Rightarrow> True)"
proof -
  have "j @ [e] = a @ x # b \<longleftrightarrow> (b = [] \<and> j = a \<and> e = x) \<or> (\<exists>b'. b = b' @ [e] \<and> j = a @ x # b')" for a x b
    by (cases b rule: rev_cases) auto
  then show ?thesis unfolding faithful_def by (cases e) auto
qed

text \<open>Requests without a body, which is all that discovery sends, refresh nothing.\<close>

lemma empty_body_refreshes_nothing: "rq_body req = [] \<Longrightarrow> refreshes_with t req"
  by (simp add: refreshes_with_def refreshes_def query_get_def parse_query_def query_pair_def map_filter_simps)

lemma refresh_body:
  "rq_body req = refresh_form f canonical stored \<Longrightarrow> refreshes_with (Some stored) req"
  by (simp add: refreshes_with_def refresh_form_def query_get_def parse_query_encoded)

definition idle :: "entry list \<Rightarrow> bool" where
  "idle xs \<longleftrightarrow> (\<forall>x \<in> set xs. \<exists>req. x = Asked req \<and> rq_body req = [])"

lemma idle_current: "idle xs \<Longrightarrow> current t xs = t"
  by (induction xs) (auto simp: idle_def)

lemma idle_faithful: "idle xs \<Longrightarrow> faithful t j \<Longrightarrow> faithful t (j @ xs)"
proof (induction xs rule: rev_induct)
  case (snoc x xs)
  then have "faithful t (j @ xs)" by (simp add: idle_def)
  moreover obtain req where "x = Asked req" "rq_body req = []" using snoc.prems(1) by (auto simp: idle_def)
  ultimately show ?case
    using faithful_snoc [of t "j @ xs" x] empty_body_refreshes_nothing by simp
qed simp

interpretation gets: get_steps "journaled key env" "\<lambda>v v'. \<exists>xs. snd v' = snd v @ xs \<and> idle xs" for key env
proof
  fix v v1 v2 :: "'a \<times> entry list" and req
  show "\<exists>xs. snd v = snd v @ xs \<and> idle xs" by (simp add: idle_def)
  show "\<exists>xs. snd v1 = snd v @ xs \<and> idle xs \<Longrightarrow> \<exists>xs. snd v2 = snd v1 @ xs \<and> idle xs \<Longrightarrow> \<exists>xs. snd v2 = snd v @ xs \<and> idle xs"
    by (auto simp: idle_def)
  show "rq_body req = [] \<Longrightarrow> requireHTTPS (rq_url req) = None \<Longrightarrow>
      \<exists>xs. snd (snd (oe_http (journaled key env) req v)) = snd v @ xs \<and> idle xs"
    by (auto simp: journaled_def case_prod_beta idle_def intro!: exI [of _ "[Asked req]"])
qed

section \<open>What the processes rely on\<close>

text \<open>An operation brings no token when it leaves the storage intact and the key without a token it
  did not have.\<close>

definition brings_none :: "('w \<Rightarrow> bool) \<Rightarrow> (bytes \<Rightarrow> 'w \<Rightarrow> gerr + token) \<Rightarrow> bytes \<Rightarrow> 'w \<Rightarrow> 'w \<Rightarrow> bool" where
  "brings_none intact load key w w' \<longleftrightarrow>
     (intact w \<longrightarrow> intact w' \<and> (\<forall>t. load key w' = Inr t \<longrightarrow> load key w = Inr t))"

lemma brings_none_refl [simp]: "brings_none intact load key w w"
  by (simp add: brings_none_def)

lemma brings_none_trans:
  "brings_none intact load key w1 w2 \<Longrightarrow> brings_none intact load key w2 w3 \<Longrightarrow> brings_none intact load key w1 w3"
  by (auto simp: brings_none_def)

text \<open>The network, the lock and the browser bring none; nor does the store of the registrations, a
  deletion, or a save that failed.  A save that succeeded brings its token.\<close>

definition outside_calm :: "('w \<Rightarrow> bool) \<Rightarrow> (bytes \<Rightarrow> 'w \<Rightarrow> gerr + token) \<Rightarrow> bytes \<Rightarrow> 'w oauth_env \<Rightarrow> bool" where
  "outside_calm intact load key env \<longleftrightarrow>
     (\<forall>req w. brings_none intact load key w (snd (oe_http env req w))) \<and>
     (\<forall>f d ss w. brings_none intact load key w (snd (oe_login env f d ss w))) \<and>
     (\<forall>k w. brings_none intact load key w (snd (lk_acquire env k w))) \<and>
     (\<forall>k w. brings_none intact load key w (lk_release env k w))"

definition store_calm :: "('w \<Rightarrow> bool) \<Rightarrow> bytes \<Rightarrow> 'w oauth_env \<Rightarrow> bool" where
  "store_calm intact key env \<longleftrightarrow>
     (\<forall>k w. brings_none intact (st_load env) key w (snd (cs_delete env k w))) \<and>
     (\<forall>k w. brings_none intact (st_load env) key w (snd (st_delete env k w))) \<and>
     (\<forall>w w' t. intact w \<longrightarrow> st_delete env key w = (None, w') \<longrightarrow> st_load env key w' \<noteq> Inr t) \<and>
     (\<forall>t w e w'. st_save env key t w = (Some e, w') \<longrightarrow> brings_none intact (st_load env) key w w') \<and>
     (\<forall>t w w'. intact w \<longrightarrow> st_save env key t w = (None, w') \<longrightarrow>
        intact w' \<and> st_load env key w' = Inr (kept_token t))"

text \<open>The invariant: what is stored is what the journal says, and every refresh so far was faithful.\<close>

definition in_step :: "('w \<Rightarrow> bool) \<Rightarrow> 'w oauth_env \<Rightarrow> bytes \<Rightarrow> token option \<Rightarrow> 'w \<times> entry list \<Rightarrow> bool" where
  "in_step intact env key t0 v \<longleftrightarrow>
     intact (fst v) \<and> (\<forall>t. st_load env key (fst v) = Inr t \<longrightarrow> current t0 (snd v) = Some t) \<and> faithful t0 (snd v)"

lemma in_step_quiet:
  "in_step intact env key t0 v \<Longrightarrow> brings_none intact (st_load env) key (fst v) (fst v') \<Longrightarrow>
     snd v' = snd v @ xs \<Longrightarrow> idle xs \<Longrightarrow> in_step intact env key t0 v'"
  by (auto simp: in_step_def brings_none_def idle_current intro: idle_faithful)

lemma in_step_saved:
  assumes "store_calm intact key env" "in_step intact env key t0 v" "st_save (journaled key env) key t v = (r, v')"
  shows "in_step intact env key t0 v'"
proof -
  obtain r1 w1 where s: "st_save env key t (fst v) = (r1, w1)" by (rule prod.exhaust)
  show ?thesis
  proof (cases r1)
    case None
    with s assms show ?thesis
      by (auto simp: journaled_def in_step_def store_calm_def faithful_snoc)
  next
    case (Some e)
    with s assms(1) have "brings_none intact (st_load env) key (fst v) w1" by (auto simp: store_calm_def)
    with in_step_quiet [OF assms(2), of v' "[]"] s Some assms(3) show ?thesis
      by (auto simp: journaled_def idle_def)
  qed
qed

lemma in_step_deleted:
  assumes "store_calm intact key env" "in_step intact env key t0 v"
  shows "in_step intact env key t0 (snd (st_delete (journaled key env) k v))"
proof -
  obtain r w1 where s: "st_delete env k (fst v) = (r, w1)" by (rule prod.exhaust)
  have b: "brings_none intact (st_load env) key (fst v) w1"
    using assms(1) s unfolding store_calm_def by (metis snd_conv)
  show ?thesis
  proof (cases "r = None \<and> k = key")
    case True
    with s assms have "st_load env key w1 \<noteq> Inr t" for t by (auto simp: store_calm_def in_step_def)
    with b True s assms(2) show ?thesis
      by (auto simp: journaled_def in_step_def brings_none_def faithful_snoc)
  next
    case False
    with in_step_quiet [OF assms(2), of "(w1, snd v)" "[]"] b s show ?thesis
      by (auto simp: journaled_def idle_def)
  qed
qed

section \<open>A round of the ladder\<close>

definition calm :: "('w \<Rightarrow> bool) \<Rightarrow> bytes \<Rightarrow> 'w oauth_env \<Rightarrow> bool" where
  "calm intact key env \<longleftrightarrow> outside_calm intact (st_load env) key env \<and> store_calm intact key env"

lemma calm_steps:
  assumes "calm intact key env"
  shows "brings_none intact (st_load env) key w (snd (oe_http env req w))"
    "brings_none intact (st_load env) key w (snd (oe_login env f d ss w))"
    "brings_none intact (st_load env) key w (snd (lk_acquire env k w))"
    "brings_none intact (st_load env) key w (lk_release env k w)"
    "brings_none intact (st_load env) key w (snd (cs_delete env k w))"
  using assms by (simp_all add: calm_def outside_calm_def store_calm_def)

lemma calm_drops:
  assumes "calm intact key env"
  shows "drop_steps (journaled key env) (\<lambda>v v'. in_step intact env key t0 v \<longrightarrow> in_step intact env key t0 v')"
proof
  fix v v1 v2 :: "'a \<times> entry list" and k
  let ?fine = "in_step intact env key t0"
  have quiet: "?fine v \<longrightarrow> ?fine (w', snd v)" if "brings_none intact (st_load env) key (fst v) w'" for w'
    using in_step_quiet [of intact env key t0 v "(w', snd v)" "[]"] that by (simp add: idle_def)
  show "?fine v \<longrightarrow> ?fine (snd (st_delete (journaled key env) k v))"
    using in_step_deleted assms unfolding calm_def by blast
  show "?fine v \<longrightarrow> ?fine (snd (cs_delete (journaled key env) k v))"
    "?fine v \<longrightarrow> ?fine (snd (lk_acquire (journaled key env) k v))"
    "?fine v \<longrightarrow> ?fine (lk_release (journaled key env) k v)"
    using quiet [OF calm_steps(5) [OF assms]] quiet [OF calm_steps(3) [OF assms]] quiet [OF calm_steps(4) [OF assms]]
    by (simp_all add: journaled_def lifted_def)
qed auto

lemma calm_discovery:
  assumes "calm intact key env" "discover (journaled key env) challenge f v = (r, f', v')" "in_step intact env key t0 v"
  shows "in_step intact env key t0 v' \<and> current t0 (snd v') = current t0 (snd v)"
proof -
  have "get_steps (journaled key env) (\<lambda>v v'. brings_none intact (st_load env) key (fst v) (fst v'))"
    by unfold_locales
      (auto intro: brings_none_trans calm_steps(1) [OF assms(1)] simp: journaled_def case_prod_beta)
  from get_steps.discovered [OF this assms(2)] obtain xs where
    "brings_none intact (st_load env) key (fst v) (fst v')" "snd v' = snd v @ xs" "idle xs"
    using gets.discovered [OF assms(2)] by blast
  with in_step_quiet [OF assms(3)] show ?thesis by (auto simp: idle_current)
qed

text \<open>A refresh sends the stored token, the one the journal knows.\<close>

lemma calm_refresh:
  assumes "calm intact key env" "refresh (journaled key env) d canonical stored f v = (r, v')" "in_step intact env key t0 v"
    and "current t0 (snd v) = Some stored"
  shows "in_step intact env key t0 v'"
proof (cases "new_http_request http_post (TokenEndpoint (d_AS d)) (refresh_form f canonical stored)")
  case (Inl e)
  with assms(2,3) show ?thesis by (simp add: refresh_def)
next
  case (Inr req)
  let ?q = "req\<lparr>rq_header := hset (rq_header req) ''Content-Type'' ''application/x-www-form-urlencoded''\<rparr>"
  have "rq_body ?q = refresh_form f canonical stored" using Inr by (auto simp: new_http_request_def split: if_splits)
  then have sent: "refreshes_with (current t0 (snd v)) ?q" by (simp only: assms(4) refresh_body)
  obtain x w1 where w1: "oe_http env ?q (fst v) = (x, w1)" by (rule prod.exhaust)
  have "oe_http (journaled key env) ?q v = (x, w1, snd v @ [Asked ?q])" using w1 by (simp add: journaled_def)
  then have "v' = (w1, snd v @ [Asked ?q])"
    using assms(2) Inr by (cases x) (auto simp: refresh_def case_prod_beta Let_def split: if_splits)
  with calm_steps(1) [OF assms(1), of "fst v" ?q] w1 sent assms(3) show ?thesis
    by (auto simp: in_step_def brings_none_def faithful_snoc)
qed

lemma calm_login:
  assumes "calm intact key env" "loginAndSave (journaled key env) key d challenge f v = (r, f', v')" "in_step intact env key t0 v"
  shows "in_step intact env key t0 v'"
proof -
  obtain x w1 where l: "oe_login env f d (resolveScopes f d challenge) (fst v) = (x, w1)" by (rule prod.exhaust)
  have j: "oe_login (journaled key env) f d (resolveScopes f d challenge) v = (x, w1, snd v)"
    using l by (simp add: journaled_def lifted_def)
  have one: "in_step intact env key t0 (w1, snd v)"
    using in_step_quiet [OF assms(3), of "(w1, snd v)" "[]"] calm_steps(2) [OF assms(1)] l
    by (simp add: idle_def) (metis snd_conv)
  show ?thesis
  proof (cases x)
    case (Inr t)
    define u where "u = t\<lparr>tk_Issuer := as_Issuer (d_AS d), tk_ClientID := clientID f\<rparr>"
    obtain y v2 where s: "st_save (journaled key env) key u (w1, snd v) = (y, v2)" by (rule prod.exhaust)
    have "v' = v2"
      using assms(2) j s Inr by (cases y) (simp_all add: loginAndSave_def Let_def flip: u_def)
    moreover have "store_calm intact key env" using assms(1) by (simp add: calm_def)
    ultimately show ?thesis using in_step_saved [OF _ one s] by simp
  qed (use one j assms(2) in \<open>simp add: loginAndSave_def\<close>)
qed

lemma calm_interactive:
  assumes "calm intact key env" "interactive (journaled key env) key d rejected challenge f v = (r, f', v')"
    and "in_step intact env key t0 v"
  shows "in_step intact env key t0 v'"
  using assms(2,3) calm_login [OF assms(1) _ assms(3)]
  by (auto simp: interactive_def split: if_splits sum.splits prod.splits)

lemma calm_rung:
  assumes "calm intact key env" "refresh_rung (journaled key env) key canonical d stored rejected challenge f v = (r, f', v')"
    and "in_step intact env key t0 v" "current t0 (snd v) = Some stored"
  shows "in_step intact env key t0 v'"
proof -
  let ?E = "journaled key env" and ?fine = "in_step intact env key t0"
  obtain r1 v1 where g: "refresh ?E d canonical stored f v = (r1, v1)" by (rule prod.exhaust)
  have one: "?fine v1" by (rule calm_refresh [OF assms(1) g assms(3,4)])
  have st: "store_calm intact key env" using assms(1) by (simp add: calm_def)
  show ?thesis
  proof (cases r1)
    case (Inr t)
    obtain y v2 where s: "st_save ?E key t v1 = (y, v2)" by (rule prod.exhaust)
    have "?fine v2" by (rule in_step_saved [OF st one s])
    moreover have "v' = v2" using assms(2) g s Inr by (cases y) (simp_all add: refresh_rung_def)
    ultimately show ?thesis by simp
  next
    case (Inl e)
    obtain x v2 where d: "st_delete ?E key v1 = (x, v2)" by (rule prod.exhaust)
    have two: "?fine v2" using in_step_deleted [OF st one, of key] d by simp
    obtain r3 f3 v3 where i: "interactive ?E key d rejected challenge f v2 = (r3, f3, v3)" by (rule prod_cases3)
    obtain e4 f4 v4 where p: "dropClient ?E canonical key f v1 = (e4, f4, v4)" by (rule prod_cases3)
    have "?fine v3" by (rule calm_interactive [OF assms(1) i two])
    moreover have "?fine v4" using drop_steps.dropped [OF calm_drops [OF assms(1)] p] one by blast
    moreover have "v' \<in> {v3, v4, v1}"
      using assms(2) g d i p Inl by (auto simp: refresh_rung_def Let_def split: if_splits)
    ultimately show ?thesis using one by auto
  qed
qed

lemma calm_obtain:
  assumes "calm intact key env" "obtain_token (journaled key env) key canonical rejected challenge f v = (r, f', v')"
    and "in_step intact env key t0 v"
  shows "in_step intact env key t0 v'"
proof -
  let ?E = "journaled key env" and ?fine = "in_step intact env key t0"
  obtain r1 f1 v1 where d: "discover ?E challenge f v = (r1, f1, v1)" by (rule prod_cases3)
  have one: "?fine v1" "current t0 (snd v1) = current t0 (snd v)" using calm_discovery [OF assms(1) d assms(3)] by simp_all
  obtain e2 f2 v2 where p: "dropClient ?E canonical key f1 v1 = (e2, f2, v2)" by (rule prod_cases3)
  have two: "?fine v2" using drop_steps.dropped [OF calm_drops [OF assms(1)] p] one by blast
  consider (go) dd stored where "st_load env key (fst v) = Inr stored"
      "refresh_rung ?E key canonical dd stored rejected challenge f1 v1 = (r, f', v')"
    | (ask) dd where "interactive ?E key dd rejected challenge f1 v1 = (r, f', v')"
    | (stay) "v' \<in> {v, v1, v2}"
    using assms(2) d p
    by (auto simp: obtain_token_def stored_token_def journaled_def Let_def split: sum.splits if_splits)
  then show ?thesis
  proof cases
    case go
    then have "current t0 (snd v1) = Some stored" using assms(3) one(2) by (simp add: in_step_def)
    from calm_rung [OF assms(1) go(2) one(1) this] show ?thesis .
  next
    case ask
    from calm_interactive [OF assms(1) this one(1)] show ?thesis .
  qed (use assms(3) one(1) two in auto)
qed

section \<open>Any number of processes\<close>

text \<open>One change of the stored token: a round under the lock by a process whose flow is \<open>f\<close> (any flow: each
  process has its own), a login, a logout; or anything at all that brings no token, such as the same on
  other keys.\<close>

inductive change ::
  "('w \<Rightarrow> bool) \<Rightarrow> 'w oauth_env \<Rightarrow> bytes \<Rightarrow> 'w \<times> entry list \<Rightarrow> 'w \<times> entry list \<Rightarrow> bool" for intact env key
where
  ladder: "WithLock (journaled key env) key (obtain_token (journaled key env) key canonical rejected challenge) f v
      = (r, f', v') \<Longrightarrow> change intact env key v v'"
| login: "WithLock (journaled key env) key (loginAndSave (journaled key env) key d challenge) f v = (r, f', v') \<Longrightarrow>
    change intact env key v v'"
| logout: "change intact env key v (snd (st_delete (journaled key env) key v))"
| elsewhere: "brings_none intact (st_load env) key w w' \<Longrightarrow> change intact env key (w, j) (w', j)"

lemma change_in_step:
  assumes "calm intact key env" "change intact env key v v'" "in_step intact env key t0 v"
  shows "in_step intact env key t0 v'"
  using assms(2,3)
proof cases
  case (ladder canonical rejected challenge f r f')
  from drop_steps.locked [OF calm_drops [OF assms(1)] _ ladder] calm_obtain [OF assms(1)] assms(3) show ?thesis by blast
next
  case (login d challenge f r f')
  from drop_steps.locked [OF calm_drops [OF assms(1)] _ login] calm_login [OF assms(1)] assms(3) show ?thesis by blast
next
  case logout
  with in_step_deleted assms(1,3) show ?thesis unfolding calm_def by blast
next
  case (elsewhere w w' j)
  with in_step_quiet [OF assms(3), of v' "[]"] show ?thesis by (simp add: idle_def)
qed

lemma changes_in_step:
  "(change intact env key)\<^sup>*\<^sup>* v v' \<Longrightarrow> calm intact key env \<Longrightarrow> in_step intact env key t0 v \<Longrightarrow> in_step intact env key t0 v'"
  by (induction rule: rtranclp_induct) (auto intro: change_in_step)

section \<open>The plain store\<close>

lemma load_tree:
  assumes "no_links dir (nodes w)"
  shows "FileStore_Load dir key w = Inr t \<longleftrightarrow>
    (\<exists>m data. nodes w (token_path dir key) = Some (File m data) \<and> unmarshal token_fields data empty_token = (t, True))"
proof -
  have "read_node (nodes w) (token_path dir key) =
      (case nodes w (token_path dir key) of None \<Rightarrow> Inl (absent (nodes w) (token_path dir key)) | Some x \<Rightarrow> Inr x)"
    by (rule read_unlinked [OF assms]) (simp add: token_path_def)
  then show ?thesis
    by (cases "nodes w (token_path dir key)")
      (auto simp: FileStore_Load_def ReadFile_def Let_def split: node.splits prod.splits if_splits)
qed

lemma removal_brings_none:
  assumes "sys_remove p w = (r, w')"
  shows "brings_none (store_ok dir) (FileStore_Load dir) key w w'"
  unfolding brings_none_def
proof (intro impI conjI allI)
  assume ok: "store_ok dir w"
  show ok': "store_ok dir w'" by (rule store_kept(2) [OF ok assms])
  fix t assume "FileStore_Load dir key w' = Inr t"
  with load_tree [of dir w' key t] load_tree [of dir w key t] ok ok' remove_changes [OF assms]
  show "FileStore_Load dir key w = Inr t" by (auto simp: store_ok_def split: if_splits)
qed

lemma delete_brings_none: "brings_none (store_ok dir) (FileStore_Load dir) key w (snd (FileStore_Delete d k w))"
  using removal_brings_none [of "token_path d k" w _ _ dir key]
  by (auto simp: FileStore_Delete_def split: prod.split option.split)

lemma plain_calm:
  assumes "outside_calm (store_ok dir) (FileStore_Load dir) key env"
  shows "calm (store_ok dir) key (on_store kr (PlainFiles dir) clients env)"
proof -
  let ?E = "on_store kr (PlainFiles dir) clients env"
  have E: "st_load ?E = FileStore_Load dir" "st_save ?E = FileStore_Save dir" "st_delete ?E = FileStore_Delete dir"
    "cs_delete ?E = FileStore_Delete clients" "oe_http ?E = oe_http env" "oe_login ?E = oe_login env"
    "lk_acquire ?E = lk_acquire env" "lk_release ?E = lk_release env"
    by (simp_all add: on_store_def Store_Load_def Store_Save_def Store_Delete_def ClientStore_Delete_def fun_eq_iff)
  have "outside_calm (store_ok dir) (st_load ?E) key ?E"
    using assms unfolding outside_calm_def E .
  moreover have "store_calm (store_ok dir) key ?E"
    unfolding store_calm_def E
  proof (intro conjI allI impI)
    fix t e and w w' :: "('a, 'b) keyed_scheme"
    show "store_ok dir w \<Longrightarrow> FileStore_Delete dir key w = (None, w') \<Longrightarrow> FileStore_Load dir key w' \<noteq> Inr t"
      using files.load_deleted [of dir w key w'] by simp
    show "FileStore_Save dir key t w = (Some e, w') \<Longrightarrow> brings_none (store_ok dir) (FileStore_Load dir) key w w'"
      using files.intact_saved [of dir w key t "Some e" w'] save_failed [of dir w key t e w'] by (simp add: brings_none_def)
    show "store_ok dir w \<Longrightarrow> FileStore_Save dir key t w = (None, w') \<Longrightarrow> store_ok dir w'"
      by (rule files.intact_saved)
    show "FileStore_Save dir key t w = (None, w') \<Longrightarrow> FileStore_Load dir key w' = Inr (kept_token t)"
      by (rule load_after_save)
  qed (rule delete_brings_none)+
  ultimately show ?thesis by (simp add: calm_def)
qed


section \<open>Two processes and a rotation\<close>

text \<open>A server that answers the first refresh token with a second one and refuses any other, and a disk
  with the first.\<close>

definition rotated_answer :: bytes where
  "rotated_answer = ''{'' @ [DQ] @ ''access_token'' @ [DQ] @ '':'' @ [DQ] @ ''a2'' @ [DQ] @ '','' @
     [DQ] @ ''refresh_token'' @ [DQ] @ '':'' @ [DQ] @ ''r2'' @ [DQ] @ ''}''"

definition rotating_env :: "memory keyed oauth_env" where
  "rotating_env = keyed_env\<lparr>oe_http := \<lambda>req w.
     (if query_get (rq_body req) ''refresh_token'' = ''r'' then Inr (sample_response ''application/json'' rotated_answer)
      else Inl (Message ''connection refused''), w)\<rparr>"

definition rotation_disk :: "memory keyed" where
  "rotation_disk = keyed_disk\<lparr>nodes := (nodes empty_disk)([''t''] \<mapsto> Dir mode_0700,
     [''t'', ''k.json''] \<mapsto> File mode_0600 (marshal (the (token_json (\<lambda>_. 0) demo_token))))\<rparr>"

definition rotated :: token where
  "rotated = \<lparr>AccessToken = ''a2'', RefreshToken = ''r2'', Expiry = None, tk_Issuer = ''https://as'',
     tk_ClientID = ''c'', tk_Scopes = []\<rparr>"

abbreviation rotating :: "(memory keyed \<times> entry list) oauth_env" where
  "rotating \<equiv> journaled ''k'' (on_store memory_keyring (PlainFiles [''t'']) [''c''] rotating_env)"

definition refresh_request :: "token \<Rightarrow> http_request" where
  "refresh_request t =
     \<lparr>rq_method = http_post, rq_url = ''https://as/t'',
      rq_header = hset no_header ''Content-Type'' ''application/x-www-form-urlencoded'',
      rq_body = refresh_form demo_flow ''https://mcp'' t\<rparr>"

lemma refresh_request_reads:
  "refreshes (refresh_request t)" "query_get (rq_body (refresh_request t)) ''refresh_token'' = RefreshToken t"
  by (simp_all add: refresh_request_def refreshes_def refresh_form_def query_get_def parse_query_encoded)

lemma rotation_disk_ok: "store_ok [''t''] rotation_disk"
  by (auto simp: store_ok_def tree_ok_def no_links_def rotation_disk_def empty_disk_def is_dir_def strict_prefix_def prefix_Cons
      split: if_splits)

lemma rotation_disk_loads: "FileStore_Load [''t''] ''k'' rotation_disk = Inr demo_token"
proof -
  obtain j where j: "token_json (\<lambda>_. 0) demo_token = Some j"
    by (simp add: token_json_def opt_time_def demo_token_def)
  have "no_links [''t''] (nodes rotation_disk)" using rotation_disk_ok by (simp add: store_ok_def)
  then have "FileStore_Load [''t''] ''k'' rotation_disk = Inr (kept_token demo_token)"
    by (simp add: load_tree token_path_def) (simp add: rotation_disk_def j token_json_roundtrip [OF j])
  then show ?thesis by (simp add: kept_utf8 utf8_token_def demo_token_def valid_utf8_ascii)
qed

lemma rotation_disk_save: "\<exists>w'. FileStore_Save [''t''] ''k'' rotated rotation_disk = (None, w')"
proof -
  obtain j where j: "token_json (zone rotation_disk) rotated = Some j"
    by (simp add: token_json_def opt_time_def rotated_def)
  have tg: "write_target (nodes rotation_disk) [''t'', ''k.json''] = [''t'', ''k.json'']"
    using rotation_disk_ok by (intro target_unlinked [of "[''t'']"]) (simp_all add: store_ok_def)
  have "\<exists>w'. Write [''t'', ''k.json''] (marshal j) mode_0600 rotation_disk = (None, w') \<and>
      ReadFile [''t'', ''k.json''] w' = Inr (marshal j)"
    by (rule write_quiet)
      (auto simp: tg first_temp_def base_name_def,
       auto simp: rotation_disk_def empty_disk_def is_dir_def prefix_Cons)
  then show ?thesis by (auto simp: FileStore_Save_def j writeFileAtomic_def)
qed

lemma rotating_simps:
  "st_load rotating k v = FileStore_Load [''t''] k (fst v)"
  "st_save rotating ''k'' t v = (let (r, w') = FileStore_Save [''t''] ''k'' t (fst v) in (r, w', if r = None then snd v @ [Kept t] else snd v))"
  "lk_acquire rotating k v = (None, v)" "lk_release rotating k v = v"
  "oe_http rotating (refresh_request t) v =
     (if RefreshToken t = ''r'' then Inr (sample_response ''application/json'' rotated_answer)
      else Inl (Message ''connection refused''), fst v, snd v @ [Asked (refresh_request t)])"
  by (simp_all add: journaled_def on_store_def Store_Load_def Store_Save_def rotating_env_def keyed_env_def lifted_def
      refresh_request_reads)

lemma rotating_refresh:
  "refresh rotating \<lparr>d_AS = demo_server, PRMScopes = []\<rparr> ''https://mcp'' t demo_flow v =
     (if RefreshToken t = ''r'' then Inr (rotated\<lparr>tk_Scopes := tk_Scopes t\<rparr>) else Inl (Message ''connection refused''),
      fst v, snd v @ [Asked (refresh_request t)])"
proof -
  have "url_parse ''https://as/t'' \<noteq> None" by code_simp
  then have n: "new_http_request http_post ''https://as/t'' (refresh_form demo_flow ''https://mcp'' t) =
      Inr \<lparr>rq_method = http_post, rq_url = ''https://as/t'', rq_header = no_header,
        rq_body = refresh_form demo_flow ''https://mcp'' t\<rparr>"
    by (simp add: new_http_request_def)
  have q: "\<lparr>rq_method = http_post, rq_url = ''https://as/t'', rq_header = no_header,
        rq_body = refresh_form demo_flow ''https://mcp'' t\<rparr>
      \<lparr>rq_header := hset no_header ''Content-Type'' ''application/x-www-form-urlencoded''\<rparr> = refresh_request t"
    by (simp add: refresh_request_def)
  have h: "unmarshal tr_fields rotated_answer empty_tr =
      (\<lparr>tr_AccessToken = ''a2'', tr_RefreshToken = ''r2'', tr_ExpiresIn = 0, tr_Scope = []\<rparr>, True)" by code_simp
  have b: "limited_body (sample_response ''application/json'' rotated_answer) = (rotated_answer, True)"
    "rs_status (sample_response ''application/json'' rotated_answer) = 200"
    by (simp_all add: limited_body_def sample_response_def rotated_answer_def bodyLimit_def)
  have e: "TokenEndpoint demo_server = ''https://as/t''" "as_Issuer demo_server = ''https://as''" "clientID demo_flow = ''c''"
    by (simp_all add: demo_server_def clientID_def demo_flow_def)
  show ?thesis
    unfolding refresh_def discovery.simps e n sum.case http_request.simps
    by (simp add: q [simplified] rotating_simps(5) h b e refreshed_token_def grantedScopes_def rotated_def)
qed

text \<open>A process whose access token was rejected, with the static client of \<open>demo_flow\<close>: it goes to the
  refresh rung with the token it found.\<close>

lemma rejected_refreshes:
  assumes "FileStore_Load [''t''] ''k'' (fst v) = Inr t" "RefreshToken t \<noteq> []" "AccessToken t \<noteq> ''old''" "AccessToken t \<noteq> []"
  shows "obtain_token rotating ''k'' ''https://mcp'' (AccessToken t) [] demo_flow v =
    refresh_rung rotating ''k'' ''https://mcp'' \<lparr>d_AS = demo_server, PRMScopes = []\<rparr> t (AccessToken t) [] demo_flow v"
proof -
  have c: "clientReplaced rotating ''https://mcp'' demo_flow v = False" "foreignClient d demo_flow = False" for d
    by (simp_all add: clientReplaced_def foreignClient_def demo_flow_def)
  have st: "stored_token rotating ''k'' v = Inr (Some t)"
    using assms(1) by (simp add: stored_token_def rotating_simps(1))
  have f: "selfIssued demo_flow (AccessToken t) = False" "(AccessToken t \<noteq> lastRefreshed demo_flow) = True"
    using assms(3,4) by (simp_all add: selfIssued_def demo_flow_def)
  have d: "discover rotating [] demo_flow v = (Inr \<lparr>d_AS = demo_server, PRMScopes = []\<rparr>, demo_flow, v)"
    by (simp add: discover_def demo_flow_def)
  show ?thesis
    unfolding obtain_token_def Let_def c st f d sum.case prod.case option.sel if_False
    using assms(2) by simp
qed

lemma two_refreshes:
  obtains w' where "(change (store_ok [''t'']) (on_store memory_keyring (PlainFiles [''t'']) [''c''] rotating_env) ''k'')\<^sup>*\<^sup>*
      (rotation_disk, []) (w', [Asked (refresh_request demo_token), Kept rotated] @ Asked (refresh_request rotated) # [])"
proof -
  let ?c = "change (store_ok [''t'']) (on_store memory_keyring (PlainFiles [''t'']) [''c''] rotating_env) ''k''"
  let ?j = "[Asked (refresh_request demo_token), Kept rotated]"
  obtain w' where sv: "FileStore_Save [''t''] ''k'' rotated rotation_disk = (None, w')" using rotation_disk_save by blast
  have t: "AccessToken demo_token = ''new''" "RefreshToken demo_token = ''r''" "rotated\<lparr>tk_Scopes := tk_Scopes demo_token\<rparr> = rotated"
    "AccessToken rotated = ''a2''" "RefreshToken rotated = ''r2''"
    by (simp_all add: demo_token_def rotated_def)
  have "kept_token rotated = rotated" by (simp add: kept_utf8 utf8_token_def rotated_def valid_utf8_ascii)
  then have l2: "FileStore_Load [''t''] ''k'' w' = Inr rotated" using load_after_save [OF sv] by simp
  have "obtain_token rotating ''k'' ''https://mcp'' ''new'' [] demo_flow (rotation_disk, []) =
      (Inr ''a2'', demo_flow\<lparr>lastRefreshed := ''a2'', cached := Some rotated\<rparr>, w', ?j)"
    using rejected_refreshes [of "(rotation_disk, [])" demo_token] rotation_disk_loads sv
    by (simp add: t refresh_rung_def rotating_refresh rotating_simps(2))
  then have one: "?c (rotation_disk, []) (w', ?j)"
    by (intro change.ladder [of _ _ "''https://mcp''" "''new''" "[]" demo_flow]) (simp add: WithLock_def rotating_simps(3,4))
  have "snd (snd (obtain_token rotating ''k'' ''https://mcp'' ''a2'' [] demo_flow (w', ?j))) = (w', ?j @ [Asked (refresh_request rotated)])"
    using rejected_refreshes [of "(w', ?j)" rotated] l2
    by (simp add: t refresh_rung_def rotating_refresh errInvalidGrant_def errInvalidClient_def)
  then obtain r f where "obtain_token rotating ''k'' ''https://mcp'' ''a2'' [] demo_flow (w', ?j) =
      (r, f, w', ?j @ [Asked (refresh_request rotated)])"
    by (metis prod.collapse)
  then have "?c (w', ?j) (w', ?j @ [Asked (refresh_request rotated)])"
    by (intro change.ladder [of _ _ "''https://mcp''" "''a2''" "[]" demo_flow]) (simp add: WithLock_def rotating_simps(3,4))
  with one have "?c\<^sup>*\<^sup>* (rotation_disk, []) (w', ?j @ Asked (refresh_request rotated) # [])" by simp
  then show thesis by (rule that)
qed


end
